(* ===== verification/Nfs_Prelude.thy ===== *)
theory Nfs_Prelude
  imports Main "HOL-Library.AList" "HOL-Library.Word"
begin

text \<open>
  The vocabulary every component shares. The program is C++14 that is compiled without
  \<open>NDEBUG\<close> (see \<open>Makefile\<close>), so a failed \<open>assert\<close> ends
  it; reading an uninitialised object, dereferencing a null or dangling pointer and reading past
  an object are undefined behaviour; calls that nest deeper than the stack allows end the
  program too. Each of these is a value of \<open>fault\<close>, and every operation that can
  meet one returns an \<open>outcome\<close>. The file then gives the parts of the C++ standard
  library the code uses everywhere: memory cells and C strings, \<open>unordered_map\<close> as
  an association list, \<open>find_if\<close> and \<open>erase\<close> on sequences, decimal
  output of an \<open>int\<close> and the splitting of a stream into words.
\<close>

named_theorems model_defs \<open>the unfolding equations of the operations of the model\<close>
named_theorems outcome_rules \<open>equations that push \<open>bind_o\<close> through results\<close>

section \<open>Faults and outcomes\<close>

datatype fault =
    Assertion_Failed
  | Undefined_Behaviour
  | Bad_Array_Length
  | Self_Deadlock
  | Stack_Exhausted

type_synonym 'a outcome = "fault + 'a"

definition bind_o :: "'a outcome \<Rightarrow> ('a \<Rightarrow> 'b outcome) \<Rightarrow> 'b outcome" where
  "bind_o m f = (case m of Inl e \<Rightarrow> Inl e | Inr x \<Rightarrow> f x)"

definition assert_o :: "bool \<Rightarrow> unit outcome" where
  "assert_o b = (if b then Inr () else Inl Assertion_Failed)"

definition defined_o :: "'a option \<Rightarrow> 'a outcome" where
  "defined_o x = (case x of None \<Rightarrow> Inl Undefined_Behaviour | Some v \<Rightarrow> Inr v)"

lemma bind_o_simps [simp, outcome_rules]:
  "bind_o (Inl e) f = Inl e"
  "bind_o (Inr x) f = f x"
  by (simp_all add: bind_o_def)

lemma bind_o_assoc: "bind_o (bind_o m f) g = bind_o m (\<lambda>x. bind_o (f x) g)"
  by (cases m) simp_all

lemma bind_o_eq_Inr_iff [outcome_rules]:
  "bind_o m f = Inr y \<longleftrightarrow> (\<exists>x. m = Inr x \<and> f x = Inr y)"
  by (cases m) simp_all

lemma bind_o_eq_Inl_iff [outcome_rules]:
  "bind_o m f = Inl e \<longleftrightarrow> m = Inl e \<or> (\<exists>x. m = Inr x \<and> f x = Inl e)"
  by (cases m) simp_all

lemma bind_o_cong [fundef_cong]:
  "m = m' \<Longrightarrow> (\<And>x. m' = Inr x \<Longrightarrow> f x = g x) \<Longrightarrow> bind_o m f = bind_o m' g"
  by (cases m') simp_all

lemma bind_o_split:
  "P (bind_o m f) \<longleftrightarrow> (\<forall>e. m = Inl e \<longrightarrow> P (Inl e)) \<and> (\<forall>x. m = Inr x \<longrightarrow> P (f x))"
  by (cases m) simp_all

lemma assert_o_simps [simp, outcome_rules]:
  "assert_o True = Inr ()"
  "assert_o False = Inl Assertion_Failed"
  "assert_o b = Inr u \<longleftrightarrow> b"
  "assert_o b = Inl e \<longleftrightarrow> \<not> b \<and> e = Assertion_Failed"
  by (auto simp: assert_o_def)

lemma defined_o_simps [simp, outcome_rules]:
  "defined_o None = Inl Undefined_Behaviour"
  "defined_o (Some v) = Inr v"
  "defined_o x = Inr v \<longleftrightarrow> x = Some v"
  by (auto simp: defined_o_def split: option.splits)

text \<open>
  Total and partial correctness of an outcome: \<open>returns m P\<close> says that \<open>m\<close> does not fault and
  its value satisfies \<open>P\<close>; \<open>on_return m P\<close> only speaks of the runs that return.
\<close>

definition returns :: "'a outcome \<Rightarrow> ('a \<Rightarrow> bool) \<Rightarrow> bool" where
  "returns m P = (case m of Inl _ \<Rightarrow> False | Inr x \<Rightarrow> P x)"

definition on_return :: "'a outcome \<Rightarrow> ('a \<Rightarrow> bool) \<Rightarrow> bool" where
  "on_return m P = (case m of Inl _ \<Rightarrow> True | Inr x \<Rightarrow> P x)"

lemma returns_simps [simp]:
  "returns (Inl e) P \<longleftrightarrow> False"
  "returns (Inr x) P \<longleftrightarrow> P x"
  by (simp_all add: returns_def)

lemma on_return_simps [simp]:
  "on_return (Inl e) P"
  "on_return (Inr x) P \<longleftrightarrow> P x"
  by (simp_all add: on_return_def)

lemma returns_bind [simp]: "returns (bind_o m f) P \<longleftrightarrow> returns m (\<lambda>x. returns (f x) P)"
  by (cases m) simp_all

lemma on_return_bind [simp]: "on_return (bind_o m f) P \<longleftrightarrow> on_return m (\<lambda>x. on_return (f x) P)"
  by (cases m) simp_all

lemma returnsE: "returns m P \<Longrightarrow> (\<And>x. m = Inr x \<Longrightarrow> P x \<Longrightarrow> Q) \<Longrightarrow> Q"
  by (cases m) simp_all

lemma on_returnD: "on_return m P \<Longrightarrow> m = Inr x \<Longrightarrow> P x"
  by simp

lemma on_returnI: "(\<And>x. m = Inr x \<Longrightarrow> P x) \<Longrightarrow> on_return m P"
  by (cases m) simp_all

lemma on_return_mono: "on_return m P \<Longrightarrow> (\<And>x. P x \<Longrightarrow> Q x) \<Longrightarrow> on_return m Q"
  by (cases m) simp_all

lemma returns_mono: "returns m P \<Longrightarrow> (\<And>x. P x \<Longrightarrow> Q x) \<Longrightarrow> returns m Q"
  by (cases m) simp_all

section \<open>Memory cells and C strings\<close>

text \<open>
  A cell of a \<open>char\<close> array: \<open>None\<close> is an indeterminate value (\<open>new char[n]\<close> leaves its array
  so).  \<open>c_string\<close> is what \<open>string(const char*)\<close> and \<open>strlen\<close> do with the array: they read up
  to the first NUL, and reading an indeterminate cell or running off the end is undefined.
\<close>

type_synonym cell = "char option"

definition nul :: char where
  "nul = CHR 0x00"

definition newline :: char where
  "newline = CHR 0x0A"

fun c_string :: "cell list \<Rightarrow> string outcome" where
  "c_string [] = Inl Undefined_Behaviour"
| "c_string (None # cs) = Inl Undefined_Behaviour"
| "c_string (Some c # cs) =
     (if c = nul then Inr [] else bind_o (c_string cs) (\<lambda>s. Inr (c # s)))"

text \<open>The array behind \<open>string::c_str()\<close> and behind a string literal.\<close>

definition c_str :: "string \<Rightarrow> cell list" where
  "c_str s = map Some s @ [Some nul]"

text \<open>\<open>new char[n]\<close>: a negative size throws \<open>bad_array_new_length\<close>.\<close>

definition new_chars :: "int \<Rightarrow> cell list outcome" where
  "new_chars n = (if n < 0 then Inl Bad_Array_Length else Inr (replicate (nat n) None))"

text \<open>The first \<open>n\<close> cells of an array, as a library call that is given a length reads them.\<close>

definition read_cells :: "cell list \<Rightarrow> int \<Rightarrow> string outcome" where
  "read_cells cs n =
     (if n < 0 \<or> int (length cs) < n \<or> None \<in> set (take (nat n) cs)
      then Inl Undefined_Behaviour else Inr (map the (take (nat n) cs)))"

lemma c_string_eq_Inr_iff:
  "c_string cs = Inr s \<longleftrightarrow> nul \<notin> set s \<and> (\<exists>rest. cs = map Some s @ Some nul # rest)"
proof (induction cs arbitrary: s rule: c_string.induct)
  case (2 cs)
  then show ?case
    by (cases s) auto
next
  case (3 c cs)
  then show ?case
    by (cases s) (auto simp: outcome_rules)
qed simp

lemma c_string_c_str [simp]: "nul \<notin> set s \<Longrightarrow> c_string (c_str s) = Inr s"
  by (simp add: c_string_eq_Inr_iff c_str_def)

lemma c_string_fault: "c_string cs = Inl e \<Longrightarrow> e = Undefined_Behaviour"
  by (induction cs rule: c_string.induct) (auto simp: outcome_rules split: if_splits)

lemma c_string_indeterminate:
  "nul \<notin> set s \<Longrightarrow> c_string (map Some s @ None # rest) = Inl Undefined_Behaviour"
  by (induction s) auto

lemma c_string_unterminated: "nul \<notin> set s \<Longrightarrow> c_string (map Some s) = Inl Undefined_Behaviour"
  by (induction s) auto

lemma c_string_uninitialised: "c_string (replicate n None) = Inl Undefined_Behaviour"
  by (cases n) simp_all

lemma map_the_map_Some [simp]: "map (the \<circ> Some) xs = xs"
  by (induction xs) simp_all

lemma read_cells_c_str [simp]: "read_cells (c_str s) (int (length s)) = Inr s"
  by (auto simp: read_cells_def c_str_def)

lemma read_cells_map_Some [simp]: "read_cells (map Some s) (int (length s)) = Inr s"
  by (auto simp: read_cells_def)

section \<open>Unordered maps\<close>

text \<open>
  An \<open>unordered_map\<close> is an association list with distinct keys; the code never depends on the
  order of its elements.  \<open>umap_emplace\<close> is \<open>emplace\<close> (the flag says whether the insertion took
  place), \<open>umap_erase\<close> is \<open>erase\<close> by key, \<open>umap_store\<close> assigns through an iterator that
  \<open>find\<close> returned, and \<open>umap_subscript\<close> is \<open>operator[]\<close>, which inserts a
  value-initialised element for a missing key.
\<close>

type_synonym ('k, 'v) umap = "('k \<times> 'v) list"

definition umap_emplace :: "'k \<Rightarrow> 'v \<Rightarrow> ('k, 'v) umap \<Rightarrow> bool \<times> ('k, 'v) umap" where
  "umap_emplace k v m = (if map_of m k = None then (True, (k, v) # m) else (False, m))"

definition umap_erase :: "'k \<Rightarrow> ('k, 'v) umap \<Rightarrow> ('k, 'v) umap" where
  "umap_erase k m = filter (\<lambda>p. fst p \<noteq> k) m"

definition umap_store :: "'k \<Rightarrow> 'v \<Rightarrow> ('k, 'v) umap \<Rightarrow> ('k, 'v) umap" where
  "umap_store k v m = map (\<lambda>p. if fst p = k then (fst p, v) else p) m"

definition umap_subscript :: "'v \<Rightarrow> 'k \<Rightarrow> ('k, 'v) umap \<Rightarrow> 'v \<times> ('k, 'v) umap" where
  "umap_subscript d k m =
     (case map_of m k of Some v \<Rightarrow> (v, m) | None \<Rightarrow> (d, (k, d) # m))"

definition umap_ok :: "('k, 'v) umap \<Rightarrow> bool" where
  "umap_ok m \<longleftrightarrow> distinct (map fst m)"

lemma umap_ok_Nil [simp]: "umap_ok []"
  by (simp add: umap_ok_def)

lemma map_of_umap_erase [simp]: "map_of (umap_erase k m) = (map_of m)(k := None)"
  by (rule ext) (induction m, auto simp: umap_erase_def)

lemma map_of_umap_store_eq:
  "map_of (umap_store k v m) k' =
     (if k' = k then map_option (\<lambda>_. v) (map_of m k) else map_of m k')"
  by (induction m) (auto simp: umap_store_def)

lemma map_of_umap_store [simp]:
  "map_of m k = Some w \<Longrightarrow> map_of (umap_store k v m) = (map_of m)(k \<mapsto> v)"
  by (rule ext) (simp add: map_of_umap_store_eq)

lemma keys_umap_store [simp]: "map fst (umap_store k v m) = map fst m"
  by (induction m) (auto simp: umap_store_def)

lemma umap_ok_erase [simp]: "umap_ok m \<Longrightarrow> umap_ok (umap_erase k m)"
  by (simp add: umap_ok_def umap_erase_def distinct_map_filter)

lemma umap_ok_store [simp]: "umap_ok (umap_store k v m) \<longleftrightarrow> umap_ok m"
  by (simp add: umap_ok_def)

lemma umap_ok_Cons [simp]: "umap_ok ((k, v) # m) \<longleftrightarrow> map_of m k = None \<and> umap_ok m"
  by (auto simp: umap_ok_def map_of_eq_None_iff)

lemma umap_store_other: "k \<notin> fst ` set m \<Longrightarrow> umap_store k v m = m"
  by (induction m) (auto simp: umap_store_def)

lemma umap_store_same: "map_of m k = Some v \<Longrightarrow> umap_ok m \<Longrightarrow> umap_store k v m = m"
proof (induction m)
  case (Cons x m)
  show ?case
  proof (cases "fst x = k")
    case True
    with Cons.prems have "k \<notin> fst ` set m" and "x = (k, v)"
      by (auto simp: umap_ok_def intro: prod_eqI)
    with umap_store_other [of k m v] show ?thesis
      by (simp add: umap_store_def)
  next
    case False
    with Cons.prems have "map_of m k = Some v" and "umap_ok m"
      by (auto simp: umap_ok_def)
    with Cons.IH False show ?thesis
      by (simp add: umap_store_def)
  qed
qed simp

lemma umap_emplace_simps:
  "map_of m k = None \<Longrightarrow> umap_emplace k v m = (True, (k, v) # m)"
  "map_of m k = Some w \<Longrightarrow> umap_emplace k v m = (False, m)"
  by (simp_all add: umap_emplace_def)

lemma umap_empty_iff: "m = [] \<longleftrightarrow> (\<forall>k. map_of m k = None)"
  by (cases m) (auto split: if_splits)

section \<open>Sequences: find_if, erase and element access\<close>

text \<open>
  \<open>find_pos\<close> is \<open>find_if\<close>: the position of the first match, \<open>None\<close> being the end iterator.
  \<open>erase_at\<close> and \<open>element_at\<close> take the iterator; erasing or dereferencing the end iterator is
  undefined.
\<close>

fun find_pos :: "('a \<Rightarrow> bool) \<Rightarrow> 'a list \<Rightarrow> nat option" where
  "find_pos P [] = None"
| "find_pos P (x # xs) = (if P x then Some 0 else map_option Suc (find_pos P xs))"

definition erase_at :: "nat option \<Rightarrow> 'a list \<Rightarrow> 'a list outcome" where
  "erase_at pos xs = (case pos of None \<Rightarrow> Inl Undefined_Behaviour
     | Some i \<Rightarrow> if i < length xs then Inr (take i xs @ drop (Suc i) xs)
                else Inl Undefined_Behaviour)"

definition element_at :: "nat option \<Rightarrow> 'a list \<Rightarrow> 'a outcome" where
  "element_at pos xs = (case pos of None \<Rightarrow> Inl Undefined_Behaviour
     | Some i \<Rightarrow> if i < length xs then Inr (xs ! i) else Inl Undefined_Behaviour)"

definition assign_at :: "nat option \<Rightarrow> 'a \<Rightarrow> 'a list \<Rightarrow> 'a list outcome" where
  "assign_at pos x xs = (case pos of None \<Rightarrow> Inl Undefined_Behaviour
     | Some i \<Rightarrow> if i < length xs then Inr (xs[i := x]) else Inl Undefined_Behaviour)"

definition back_o :: "'a list \<Rightarrow> 'a outcome" where
  "back_o xs = (if xs = [] then Inl Undefined_Behaviour else Inr (last xs))"

text \<open>The loop \<open>while(!c.empty()) c.pop_front()\<close>.\<close>

fun pop_front_all :: "'a list \<Rightarrow> 'a list" where
  "pop_front_all [] = []"
| "pop_front_all (x # xs) = pop_front_all xs"

lemma pop_front_all_eq [simp]: "pop_front_all xs = []"
  by (induction xs) simp_all

lemma find_pos_None_iff: "find_pos P xs = None \<longleftrightarrow> (\<forall>x \<in> set xs. \<not> P x)"
  by (induction xs) auto

lemma find_pos_SomeD:
  "find_pos P xs = Some i \<Longrightarrow> i < length xs \<and> P (xs ! i) \<and> (\<forall>j < i. \<not> P (xs ! j))"
proof (induction xs arbitrary: i)
  case (Cons x xs)
  then show ?case
    by (cases i) (auto simp: less_Suc_eq_0_disj split: if_splits)
qed simp

lemma back_o_simps [simp]:
  "back_o [] = Inl Undefined_Behaviour"
  "xs \<noteq> [] \<Longrightarrow> back_o xs = Inr (last xs)"
  by (simp_all add: back_o_def)

text \<open>
  The queues of the program are sequences of pairs searched by their first component: the first
  match is what \<open>map_of\<close> finds, and \<open>erase\<close>, assignment and insertion at the front act on that
  view as deletion of the first match, update and shadowing.
\<close>

lemma find_pos_key_None: "find_pos (\<lambda>p. fst p = k) q = None \<longleftrightarrow> map_of q k = None"
  by (induction q) auto

lemma find_pos_key:
  "find_pos (\<lambda>p. fst p = k) q = Some i \<Longrightarrow>
   i < length q \<and> q ! i = (k, the (map_of q k)) \<and> map_of q k \<noteq> None"
proof (induction q arbitrary: i)
  case (Cons p q)
  then show ?case
    by (cases p; cases i) (auto split: if_splits)
qed simp

lemma map_of_assign_first:
  "find_pos (\<lambda>p. fst p = k) q = Some i \<Longrightarrow> map_of (q[i := (k, v)]) = (map_of q)(k \<mapsto> v)"
proof (induction q arbitrary: i)
  case (Cons p q)
  then show ?case
    by (cases i) (auto split: if_splits)
qed simp

lemma map_of_erase_first_other:
  "find_pos (\<lambda>p. fst p = k) q = Some i \<Longrightarrow> k' \<noteq> k \<Longrightarrow>
   map_of (take i q @ drop (Suc i) q) k' = map_of q k'"
proof (induction q arbitrary: i)
  case (Cons p q)
  then show ?case
    by (cases i) (auto split: if_splits)
qed simp

text \<open>The first element with a key, written out.\<close>

lemma find_pos_first:
  "k \<notin> fst ` set xs \<Longrightarrow> find_pos (\<lambda>p. fst p = k) (xs @ (k, v) # ys) = Some (length xs)"
  by (induction xs) auto

lemma at_first_key:
  assumes "k \<notin> fst ` set xs"
  shows "element_at (find_pos (\<lambda>p. fst p = k) (xs @ (k, v) # ys)) (xs @ (k, v) # ys) = Inr (k, v)"
    and "erase_at (find_pos (\<lambda>p. fst p = k) (xs @ (k, v) # ys)) (xs @ (k, v) # ys) = Inr (xs @ ys)"
    and "assign_at (find_pos (\<lambda>p. fst p = k) (xs @ (k, v) # ys)) y (xs @ (k, v) # ys) =
      Inr (xs @ y # ys)"
  by (simp_all add: find_pos_first [OF assms] element_at_def erase_at_def assign_at_def)

lemma split_first_key:
  assumes "k \<in> fst ` set q"
  obtains xs v ys where "q = xs @ (k, v) # ys" and "k \<notin> fst ` set xs"
proof -
  have "\<exists>x \<in> set q. fst x = k" using assms by auto
  then obtain xs x ys where q: "q = xs @ x # ys" "fst x = k" "\<forall>y \<in> set xs. fst y \<noteq> k"
    by (rule split_list_first_propE) simp
  show thesis
    by (rule that [of xs "snd x" ys]) (use q in auto)
qed

text \<open>In a list with distinct keys the first element with a key is the only one.\<close>

lemma distinct_key_filter:
  assumes "distinct (map fst (xs @ (k, v) # ys))"
  shows "filter (\<lambda>t. fst t \<noteq> k) (xs @ (k, v) # ys) = xs @ ys"
    and "filter (\<lambda>t. fst t = k) (xs @ (k, v) # ys) = [(k, v)]"
proof -
  have "k \<notin> fst ` set xs" "k \<notin> fst ` set ys" using assms by auto
  then have "\<forall>t \<in> set xs. fst t \<noteq> k" "\<forall>t \<in> set ys. fst t \<noteq> k" by force+
  then show "filter (\<lambda>t. fst t \<noteq> k) (xs @ (k, v) # ys) = xs @ ys"
    and "filter (\<lambda>t. fst t = k) (xs @ (k, v) # ys) = [(k, v)]"
    by (simp_all add: filter_True filter_False)
qed

lemma filter_key_absent:
  "k \<notin> fst ` set q \<Longrightarrow> filter (\<lambda>t. fst t \<noteq> k) q = q"
  "k \<notin> fst ` set q \<Longrightarrow> filter (\<lambda>t. fst t = k) q = []"
  by (force intro: filter_True filter_False)+

lemma element_at_key:
  "map_of q k = Some v \<Longrightarrow> element_at (find_pos (\<lambda>p. fst p = k) q) q = Inr (k, v)"
  using find_pos_key [of k q] find_pos_key_None [of k q]
  by (cases "find_pos (\<lambda>p. fst p = k) q") (auto simp: element_at_def)

lemma erase_at_key:
  assumes "map_of q k = Some v"
  obtains q' where "erase_at (find_pos (\<lambda>p. fst p = k) q) q = Inr q'"
    and "\<And>k'. k' \<noteq> k \<Longrightarrow> map_of q' k' = map_of q k'"
proof -
  from assms obtain i where i: "find_pos (\<lambda>p. fst p = k) q = Some i"
    using find_pos_key_None [of k q] by (cases "find_pos (\<lambda>p. fst p = k) q") auto
  show thesis
    using that [of "take i q @ drop (Suc i) q"] i find_pos_key [OF i]
      map_of_erase_first_other [OF i]
    by (simp add: erase_at_def)
qed

lemma assign_at_key:
  assumes "map_of q k = Some v"
  obtains q' where "assign_at (find_pos (\<lambda>p. fst p = k) q) (k, w) q = Inr q'"
    and "map_of q' = (map_of q)(k \<mapsto> w)"
proof -
  from assms obtain i where i: "find_pos (\<lambda>p. fst p = k) q = Some i"
    using find_pos_key_None [of k q] by (cases "find_pos (\<lambda>p. fst p = k) q") auto
  show thesis
    using that [of "q[i := (k, w)]"] i find_pos_key [OF i] map_of_assign_first [OF i]
    by (simp add: assign_at_def)
qed

section \<open>Text\<close>

text \<open>Decimal output of an \<open>int\<close> (\<open>ostream << int\<close>, \<open>sprintf("%d")\<close>).\<close>

definition digit_char :: "nat \<Rightarrow> char" where
  "digit_char d = char_of (48 + d)"

fun show_nat :: "nat \<Rightarrow> string" where
  "show_nat n = (if n < 10 then [digit_char n] else show_nat (n div 10) @ [digit_char (n mod 10)])"

declare show_nat.simps [simp del]

definition show_int :: "int \<Rightarrow> string" where
  "show_int i = (if i < 0 then CHR ''-'' # show_nat (nat (- i)) else show_nat (nat i))"

text \<open>
  The words an \<open>istream_iterator<string>\<close> delivers: maximal runs of characters other than the
  white space of the \<open>C\<close> locale.
\<close>

definition is_space :: "char \<Rightarrow> bool" where
  "is_space c \<longleftrightarrow> of_char c \<in> {9, 10, 11, 12, 13, 32 :: nat}"

function stream_words :: "string \<Rightarrow> string list" where
  "stream_words s =
     (let t = dropWhile is_space s in
      if t = [] then []
      else takeWhile (\<lambda>c. \<not> is_space c) t # stream_words (dropWhile (\<lambda>c. \<not> is_space c) t))"
  by pat_completeness auto
termination
proof (relation "measure length", simp)
  fix s :: string and t
  assume t: "t = dropWhile is_space s" and ne: "t \<noteq> []"
  have len: "length t \<le> length s"
    using t by (simp add: length_dropWhile_le)
  obtain c t' where ct: "t = c # t'"
    using ne by (cases t) auto
  then have "\<not> is_space c"
    using t hd_dropWhile [of is_space s] by auto
  then have "length (dropWhile (\<lambda>c. \<not> is_space c) t) < length t"
    using ct length_dropWhile_le [of "\<lambda>c. \<not> is_space c" t'] by simp
  with len show "(dropWhile (\<lambda>c. \<not> is_space c) t, s) \<in> measure length"
    by simp
qed

declare stream_words.simps [simp del]

lemma stream_words_nonempty: "w \<in> set (stream_words s) \<Longrightarrow> w \<noteq> []"
proof (induction s rule: stream_words.induct)
  case (1 s)
  let ?t = "dropWhile is_space s"
  show ?case
  proof (cases "?t = []")
    case True
    with "1.prems" show ?thesis by (simp add: stream_words.simps [of s])
  next
    case False
    then have "takeWhile (\<lambda>c. \<not> is_space c) ?t \<noteq> []"
      using hd_dropWhile [of is_space s] by (cases ?t) auto
    moreover from False have "stream_words s =
        takeWhile (\<lambda>c. \<not> is_space c) ?t # stream_words (dropWhile (\<lambda>c. \<not> is_space c) ?t)"
      by (subst stream_words.simps) (simp add: Let_def)
    moreover note "1.prems" "1.IH" [OF refl False]
    ultimately show ?thesis by auto
  qed
qed

lemma stream_words_Nil [simp]: "stream_words [] = []"
  by (simp add: stream_words.simps)

text \<open>A \<open>long int\<close> converted to \<open>int\<close>: the value modulo \<open>2 ^ 32\<close>, read as a signed number.\<close>

definition int_of_long :: "int \<Rightarrow> int" where
  "int_of_long n = sint (word_of_int n :: 32 word)"

lemma int_of_long_small: "0 \<le> n \<Longrightarrow> n < 2 ^ 31 \<Longrightarrow> int_of_long n = n"
  by (simp add: int_of_long_def signed_of_int signed_take_bit_int_eq_self)

end
