(* ===== verification/Nfs_File.thy ===== *)
theory Nfs_File
  imports Nfs_Prelude
begin

text \<open>
  \<open>LIBS/defs_file.h\<close>: the \<open>file_descriptor\<close> object, over the \<open>std::fstream\<close> it wraps.

  The disk is the part of the operating system an \<open>fstream\<close> sees: the regular files by absolute
  name, how a name is resolved in the current working directory, and which names the system
  refuses to open (permissions, directories, missing parents).  A stream holds at most one open
  file and one flag for \<open>failbit\<close>/\<open>badbit\<close>; on a failed stream every operation but \<open>close\<close> does
  nothing.  A stream is buffered: what is written waits in its put area and reaches the file when
  the library passes it on, before a seek, or when the stream is closed.  When the library passes
  it on by itself is its own matter (libstdc++: when the new characters do not fit), so that the
  choice, \<open>dk_spills\<close>, is a parameter.  A file is known by its name: it is taken not to be removed
  and made again while a stream is open on it.
\<close>

section \<open>The disk and std::fstream\<close>

record disk =
  dk_files :: "string \<Rightarrow> string option"
  dk_resolve :: "string \<Rightarrow> string"
  dk_denied :: "string \<Rightarrow> bool"
  dk_spills :: "nat \<Rightarrow> nat \<Rightarrow> bool"

record stream_handle =
  sh_path :: string
  sh_readable :: bool
  sh_writable :: bool
  sh_append :: bool
  sh_pos :: nat
  sh_pending :: string

record fstream =
  str_handle :: "stream_handle option"
  str_failed :: bool

datatype seek_dir = Ios_beg | Ios_end

datatype ios_flag = Ios_in | Ios_out | Ios_app | Ios_trunc | Ios_binary

definition fstream_new :: fstream where
  "fstream_new = \<lparr>str_handle = None, str_failed = False\<rparr>"

text \<open>
  \<open>fstream::open\<close>.  An open stream is not reopened: \<open>filebuf::open\<close> returns null and the
  stream sets \<open>failbit\<close>.  The flags of \<open>defs_file.h\<close> are \<open>out|app\<close>, \<open>out|trunc\<close>, \<open>in\<close> and
  \<open>in|binary\<close>; on a POSIX system \<open>binary\<close> changes nothing.
\<close>

definition fstream_open ::
  "ios_flag list \<Rightarrow> string \<Rightarrow> 'x disk_scheme \<Rightarrow> fstream \<Rightarrow> fstream \<times> 'x disk_scheme" where
  "fstream_open flags name d st =
     (let p = dk_resolve d name;
          failed = (st\<lparr>str_failed := True\<rparr>, d) in
      if str_handle st \<noteq> None \<or> dk_denied d p then failed
      else if Ios_out \<notin> set flags then
        (case dk_files d p of
           None \<Rightarrow> failed
         | Some _ \<Rightarrow> (\<lparr>str_handle = Some \<lparr>sh_path = p, sh_readable = True, sh_writable = False,
                          sh_append = False, sh_pos = 0,
      sh_pending = []\<rparr>, str_failed = False\<rparr>, d))
      else
        (\<lparr>str_handle = Some \<lparr>sh_path = p, sh_readable = Ios_in \<in> set flags, sh_writable = True,
            sh_append = Ios_app \<in> set flags, sh_pos = 0, sh_pending = []\<rparr>, str_failed = False\<rparr>,
         d\<lparr>dk_files := (dk_files d)(p \<mapsto>
             (if Ios_trunc \<in> set flags then []
              else case dk_files d p of None \<Rightarrow> [] | Some c \<Rightarrow> c))\<rparr>))"

definition overwrite :: "nat \<Rightarrow> string \<Rightarrow> string \<Rightarrow> string" where
  "overwrite pos data old =
     take pos (old @ replicate (pos - length old) nul) @ data @ drop (pos + length data) old"

text \<open>The put area goes to the file, at its end or at the position of the stream.\<close>

definition handle_flush ::
  "stream_handle \<Rightarrow> 'x disk_scheme \<Rightarrow> stream_handle \<times> 'x disk_scheme" where
  "handle_flush h d =
     (if sh_pending h = [] then (h, d)
      else case dk_files d (sh_path h) of
        None \<Rightarrow> (h\<lparr>sh_pos := sh_pos h + length (sh_pending h), sh_pending := []\<rparr>, d)
      | Some old \<Rightarrow>
          let pos = (if sh_append h then length old else sh_pos h) in
          (h\<lparr>sh_pos := pos + length (sh_pending h), sh_pending := []\<rparr>,
           d\<lparr>dk_files := (dk_files d)(sh_path h \<mapsto> overwrite pos (sh_pending h) old)\<rparr>))"

text \<open>\<open>ostream::write\<close> of \<open>n\<close> characters from the array \<open>cs\<close>.\<close>

definition fstream_write ::
  "cell list \<Rightarrow> int \<Rightarrow> fstream \<Rightarrow> 'x disk_scheme \<Rightarrow> (fstream \<times> 'x disk_scheme) outcome" where
  "fstream_write cs n st d =
     (if str_failed st then Inr (st, d)
      else if n < 0 then Inl Undefined_Behaviour
      else case str_handle st of
        None \<Rightarrow> Inr (st\<lparr>str_failed := n \<noteq> 0\<rparr>, d)
      | Some h \<Rightarrow>
          if \<not> sh_writable h then Inr (st\<lparr>str_failed := n \<noteq> 0\<rparr>, d)
          else bind_o (read_cells cs n) (\<lambda>data.
            let h1 = h\<lparr>sh_pending := sh_pending h @ data\<rparr>;
                (h2, d2) = (if dk_spills d (length (sh_pending h)) (length data)
                            then handle_flush h1 d else (h1, d))
            in Inr (st\<lparr>str_handle := Some h2\<rparr>, d2)))"

text \<open>\<open>seekg(0, ios::end)\<close>, \<open>seekg(0, ios::beg)\<close> and \<open>tellg()\<close>, which is -1 on a failed stream.\<close>

definition handle_size :: "'x disk_scheme \<Rightarrow> stream_handle \<Rightarrow> nat" where
  "handle_size d h = (case dk_files d (sh_path h) of None \<Rightarrow> 0 | Some c \<Rightarrow> length c)"

definition fstream_seek ::
  "seek_dir \<Rightarrow> fstream \<Rightarrow> 'x disk_scheme \<Rightarrow> fstream \<times> 'x disk_scheme" where
  "fstream_seek dir st d =
     (if str_failed st then (st, d)
      else case str_handle st of
        None \<Rightarrow> (st\<lparr>str_failed := True\<rparr>, d)
      | Some h \<Rightarrow>
          let (h1, d1) = handle_flush h d;
              pos = (case dir of Ios_beg \<Rightarrow> 0 | Ios_end \<Rightarrow> handle_size d1 h1)
          in (st\<lparr>str_handle := Some (h1\<lparr>sh_pos := pos\<rparr>)\<rparr>, d1))"

definition fstream_tell :: "fstream \<Rightarrow> int" where
  "fstream_tell st =
     (if str_failed st then - 1
      else case str_handle st of None \<Rightarrow> - 1 | Some h \<Rightarrow> int (sh_pos h + length (sh_pending h)))"

text \<open>\<open>fstream::close\<close> writes out the put area, also on a failed stream.\<close>

definition fstream_close :: "fstream \<Rightarrow> 'x disk_scheme \<Rightarrow> fstream \<times> 'x disk_scheme" where
  "fstream_close st d =
     (case str_handle st of
        None \<Rightarrow> (st\<lparr>str_failed := True\<rparr>, d)
      | Some h \<Rightarrow> (st\<lparr>str_handle := None\<rparr>, snd (handle_flush h d)))"

text \<open>\<open>istream::read\<close> of \<open>n\<close> characters into the array \<open>buf\<close>: cells past the end of file keep
  their old content, and the stream fails when fewer than \<open>n\<close> characters came.\<close>

definition fstream_read ::
  "cell list \<Rightarrow> int \<Rightarrow> 'x disk_scheme \<Rightarrow> fstream \<Rightarrow> (cell list \<times> fstream) outcome" where
  "fstream_read buf n d st =
     (if str_failed st then Inr (buf, st)
      else if n < 0 \<or> int (length buf) < n then Inl Undefined_Behaviour
      else case str_handle st of
        None \<Rightarrow> Inr (buf, st\<lparr>str_failed := n \<noteq> 0\<rparr>)
      | Some h \<Rightarrow>
          if \<not> sh_readable h then Inr (buf, st\<lparr>str_failed := n \<noteq> 0\<rparr>)
          else let content = (case dk_files d (sh_path h) of None \<Rightarrow> [] | Some c \<Rightarrow> c);
                   data = take (nat n) (drop (sh_pos h) content) in
               Inr (map Some data @ drop (length data) buf,
                    \<lparr>str_handle = Some (h\<lparr>sh_pos := sh_pos h + length data\<rparr>),
                     str_failed = int (length data) < n\<rparr>))"

section \<open>file_descriptor\<close>

datatype file_mode_e = Mode_append | Mode_truncate | Mode_in | Mode_binary

primrec file_mode_index :: "file_mode_e \<Rightarrow> int" where
  "file_mode_index Mode_append = 0"
| "file_mode_index Mode_truncate = 1"
| "file_mode_index Mode_in = 2"
| "file_mode_index Mode_binary = 3"

text \<open>The enumerators of a scoped enumeration compare as their values.\<close>

instantiation file_mode_e :: linorder
begin

definition less_eq_file_mode_e :: "file_mode_e \<Rightarrow> file_mode_e \<Rightarrow> bool" where
  "less_eq_file_mode_e a b \<longleftrightarrow> file_mode_index a \<le> file_mode_index b"

definition less_file_mode_e :: "file_mode_e \<Rightarrow> file_mode_e \<Rightarrow> bool" where
  "less_file_mode_e a b \<longleftrightarrow> file_mode_index a < file_mode_index b"

instance
proof
  fix x y z :: file_mode_e
  show "(x < y) = (x \<le> y \<and> \<not> y \<le> x)" and "x \<le> x" and "x \<le> y \<or> y \<le> x"
    by (auto simp: less_eq_file_mode_e_def less_file_mode_e_def)
  show "x \<le> y \<Longrightarrow> y \<le> z \<Longrightarrow> x \<le> z"
    by (simp add: less_eq_file_mode_e_def)
  show "x \<le> y \<Longrightarrow> y \<le> x \<Longrightarrow> x = y"
    by (cases x; cases y) (simp_all add: less_eq_file_mode_e_def)
qed

end

lemma less_mode_in [simp]:
  "Mode_append < Mode_in" "Mode_truncate < Mode_in" "\<not> Mode_in < Mode_in"
  "\<not> Mode_binary < Mode_in"
  by (simp_all add: less_file_mode_e_def)

record file_descriptor =
  is_write :: bool
  is_string :: bool
  file_name :: string
  file_mode :: file_mode_e
  file_instance :: fstream

primrec mode_flags :: "file_mode_e \<Rightarrow> ios_flag list" where
  "mode_flags Mode_append = [Ios_out, Ios_app]"
| "mode_flags Mode_truncate = [Ios_out, Ios_trunc]"
| "mode_flags Mode_in = [Ios_in]"
| "mode_flags Mode_binary = [Ios_in, Ios_binary]"

definition getFileDescriptor ::
  "file_descriptor \<Rightarrow> 'x disk_scheme \<Rightarrow> file_descriptor \<times> 'x disk_scheme" where
  "getFileDescriptor fd d =
     (let (st, d') = fstream_open (mode_flags (file_mode fd)) (file_name fd) d (file_instance fd)
      in (fd\<lparr>file_instance := st, is_write := file_mode fd < Mode_in,
            is_string := file_mode fd = Mode_in\<rparr>, d'))"

definition file_new ::
  "string \<Rightarrow> file_mode_e \<Rightarrow> 'x disk_scheme \<Rightarrow> (file_descriptor \<times> 'x disk_scheme) outcome" where
  "file_new name mode d =
     bind_o (assert_o (name \<noteq> [])) (\<lambda>_.
       Inr (getFileDescriptor
         \<lparr>is_write = mode < Mode_in, is_string = mode = Mode_in, file_name = name,
          file_mode = mode, file_instance = fstream_new\<rparr> d))"

text \<open>The destructor closes the stream.\<close>

definition file_destroy :: "file_descriptor \<Rightarrow> 'x disk_scheme \<Rightarrow> 'x disk_scheme" where
  "file_destroy fd d = snd (fstream_close (file_instance fd) d)"

definition write_file ::
  "cell list \<Rightarrow> int \<Rightarrow> file_descriptor \<Rightarrow> 'x disk_scheme \<Rightarrow>
   (file_descriptor \<times> 'x disk_scheme) outcome" where
  "write_file custom sz fd d =
     bind_o (fstream_write custom sz (file_instance fd) d) (\<lambda>(st, d').
       Inr (fd\<lparr>file_instance := st\<rparr>, d'))"

definition read_file_binary ::
  "file_descriptor \<Rightarrow> 'x disk_scheme \<Rightarrow>
   (int \<times> cell list \<times> file_descriptor \<times> 'x disk_scheme) outcome" where
  "read_file_binary fd d =
     bind_o (assert_o (\<not> is_write fd)) (\<lambda>_.
       let (st1, d1) = fstream_seek Ios_end (file_instance fd) d;
           sz = fstream_tell st1;
           (st2, d2) = fstream_seek Ios_beg st1 d1 in
       bind_o (new_chars sz) (\<lambda>file_data.
       bind_o (fstream_read file_data (int_of_long sz) d2 st2) (\<lambda>(file_data', st3).
         Inr (sz, file_data', fd\<lparr>file_instance := st3\<rparr>, d2))))"

definition read_file_string ::
  "file_descriptor \<Rightarrow> 'x disk_scheme \<Rightarrow>
   (int \<times> string \<times> file_descriptor \<times> 'x disk_scheme) outcome" where
  "read_file_string fd d =
     bind_o (assert_o (is_write fd)) (\<lambda>_.
       let (st1, d1) = fstream_seek Ios_end (file_instance fd) d;
           sz = fstream_tell st1;
           (st2, d2) = fstream_seek Ios_beg st1 d1 in
       bind_o (new_chars sz) (\<lambda>file_data.
       bind_o (fstream_read file_data (int_of_long sz) d2 st2) (\<lambda>(file_data', st3).
       bind_o (c_string file_data') (\<lambda>s.
         Inr (sz, s, fd\<lparr>file_instance := st3\<rparr>, d2)))))"

definition write_newline ::
  "file_descriptor \<Rightarrow> 'x disk_scheme \<Rightarrow> (file_descriptor \<times> 'x disk_scheme) outcome" where
  "write_newline fd d =
     bind_o (assert_o (is_string fd \<and> is_write fd)) (\<lambda>_. write_file (c_str [newline]) 1 fd d)"

text \<open>
  \<open>operator>>\<close> extracts a word into \<open>char_arr_in\<close>, a pointer no one initialised (\<open>None\<close>).
\<close>

definition file_extract ::
  "string \<Rightarrow> file_descriptor \<Rightarrow> 'x disk_scheme \<Rightarrow>
   (string \<times> file_descriptor \<times> 'x disk_scheme) outcome" where
  "file_extract input fd d =
     (let char_arr_in = None :: cell list option in
      bind_o (defined_o char_arr_in) (\<lambda>arr.
      bind_o (c_string arr) (\<lambda>s.
      bind_o (write_file arr (int (length s)) fd d) (\<lambda>(fd', d'). Inr (input, fd', d')))))"

definition file_print ::
  "string \<Rightarrow> file_descriptor \<Rightarrow> 'x disk_scheme \<Rightarrow>
   (string \<times> file_descriptor \<times> 'x disk_scheme) outcome" where
  "file_print output fd d =
     (let (st1, d1) = fstream_seek Ios_end (file_instance fd) d;
          sz = int_of_long (fstream_tell st1);
          (st2, d2) = fstream_seek Ios_beg st1 d1 in
      bind_o (new_chars sz) (\<lambda>file_data.
      bind_o (fstream_read file_data sz d2 st2) (\<lambda>(file_data', st3).
      bind_o (if is_write fd then c_string file_data' else c_string file_data') (\<lambda>s.
        Inr (output @ s, fd\<lparr>file_instance := st3\<rparr>, d2)))))"

definition modifyMode ::
  "file_mode_e \<Rightarrow> file_descriptor \<Rightarrow> 'x disk_scheme \<Rightarrow> file_descriptor \<times> 'x disk_scheme" where
  "modifyMode mode fd d = getFileDescriptor (fd\<lparr>file_mode := mode\<rparr>) d"

definition repurpose ::
  "string \<Rightarrow> file_descriptor \<Rightarrow> 'x disk_scheme \<Rightarrow> (file_descriptor \<times> 'x disk_scheme) outcome" where
  "repurpose name fd d =
     bind_o (assert_o (file_name fd \<noteq> [])) (\<lambda>_.
       Inr (getFileDescriptor (fd\<lparr>file_name := name\<rparr>) d))"

definition repurpose_mode ::
  "string \<Rightarrow> file_mode_e \<Rightarrow> file_descriptor \<Rightarrow> 'x disk_scheme \<Rightarrow>
   (file_descriptor \<times> 'x disk_scheme) outcome" where
  "repurpose_mode name mode fd d =
     bind_o (assert_o (file_name fd \<noteq> [])) (\<lambda>_.
       Inr (getFileDescriptor (fd\<lparr>file_name := name, file_mode := mode\<rparr>) d))"

section \<open>Invariants of a descriptor\<close>

text \<open>
  The two flags always mirror the mode, and a stream that has not failed is open with the access
  rights its mode asks for; nothing waits to be written on a stream for reading.
\<close>

definition fd_inv :: "file_descriptor \<Rightarrow> bool" where
  "fd_inv fd \<longleftrightarrow>
     is_write fd = (file_mode fd < Mode_in) \<and> is_string fd = (file_mode fd = Mode_in) \<and>
     (\<not> str_failed (file_instance fd) \<longrightarrow>
       (\<exists>h. str_handle (file_instance fd) = Some h \<and> sh_writable h = is_write fd \<and>
            sh_readable h = (\<not> is_write fd) \<and> sh_append h = (file_mode fd = Mode_append) \<and>
            (\<not> is_write fd \<longrightarrow> sh_pending h = [])))"

lemma fd_invE:
  assumes "fd_inv fd" and "\<not> str_failed (file_instance fd)"
  obtains h where "str_handle (file_instance fd) = Some h" and "sh_writable h = is_write fd"
    and "sh_readable h = (\<not> is_write fd)" and "sh_append h = (file_mode fd = Mode_append)"
    and "\<not> is_write fd \<Longrightarrow> sh_pending h = []"
  using assms by (auto simp: fd_inv_def)

lemma fd_inv_flags:
  "fd_inv fd \<Longrightarrow> is_write fd = (file_mode fd < Mode_in)"
  "fd_inv fd \<Longrightarrow> is_string fd = (file_mode fd = Mode_in)"
  by (simp_all add: fd_inv_def)

lemma fstream_open_busy:
  "str_handle st \<noteq> None \<Longrightarrow> fstream_open flags name d st = (st\<lparr>str_failed := True\<rparr>, d)"
  by (simp add: fstream_open_def Let_def)

lemma fstream_open_fresh:
  "str_handle st = None \<Longrightarrow> fstream_open (mode_flags m) name d st = (st', d') \<Longrightarrow>
   \<not> str_failed st' \<Longrightarrow>
   \<exists>h. str_handle st' = Some h \<and> sh_writable h = (m < Mode_in) \<and>
       sh_readable h = (\<not> m < Mode_in) \<and> sh_append h = (m = Mode_append) \<and> sh_pending h = []"
  by (cases m) (auto simp: fstream_open_def Let_def split: if_splits option.splits)

lemma getFileDescriptor_inv: "getFileDescriptor fd d = (fd', d') \<Longrightarrow> fd_inv fd'"
proof -
  assume g: "getFileDescriptor fd d = (fd', d')"
  obtain st dd where o: "fstream_open (mode_flags (file_mode fd)) (file_name fd) d
      (file_instance fd) = (st, dd)"
    by (cases "fstream_open (mode_flags (file_mode fd)) (file_name fd) d (file_instance fd)")
  have fd': "fd' = fd\<lparr>file_instance := st, is_write := file_mode fd < Mode_in,
            is_string := file_mode fd = Mode_in\<rparr>"
    using g o by (simp add: getFileDescriptor_def)
  show "fd_inv fd'"
  proof (cases "str_handle (file_instance fd) = None")
    case True
    from fstream_open_fresh [OF this o] show ?thesis
      by (auto simp: fd' fd_inv_def)
  next
    case False
    with o have "str_failed st"
      by (auto simp: fstream_open_busy)
    then show ?thesis by (simp add: fd' fd_inv_def)
  qed
qed

text \<open>Flushing keeps what the handle may do, and empties the put area.\<close>

lemma handle_flush_fields:
  "handle_flush h d = (h', d') \<Longrightarrow> sh_writable h' = sh_writable h \<and> sh_readable h' = sh_readable h \<and>
     sh_append h' = sh_append h \<and> sh_path h' = sh_path h \<and> sh_pending h' = []"
  by (auto simp: handle_flush_def Let_def split: if_splits option.splits)

lemma handle_flush_empty [simp]: "sh_pending h = [] \<Longrightarrow> handle_flush h d = (h, d)"
  by (simp add: handle_flush_def)

text \<open>The buffered write of a handle.\<close>

definition handle_write ::
  "string \<Rightarrow> stream_handle \<Rightarrow> 'x disk_scheme \<Rightarrow> stream_handle \<times> 'x disk_scheme" where
  "handle_write data h d =
     (let h1 = h\<lparr>sh_pending := sh_pending h @ data\<rparr> in
      if dk_spills d (length (sh_pending h)) (length data) then handle_flush h1 d else (h1, d))"

lemma fstream_write_open:
  assumes "\<not> str_failed st" and "str_handle st = Some h" and "sh_writable h"
    and "read_cells cs n = Inr data"
  shows "fstream_write cs n st d = Inr (st\<lparr>str_handle := Some (fst (handle_write data h d))\<rparr>,
    snd (handle_write data h d))"
proof -
  have "\<not> n < 0"
    using assms(4) by (auto simp: read_cells_def split: if_splits)
  with assms show ?thesis
    by (simp add: fstream_write_def handle_write_def Let_def split: prod.split)
qed

lemma handle_write_fields:
  "handle_write data h d = (h', d') \<Longrightarrow> sh_writable h' = sh_writable h \<and>
     sh_readable h' = sh_readable h \<and> sh_append h' = sh_append h \<and> sh_path h' = sh_path h"
  by (auto simp: handle_write_def Let_def dest: handle_flush_fields split: if_splits)

lemma fstream_write_handle:
  assumes "fstream_write cs n st d = Inr (st', d')" and "\<not> str_failed st'"
  shows "\<not> str_failed st \<and> (\<forall>h. str_handle st = Some h \<longrightarrow> (\<exists>h'. str_handle st' = Some h' \<and>
     sh_writable h' = sh_writable h \<and> sh_readable h' = sh_readable h \<and>
     sh_append h' = sh_append h \<and> (\<not> sh_writable h \<longrightarrow> h' = h)))"
proof -
  have ok: "\<not> str_failed st"
    using assms by (auto simp: fstream_write_def split: if_splits)
  have "\<exists>h'. str_handle st' = Some h' \<and> sh_writable h' = sh_writable h \<and>
      sh_readable h' = sh_readable h \<and> sh_append h' = sh_append h \<and> (\<not> sh_writable h \<longrightarrow> h' = h)"
    if h: "str_handle st = Some h" for h
  proof (cases "sh_writable h")
    case True
    with assms(1) h ok obtain data where "read_cells cs n = Inr data"
      by (auto simp: fstream_write_def outcome_rules split: if_splits)
    from fstream_write_open [OF ok h True this, of d] assms(1)
      handle_write_fields [of data h d, OF prod.collapse [symmetric]] True
    show ?thesis by auto
  next
    case False
    with assms(1) h ok show ?thesis
      by (auto simp: fstream_write_def split: if_splits)
  qed
  with ok show ?thesis by blast
qed

lemma write_file_inv:
  assumes "fd_inv fd" and "write_file cs n fd d = Inr (fd', d')"
  shows "fd_inv fd'"
proof -
  obtain st where st: "fstream_write cs n (file_instance fd) d = Inr (st, d')"
    and fd': "fd' = fd\<lparr>file_instance := st\<rparr>"
    using assms(2) by (auto simp: write_file_def outcome_rules)
  show ?thesis
  proof (cases "str_failed st")
    case True
    with assms(1) fd' show ?thesis by (simp add: fd_inv_def)
  next
    case False
    from fstream_write_handle [OF st False] assms(1) show ?thesis
      by (auto simp: fd' fd_inv_def)
  qed
qed

lemma fstream_seek_failed [simp]: "str_failed st \<Longrightarrow> fstream_seek dir st d = (st, d)"
  by (simp add: fstream_seek_def)

lemma fstream_tell_failed [simp]: "str_failed st \<Longrightarrow> fstream_tell st = - 1"
  by (simp add: fstream_tell_def)

text \<open>Rewinding to learn the size: the two seeks of the reading operations.\<close>

lemma fstream_seek_handle:
  assumes "fstream_seek dir st d = (st', d')" and "\<not> str_failed st'"
  shows "\<not> str_failed st \<and> (\<exists>h h'. str_handle st = Some h \<and> str_handle st' = Some h' \<and>
    sh_writable h' = sh_writable h \<and> sh_readable h' = sh_readable h \<and>
    sh_append h' = sh_append h \<and> sh_path h' = sh_path h \<and> sh_pending h' = [])"
proof (cases "str_handle st")
  case (Some h)
  moreover obtain h1 d1 where f: "handle_flush h d = (h1, d1)"
    by (cases "handle_flush h d")
  ultimately show ?thesis
    using assms handle_flush_fields [OF f]
    by (auto simp: fstream_seek_def Let_def split: if_splits)
qed (use assms in \<open>auto simp: fstream_seek_def split: if_splits\<close>)

lemma fstream_read_handle:
  "fstream_read buf n d st = Inr (buf', st') \<Longrightarrow> \<not> str_failed st' \<Longrightarrow>
   \<not> str_failed st \<and> (\<forall>h. str_handle st = Some h \<longrightarrow> (\<exists>h'. str_handle st' = Some h' \<and>
     sh_writable h' = sh_writable h \<and> sh_readable h' = sh_readable h \<and>
     sh_append h' = sh_append h \<and> sh_pending h' = sh_pending h))"
proof -
  assume read: "fstream_read buf n d st = Inr (buf', st')" and "\<not> str_failed st'"
  then have ok: "\<not> str_failed st" by (simp add: fstream_read_def split: if_splits)
  have "\<exists>p. str_handle st' = Some (h\<lparr>sh_pos := p\<rparr>)" if h: "str_handle st = Some h" for h
  proof (cases "sh_readable h")
    case True
    with read h ok show ?thesis by (auto simp: fstream_read_def Let_def split: if_splits)
  next
    case False
    with read h ok have "str_handle st' = Some (h\<lparr>sh_pos := sh_pos h\<rparr>)"
      by (auto simp: fstream_read_def split: if_splits)
    then show ?thesis ..
  qed
  with ok show ?thesis by fastforce
qed

lemma read_stream_inv:
  assumes "fd_inv fd" and 1: "fstream_seek Ios_end (file_instance fd) d = (st1, d1)"
    and 2: "fstream_seek Ios_beg st1 d1 = (st2, d2)"
    and 3: "fstream_read buf n d2 st2 = Inr (buf', st)"
  shows "fd_inv (fd\<lparr>file_instance := st\<rparr>)"
proof (cases "str_failed st")
  case True
  with assms(1) show ?thesis by (simp add: fd_inv_def)
next
  case False
  have s2: "\<not> str_failed st2" using fstream_read_handle [OF 3 False] by simp
  have s1: "\<not> str_failed st1" using fstream_seek_handle [OF 2 s2] by simp
  obtain h h1 where h: "str_handle (file_instance fd) = Some h" "str_handle st1 = Some h1"
    "sh_writable h1 = sh_writable h" "sh_readable h1 = sh_readable h"
    "sh_append h1 = sh_append h" "sh_pending h1 = []" and s0: "\<not> str_failed (file_instance fd)"
    using fstream_seek_handle [OF 1 s1] by blast
  obtain h2 where h2: "str_handle st2 = Some h2" "sh_writable h2 = sh_writable h1"
    "sh_readable h2 = sh_readable h1" "sh_append h2 = sh_append h1" "sh_pending h2 = []"
    using fstream_seek_handle [OF 2 s2] h(2) by (metis option.inject)
  obtain h3 where "str_handle st = Some h3" "sh_writable h3 = sh_writable h2"
    "sh_readable h3 = sh_readable h2" "sh_append h3 = sh_append h2" "sh_pending h3 = []"
    using fstream_read_handle [OF 3 False] h2(1,5) by metis
  with h h2 s0 False assms(1) show ?thesis
    by (simp add: fd_inv_def)
qed

section \<open>The operations as steps, and the reachable descriptors\<close>

datatype file_op =
    Fop_write "cell list" int
  | Fop_newline
  | Fop_read_binary
  | Fop_read_string
  | Fop_extract string
  | Fop_print string
  | Fop_modify file_mode_e
  | Fop_repurpose string
  | Fop_repurpose_mode string file_mode_e

fun file_step ::
  "file_op \<Rightarrow> file_descriptor \<times> 'x disk_scheme \<Rightarrow> (file_descriptor \<times> 'x disk_scheme) outcome" where
  "file_step (Fop_write cs n) (fd, d) = write_file cs n fd d"
| "file_step Fop_newline (fd, d) = write_newline fd d"
| "file_step Fop_read_binary (fd, d) = bind_o (read_file_binary fd d) (\<lambda>(_, _, fd', d'). Inr (fd', d'))"
| "file_step Fop_read_string (fd, d) = bind_o (read_file_string fd d) (\<lambda>(_, _, fd', d'). Inr (fd', d'))"
| "file_step (Fop_extract inp) (fd, d) =
     bind_o (file_extract inp fd d) (\<lambda>(_, fd', d'). Inr (fd', d'))"
| "file_step (Fop_print out) (fd, d) = bind_o (file_print out fd d) (\<lambda>(_, fd', d'). Inr (fd', d'))"
| "file_step (Fop_modify m) (fd, d) = Inr (modifyMode m fd d)"
| "file_step (Fop_repurpose name) (fd, d) = repurpose name fd d"
| "file_step (Fop_repurpose_mode name m) (fd, d) = repurpose_mode name m fd d"

text \<open>
  A client holds a descriptor it constructed, applies operations to it, and other programs may
  change the disk in between.
\<close>

inductive file_reach :: "file_descriptor \<Rightarrow> 'x disk_scheme \<Rightarrow> bool" where
  construct: "file_new name mode d = Inr (fd, d') \<Longrightarrow> file_reach fd d'"
| operate: "file_reach fd d \<Longrightarrow> file_step op (fd, d) = Inr (fd', d') \<Longrightarrow> file_reach fd' d'"
| others: "file_reach fd d \<Longrightarrow> file_reach fd d'"

lemma file_new_inv: "file_new name mode d = Inr (fd, d') \<Longrightarrow> fd_inv fd"
  by (auto simp: file_new_def outcome_rules intro: getFileDescriptor_inv)

lemma file_new_returns: "name \<noteq> [] \<Longrightarrow> \<exists>fd d'. file_new name mode d = Inr (fd, d')"
  by (simp add: file_new_def)

lemma read_file_binary_inv:
  assumes "read_file_binary fd d = Inr (n, cs, fd', d')" and "fd_inv fd"
  shows "fd_inv fd'"
proof -
  obtain st1 d1 where 1: "fstream_seek Ios_end (file_instance fd) d = (st1, d1)" by force
  obtain st2 d2 where 2: "fstream_seek Ios_beg st1 d1 = (st2, d2)" by force
  from assms(1) obtain buf n buf' st where "fstream_read buf n d2 st2 = Inr (buf', st)"
    and "fd' = fd\<lparr>file_instance := st\<rparr>"
    by (auto simp: read_file_binary_def 1 2 Let_def outcome_rules)
  with read_stream_inv [OF assms(2) 1 2] show ?thesis by simp
qed

lemma read_file_string_inv:
  assumes "read_file_string fd d = Inr (n, s, fd', d')" and "fd_inv fd"
  shows "fd_inv fd'"
proof -
  obtain st1 d1 where 1: "fstream_seek Ios_end (file_instance fd) d = (st1, d1)" by force
  obtain st2 d2 where 2: "fstream_seek Ios_beg st1 d1 = (st2, d2)" by force
  from assms(1) obtain buf n buf' st where "fstream_read buf n d2 st2 = Inr (buf', st)"
    and "fd' = fd\<lparr>file_instance := st\<rparr>"
    by (auto simp: read_file_string_def 1 2 Let_def outcome_rules)
  with read_stream_inv [OF assms(2) 1 2] show ?thesis by simp
qed

lemma file_print_inv:
  assumes "file_print out fd d = Inr (out', fd', d')" and "fd_inv fd"
  shows "fd_inv fd'"
proof -
  obtain st1 d1 where 1: "fstream_seek Ios_end (file_instance fd) d = (st1, d1)" by force
  obtain st2 d2 where 2: "fstream_seek Ios_beg st1 d1 = (st2, d2)" by force
  from assms(1) obtain buf n buf' st where "fstream_read buf n d2 st2 = Inr (buf', st)"
    and "fd' = fd\<lparr>file_instance := st\<rparr>"
    by (auto simp: file_print_def 1 2 Let_def outcome_rules)
  with read_stream_inv [OF assms(2) 1 2] show ?thesis by simp
qed

lemma file_step_inv: "file_step op (fd, d) = Inr (fd', d') \<Longrightarrow> fd_inv fd \<Longrightarrow> fd_inv fd'"
  by (cases op)
    (auto simp: outcome_rules write_newline_def file_extract_def modifyMode_def repurpose_def
      repurpose_mode_def Let_def
      intro: write_file_inv read_file_binary_inv read_file_string_inv file_print_inv
        getFileDescriptor_inv
      dest: getFileDescriptor_inv [OF sym])

lemma file_reach_inv: "file_reach fd d \<Longrightarrow> fd_inv fd"
  by (induction rule: file_reach.induct) (auto intro: file_new_inv file_step_inv)

section \<open>What the operations do\<close>

text \<open>A small machine for the witnesses: names are absolute, nothing is refused, no file yet, and
  a put area of 8191 characters.\<close>

definition blank_disk :: disk where
  "blank_disk = \<lparr>dk_files = Map.empty, dk_resolve = id, dk_denied = (\<lambda>_. False),
     dk_spills = (\<lambda>waiting new. 8191 \<le> waiting + new)\<rparr>"

definition log_disk :: disk where
  "log_disk = blank_disk\<lparr>dk_files := [''log'' \<mapsto> []]\<rparr>"

definition log_fd :: file_descriptor where
  "log_fd = \<lparr>is_write = True, is_string = False, file_name = ''log'', file_mode = Mode_append,
     file_instance = \<lparr>str_handle = Some \<lparr>sh_path = ''log'', sh_readable = False,
       sh_writable = True, sh_append = True, sh_pos = 0, sh_pending = []\<rparr>, str_failed = False\<rparr>\<rparr>"

lemma file_new_log: "file_new ''log'' Mode_append blank_disk = Inr (log_fd, log_disk)"
  by (simp add: file_new_def getFileDescriptor_def fstream_open_def Let_def fstream_new_def
      blank_disk_def log_disk_def log_fd_def)

lemma log_fd_reach: "file_reach log_fd log_disk"
  by (rule file_reach.construct [OF file_new_log])

text \<open>\<open>write_newline\<close> asserts that the descriptor is in string mode and writable;
  no reachable descriptor is both, so the call always ends the program.\<close>

theorem write_newline_never_returns:
  assumes "file_reach fd d"
  shows "write_newline fd d' = Inl Assertion_Failed"
  using fd_inv_flags [OF file_reach_inv [OF assms]]
  by (auto simp: write_newline_def)

theorem write_newline_never_returns_witness:
  "write_newline log_fd log_disk = Inl Assertion_Failed"
  by (rule write_newline_never_returns [OF log_fd_reach])

text \<open>\<open>read_file_string\<close> never returns a string.  It asserts a descriptor opened for
  writing, from which nothing can be read, and then builds a string from the array that no read
  has filled: in a reading mode it fails the assertion, in a writing mode it throws
  (failed stream) or is undefined.\<close>

theorem read_file_string_never_returns:
  assumes "file_reach fd d"
  shows "read_file_string fd d' =
    Inl (if file_mode fd \<in> {Mode_in, Mode_binary} then Assertion_Failed
         else if str_failed (file_instance fd) then Bad_Array_Length else Undefined_Behaviour)"
proof (cases "file_mode fd < Mode_in")
  case False
  then have "file_mode fd \<in> {Mode_in, Mode_binary}"
    by (cases "file_mode fd") simp_all
  with False fd_inv_flags [OF file_reach_inv [OF assms]] show ?thesis
    by (simp add: read_file_string_def)
next
  case w: True
  note inv = file_reach_inv [OF assms]
  from w fd_inv_flags [OF inv] have wr: "is_write fd" by simp
  from w have nr: "file_mode fd \<notin> {Mode_in, Mode_binary}" by auto
  show ?thesis
  proof (cases "str_failed (file_instance fd)")
    case True
    with nr wr show ?thesis
      by (simp add: read_file_string_def new_chars_def)
  next
    case False
    with inv obtain h where h: "str_handle (file_instance fd) = Some h" "\<not> sh_readable h"
      using wr by (auto elim: fd_invE)
    obtain h1 d1 where f: "handle_flush h d' = (h1, d1)" by (cases "handle_flush h d'")
    with False nr wr h handle_flush_fields [OF f] show ?thesis
      by (simp add: read_file_string_def fstream_seek_def fstream_tell_def new_chars_def
          fstream_read_def c_string_uninitialised Let_def)
  qed
qed

theorem read_file_string_never_returns_witness:
  "read_file_string log_fd log_disk = Inl Undefined_Behaviour"
  using read_file_string_never_returns [OF log_fd_reach, of log_disk] by (simp add: log_fd_def)

section \<open>Writing and reading back\<close>

text \<open>
  A descriptor that appends to a file: once the put area is written out, the file holds \<open>c\<close>.
\<close>

definition writes_at_end :: "file_descriptor \<Rightarrow> 'x disk_scheme \<Rightarrow> string \<Rightarrow> string \<Rightarrow> bool" where
  "writes_at_end fd d p c \<longleftrightarrow>
     \<not> str_failed (file_instance fd) \<and>
     (\<exists>h old. str_handle (file_instance fd) = Some h \<and> sh_writable h \<and> sh_path h = p \<and>
          dk_files d p = Some old \<and> (sh_append h \<or> sh_pos h = length old) \<and>
          old @ sh_pending h = c)"

lemma overwrite_end [simp]: "overwrite (length old) data old = old @ data"
  by (simp add: overwrite_def)

lemma handle_flush_at_end:
  assumes "dk_files d (sh_path h) = Some old" and "sh_append h \<or> sh_pos h = length old"
  shows "snd (handle_flush h d) = d\<lparr>dk_files := (dk_files d)(sh_path h \<mapsto> old @ sh_pending h)\<rparr>"
    and "sh_append (fst (handle_flush h d)) \<or>
      sh_pos (fst (handle_flush h d)) = length (old @ sh_pending h)"
proof -
  have "(if sh_append h then length old else sh_pos h) = length old"
    using assms(2) by auto
  moreover have "sh_pending h = [] \<Longrightarrow> (dk_files d)(sh_path h \<mapsto> old) = dk_files d"
    using assms(1) by (simp add: fun_upd_idem)
  ultimately show "snd (handle_flush h d) =
      d\<lparr>dk_files := (dk_files d)(sh_path h \<mapsto> old @ sh_pending h)\<rparr>"
    and "sh_append (fst (handle_flush h d)) \<or>
      sh_pos (fst (handle_flush h d)) = length (old @ sh_pending h)"
    using assms by (auto simp: handle_flush_def Let_def)
qed

text \<open>A write keeps the file a prefix of what it will hold, and adds to the latter.\<close>

lemma write_file_at_end:
  assumes "writes_at_end fd d p c" and "read_cells cs n = Inr s"
  obtains fd' x where "write_file cs n fd d = Inr (fd', d\<lparr>dk_files := (dk_files d)(p \<mapsto> x)\<rparr>)"
    and "writes_at_end fd' (d\<lparr>dk_files := (dk_files d)(p \<mapsto> x)\<rparr>) p (c @ s)"
proof -
  obtain h old where h: "\<not> str_failed (file_instance fd)"
      "str_handle (file_instance fd) = Some h" "sh_writable h" "sh_path h = p"
      "dk_files d p = Some old" "sh_append h \<or> sh_pos h = length old" "old @ sh_pending h = c"
    using assms(1) by (auto simp: writes_at_end_def)
  let ?h = "fst (handle_write s h d)"
  let ?fd = "fd\<lparr>file_instance := (file_instance fd)\<lparr>str_handle := Some ?h\<rparr>\<rparr>"
  have w: "write_file cs n fd d = Inr (?fd, snd (handle_write s h d))"
    using fstream_write_open [OF h(1,2,3) assms(2), of d] by (simp add: write_file_def)
  have keep: "sh_writable ?h" "sh_path ?h = p"
    using handle_write_fields [of s h d, OF prod.collapse [symmetric]] h(3,4) by simp_all
  let ?h1 = "h\<lparr>sh_pending := sh_pending h @ s\<rparr>"
  show thesis
  proof (cases "dk_spills d (length (sh_pending h)) (length s)")
    case True
    then have hw: "handle_write s h d = handle_flush ?h1 d"
      by (simp add: handle_write_def Let_def)
    have "sh_pending ?h = []"
      unfolding hw using handle_flush_fields [of ?h1 d, OF prod.collapse [symmetric]] by simp
    moreover have "snd (handle_write s h d) = d\<lparr>dk_files := (dk_files d)(p \<mapsto> c @ s)\<rparr>"
      and "sh_append ?h \<or> sh_pos ?h = length (c @ s)"
      unfolding hw using handle_flush_at_end [of d ?h1 old] h by auto
    ultimately show thesis
      using that [of ?fd "c @ s"] w keep h(1) by (simp add: writes_at_end_def)
  next
    case False
    then have hw: "handle_write s h d = (?h1, d)"
      by (simp add: handle_write_def Let_def)
    have "d\<lparr>dk_files := (dk_files d)(p \<mapsto> old)\<rparr> = d"
      using h(5) by (simp add: fun_upd_idem)
    with that [of ?fd old] w keep h hw show thesis
      by (simp add: writes_at_end_def)
  qed
qed

lemma file_destroy_at_end:
  assumes "writes_at_end fd d p c"
  shows "file_destroy fd d = d\<lparr>dk_files := (dk_files d)(p \<mapsto> c)\<rparr>"
proof -
  obtain h old where "str_handle (file_instance fd) = Some h" "sh_path h = p"
      "dk_files d p = Some old" "sh_append h \<or> sh_pos h = length old" "old @ sh_pending h = c"
    using assms by (auto simp: writes_at_end_def)
  with handle_flush_at_end(1) [of d h old] show ?thesis
    by (simp add: file_destroy_def fstream_close_def)
qed

lemma writes_at_end_prefix: "writes_at_end fd d p c \<Longrightarrow> \<exists>x y. dk_files d p = Some x \<and> x @ y = c"
  by (auto simp: writes_at_end_def)

fun write_all ::
  "string list \<Rightarrow> file_descriptor \<Rightarrow> 'x disk_scheme \<Rightarrow>
   (file_descriptor \<times> 'x disk_scheme) outcome" where
  "write_all [] fd d = Inr (fd, d)"
| "write_all (s # ss) fd d =
     bind_o (write_file (c_str s) (int (length s)) fd d) (\<lambda>(fd', d'). write_all ss fd' d')"

lemma write_all_at_end:
  "writes_at_end fd d p c \<Longrightarrow>
   \<exists>fd' x. write_all ss fd d = Inr (fd', d\<lparr>dk_files := (dk_files d)(p \<mapsto> x)\<rparr>) \<and>
     writes_at_end fd' (d\<lparr>dk_files := (dk_files d)(p \<mapsto> x)\<rparr>) p (c @ concat ss)"
proof (induction ss arbitrary: fd d c)
  case Nil
  then obtain x where "dk_files d p = Some x"
    by (auto simp: writes_at_end_def)
  then have "d\<lparr>dk_files := (dk_files d)(p \<mapsto> x)\<rparr> = d"
    by (simp add: fun_upd_idem)
  with Nil show ?case
    by (metis append_Nil2 concat.simps(1) write_all.simps(1))
next
  case (Cons s ss)
  obtain fd1 x where
    w: "write_file (c_str s) (int (length s)) fd d =
      Inr (fd1, d\<lparr>dk_files := (dk_files d)(p \<mapsto> x)\<rparr>)"
    and e: "writes_at_end fd1 (d\<lparr>dk_files := (dk_files d)(p \<mapsto> x)\<rparr>) p (c @ s)"
    by (rule write_file_at_end [OF Cons.prems read_cells_c_str])
  from Cons.IH [OF e] w show ?case
    by (simp del: fun_upd_apply)
qed

lemma file_new_write:
  assumes "name \<noteq> []" and "\<not> dk_denied d (dk_resolve d name)" and "mode < Mode_in"
  defines "p \<equiv> dk_resolve d name"
    and "c \<equiv> (if mode = Mode_truncate then []
             else case dk_files d (dk_resolve d name) of None \<Rightarrow> [] | Some old \<Rightarrow> old)"
  obtains fd where "file_new name mode d = Inr (fd, d\<lparr>dk_files := (dk_files d)(p \<mapsto> c)\<rparr>)"
    and "writes_at_end fd (d\<lparr>dk_files := (dk_files d)(p \<mapsto> c)\<rparr>) p c"
    and "file_mode fd = mode" and "file_name fd = name"
proof -
  let ?fd = "\<lparr>is_write = True, is_string = False, file_name = name, file_mode = mode,
    file_instance = \<lparr>str_handle = Some \<lparr>sh_path = p, sh_readable = False, sh_writable = True,
      sh_append = mode = Mode_append, sh_pos = 0, sh_pending = []\<rparr>, str_failed = False\<rparr>\<rparr>"
  have "file_new name mode d = Inr (?fd, d\<lparr>dk_files := (dk_files d)(p \<mapsto> c)\<rparr>)"
    using assms by (cases mode) (simp_all add: file_new_def getFileDescriptor_def
        fstream_open_def Let_def fstream_new_def)
  moreover have "writes_at_end ?fd (d\<lparr>dk_files := (dk_files d)(p \<mapsto> c)\<rparr>) p c"
    using assms(3) by (cases mode) (simp_all add: writes_at_end_def c_def)
  ultimately show thesis using that by simp
qed

lemma file_new_binary:
  assumes "name \<noteq> []" and "\<not> dk_denied d (dk_resolve d name)"
    and "dk_files d (dk_resolve d name) = Some c"
  shows "\<exists>fd. file_new name Mode_binary d = Inr (fd, d) \<and> \<not> is_write fd \<and>
    file_instance fd = \<lparr>str_handle = Some \<lparr>sh_path = dk_resolve d name, sh_readable = True,
      sh_writable = False, sh_append = False, sh_pos = 0,
      sh_pending = []\<rparr>, str_failed = False\<rparr>"
  using assms by (simp add: file_new_def getFileDescriptor_def fstream_open_def Let_def
      fstream_new_def)

lemma reading_seeks:
  assumes "\<not> str_failed st" and "str_handle st = Some h" and "sh_pending h = []"
    and "dk_files d (sh_path h) = Some c"
  shows "fstream_seek Ios_end st d = (st\<lparr>str_handle := Some (h\<lparr>sh_pos := length c\<rparr>)\<rparr>, d)"
    and "fstream_seek Ios_beg st d = (st\<lparr>str_handle := Some (h\<lparr>sh_pos := 0\<rparr>)\<rparr>, d)"
  using assms by (simp_all add: fstream_seek_def handle_size_def)

lemma read_file_binary_content:
  assumes "\<not> is_write fd" and "\<not> str_failed (file_instance fd)"
    and "str_handle (file_instance fd) = Some h" and "sh_readable h" and "sh_pending h = []"
    and "dk_files d (sh_path h) = Some c" and "int (length c) < 2 ^ 31"
  shows "\<exists>fd'. read_file_binary fd d = Inr (int (length c), map Some c, fd', d) \<and>
    file_destroy fd' d = d"
  using assms by (simp add: read_file_binary_def reading_seeks fstream_tell_def new_chars_def
      int_of_long_small fstream_read_def file_destroy_def fstream_close_def)

lemma read_file_binary_failed:
  assumes "\<not> is_write fd" and "str_failed (file_instance fd)"
  shows "read_file_binary fd d = Inl Bad_Array_Length"
  using assms by (simp add: read_file_binary_def new_chars_def)

text \<open>Claim C5.  What is written through a truncating descriptor is on the disk when the descriptor
  has been destroyed, and is read back exactly: after any sequence of writes the file holds some
  beginning of the text (the rest waits in the put area, however the library empties it);
  destroying the descriptor makes it the whole text, whatever the file held before, and changes no
  other file; a binary descriptor opened then reads exactly that text (files of \<open>2 ^ 31\<close> bytes and
  more are excluded by the code's \<open>(int)\<close> cast).\<close>

theorem truncate_write_read_roundtrip:
  assumes "name \<noteq> []" and "\<not> dk_denied d (dk_resolve d name)"
    and "int (length (concat ss)) < 2 ^ 31"
  shows "\<exists>fd1 d1 fd2 d2 x y fd3 fd4.
    file_new name Mode_truncate d = Inr (fd1, d1) \<and>
    write_all ss fd1 d1 = Inr (fd2, d2) \<and>
    dk_files d2 = (dk_files d)(dk_resolve d name \<mapsto> x) \<and> x @ y = concat ss \<and>
    dk_files (file_destroy fd2 d2) = (dk_files d)(dk_resolve d name \<mapsto> concat ss) \<and>
    file_new name Mode_binary (file_destroy fd2 d2) = Inr (fd3, file_destroy fd2 d2) \<and>
    read_file_binary fd3 (file_destroy fd2 d2) =
      Inr (int (length (concat ss)), map Some (concat ss), fd4, file_destroy fd2 d2)"
proof -
  let ?p = "dk_resolve d name"
  let ?d = "\<lambda>x. d\<lparr>dk_files := (dk_files d)(?p \<mapsto> x)\<rparr>"
  obtain fd1 where n1: "file_new name Mode_truncate d = Inr (fd1, ?d [])"
    and e1: "writes_at_end fd1 (?d []) ?p []"
    by (rule file_new_write [OF assms(1,2), of Mode_truncate]) simp_all
  obtain fd2 x where w: "write_all ss fd1 (?d []) = Inr (fd2, ?d x)"
    and e2: "writes_at_end fd2 (?d x) ?p (concat ss)"
    using write_all_at_end [OF e1, of ss] by auto
  obtain y where y: "x @ y = concat ss"
    using writes_at_end_prefix [OF e2] by auto
  have d: "file_destroy fd2 (?d x) = ?d (concat ss)"
    using file_destroy_at_end [OF e2] by simp
  obtain fd3 where n3: "file_new name Mode_binary (?d (concat ss)) = Inr (fd3, ?d (concat ss))" and
    f3: "\<not> is_write fd3" "file_instance fd3 = \<lparr>str_handle = Some \<lparr>sh_path = ?p,
      sh_readable = True, sh_writable = False, sh_append = False, sh_pos = 0, sh_pending = []\<rparr>,
      str_failed = False\<rparr>"
    using file_new_binary [of name "?d (concat ss)" "concat ss"] assms(1,2) by auto
  obtain fd4 where "read_file_binary fd3 (?d (concat ss)) =
      Inr (int (length (concat ss)), map Some (concat ss), fd4, ?d (concat ss))"
    using read_file_binary_content [of fd3 _ "?d (concat ss)" "concat ss"] f3 assms(3) by auto
  with n1 w y n3 d show ?thesis
    by (intro exI [of _ fd1] exI [of _ "?d []"] exI [of _ fd2] exI [of _ "?d x"] exI [of _ x]
        exI [of _ y] exI [of _ fd3] exI [of _ fd4]) (simp del: fun_upd_apply)
qed

theorem truncate_write_read_roundtrip_witness:
  "\<exists>fd1 d1 fd2 d2 fd3 fd4.
    file_new ''log'' Mode_truncate log_disk = Inr (fd1, d1) \<and>
    write_all [''ab'', ''c''] fd1 d1 = Inr (fd2, d2) \<and>
    file_new ''log'' Mode_binary (file_destroy fd2 d2) = Inr (fd3, file_destroy fd2 d2) \<and>
    read_file_binary fd3 (file_destroy fd2 d2) =
      Inr (3, map Some ''abc'', fd4, file_destroy fd2 d2)"
  using truncate_write_read_roundtrip [of "''log''" log_disk "[''ab'', ''c'']"]
  by (simp add: log_disk_def blank_disk_def) blast

text \<open>An appending descriptor only ever extends its file: when it is destroyed after any sequence of
  writes, the file holds its old content (nothing, if it did not exist) followed by what was
  written, and no other file has changed.\<close>

theorem append_extends:
  assumes "name \<noteq> []" and "\<not> dk_denied d (dk_resolve d name)"
  shows "\<exists>fd1 d1 fd2 d2. file_new name Mode_append d = Inr (fd1, d1) \<and>
    write_all ss fd1 d1 = Inr (fd2, d2) \<and>
    dk_files (file_destroy fd2 d2) = (dk_files d)(dk_resolve d name \<mapsto>
      (case dk_files d (dk_resolve d name) of None \<Rightarrow> [] | Some old \<Rightarrow> old) @ concat ss)"
proof -
  let ?p = "dk_resolve d name"
  let ?c = "case dk_files d ?p of None \<Rightarrow> [] | Some old \<Rightarrow> old"
  obtain fd1 where n1: "file_new name Mode_append d =
      Inr (fd1, d\<lparr>dk_files := (dk_files d)(?p \<mapsto> ?c)\<rparr>)"
    and e1: "writes_at_end fd1 (d\<lparr>dk_files := (dk_files d)(?p \<mapsto> ?c)\<rparr>) ?p ?c"
    by (rule file_new_write [OF assms(1,2), of Mode_append]) simp_all
  obtain fd2 x where "write_all ss fd1 (d\<lparr>dk_files := (dk_files d)(?p \<mapsto> ?c)\<rparr>) =
      Inr (fd2, d\<lparr>dk_files := (dk_files d)(?p \<mapsto> x)\<rparr>)"
    and e2: "writes_at_end fd2 (d\<lparr>dk_files := (dk_files d)(?p \<mapsto> x)\<rparr>) ?p (?c @ concat ss)"
    using write_all_at_end [OF e1, of ss] by (auto simp del: fun_upd_apply)
  with n1 file_destroy_at_end [OF e2] show ?thesis
    by (auto simp del: fun_upd_apply)
qed

theorem append_extends_witness:
  "\<exists>fd1 d1 fd2 d2.
    file_new ''log'' Mode_append (log_disk\<lparr>dk_files := [''log'' \<mapsto> ''x'']\<rparr>) = Inr (fd1, d1) \<and>
    write_all [''y'', ''z''] fd1 d1 = Inr (fd2, d2) \<and>
    dk_files (file_destroy fd2 d2) ''log'' = Some ''xyz''"
  using append_extends [of "''log''" "log_disk\<lparr>dk_files := [''log'' \<mapsto> ''x'']\<rparr>" "[''y'', ''z'']"]
  by (force simp: log_disk_def blank_disk_def)

text \<open>Until then a short text is not in the file: another descriptor reads nothing.\<close>

lemma short_write_unseen:
  "\<exists>fd1 d1 fd2 fd3 fd4. file_new ''log'' Mode_truncate log_disk = Inr (fd1, d1) \<and>
    write_all [''ab'', ''c''] fd1 d1 = Inr (fd2, d1) \<and>
    file_new ''log'' Mode_binary d1 = Inr (fd3, d1) \<and> read_file_binary fd3 d1 = Inr (0, [], fd4, d1)"
  using read_cells_c_str [of "''ab''"] read_cells_c_str [of "''c''"]
  by (simp add: file_new_def getFileDescriptor_def fstream_open_def Let_def fstream_new_def
      log_disk_def blank_disk_def write_file_def fstream_write_def
      read_file_binary_def fstream_seek_def handle_size_def fstream_tell_def new_chars_def
      fstream_read_def int_of_long_def)

section \<open>Reopening a descriptor\<close>


lemma write_file_failed [simp]:
  "str_failed (file_instance fd) \<Longrightarrow> write_file cs n fd d = Inr (fd, d)"
  by (simp add: write_file_def fstream_write_def)








section \<open>Reading descriptors\<close>

text \<open>A descriptor opened for reading (mode \<open>in\<close> or \<open>binary\<close>) never changes a file:
  a write of any non-negative length returns and leaves the disk untouched.\<close>

theorem reading_descriptor_never_writes:
  assumes "file_reach fd d0" and "\<not> file_mode fd < Mode_in" and "0 \<le> n"
  shows "\<exists>fd'. write_file cs n fd d = Inr (fd', d)"
proof (cases "str_failed (file_instance fd)")
  case True
  then show ?thesis by simp
next
  case False
  note inv = file_reach_inv [OF assms(1)]
  from inv False obtain h where "str_handle (file_instance fd) = Some h" "\<not> sh_writable h"
    using assms(2) fd_inv_flags [OF inv] by (auto elim: fd_invE)
  with False assms(3) show ?thesis
    by (simp add: write_file_def fstream_write_def)
qed

lemma read_witness_reach:
  "file_reach (fst (getFileDescriptor \<lparr>is_write = False, is_string = False,
      file_name = ''log'', file_mode = Mode_binary, file_instance = fstream_new\<rparr> log_disk))
    (snd (getFileDescriptor \<lparr>is_write = False, is_string = False,
      file_name = ''log'', file_mode = Mode_binary, file_instance = fstream_new\<rparr> log_disk))"
  by (rule file_reach.construct [of "''log''" Mode_binary log_disk]) (simp add: file_new_def)

theorem reading_descriptor_never_writes_witness:
  "\<exists>fd'. write_file (c_str ''abc'') 3 (fst (getFileDescriptor \<lparr>is_write = False,
      is_string = False, file_name = ''log'', file_mode = Mode_binary,
      file_instance = fstream_new\<rparr> log_disk)) log_disk = Inr (fd', log_disk)"
  by (rule reading_descriptor_never_writes [OF read_witness_reach])
     (simp_all add: getFileDescriptor_def log_disk_def fstream_open_def Let_def split: prod.split)

text \<open>\<open>operator<<\<close> on a reading descriptor treats the file as a C string: it prints
  the bytes before the first NUL, and a file without a NUL byte makes it read past the array it
  allocated, which is undefined.\<close>

theorem file_print_is_c_string:
  assumes "\<not> str_failed (file_instance fd)" and "str_handle (file_instance fd) = Some h"
    and "sh_readable h" and "sh_pending h = []" and "dk_files d (sh_path h) = Some content"
    and "int (length content) < 2 ^ 31"
  shows "if nul \<in> set content
    then \<exists>fd'. file_print out fd d = Inr (out @ takeWhile (\<lambda>c. c \<noteq> nul) content, fd', d)
    else file_print out fd d = Inl Undefined_Behaviour"
proof -
  have p: "file_print out fd d = bind_o (c_string (map Some content)) (\<lambda>s.
      Inr (out @ s, fd\<lparr>file_instance := \<lparr>str_handle = Some (h\<lparr>sh_pos := length content\<rparr>),
        str_failed = False\<rparr>\<rparr>, d))"
    using assms by (simp add: file_print_def reading_seeks
      fstream_tell_def new_chars_def int_of_long_small fstream_read_def)
  show ?thesis
  proof (cases "nul \<in> set content")
    case True
    then obtain a b where ab: "content = a @ nul # b" "nul \<notin> set a"
      by (meson split_list_first)
    then have "c_string (map Some content) = Inr a"
      by (auto simp: c_string_eq_Inr_iff)
    moreover have "takeWhile (\<lambda>c. c \<noteq> nul) content = a"
      using ab by (auto simp: takeWhile_tail takeWhile_eq_all_conv)
    ultimately show ?thesis using p True by simp
  next
    case False
    with p c_string_unterminated [of content] show ?thesis by simp
  qed
qed

theorem file_print_is_c_string_witness:
  "\<exists>fd'. file_print ''>'' (log_fd\<lparr>file_instance := \<lparr>str_handle = Some \<lparr>sh_path = ''log'',
      sh_readable = True, sh_writable = False, sh_append = False, sh_pos = 0,
      sh_pending = []\<rparr>,
      str_failed = False\<rparr>\<rparr>) (log_disk\<lparr>dk_files := [''log'' \<mapsto> [CHR ''a'', nul, CHR ''b'']]\<rparr>)
    = Inr (''>a'', fd', log_disk\<lparr>dk_files := [''log'' \<mapsto> [CHR ''a'', nul, CHR ''b'']]\<rparr>)"
  using file_print_is_c_string [of "log_fd\<lparr>file_instance := \<lparr>str_handle = Some
      \<lparr>sh_path = ''log'', sh_readable = True, sh_writable = False, sh_append = False, sh_pos = 0,
      sh_pending = []\<rparr>,
      str_failed = False\<rparr>\<rparr>" _ "log_disk\<lparr>dk_files := [''log'' \<mapsto> [CHR ''a'', nul, CHR ''b'']]\<rparr>"
      "[CHR ''a'', nul, CHR ''b'']" "''>''"]
  by (simp add: nul_def)

end
