(* ===== verification/Nfs_Time.thy ===== *)
theory Nfs_Time
  imports Nfs_Prelude
begin

text \<open>
  \<open>LIBS/defs_time.h\<close>: the two clock objects.  The text that \<open>ctime\<close> makes of the current
  \<open>system_clock\<close> reading depends on the machine (the clock and its time zone); it is the
  argument \<open>now\<close> of every operation that reads the clock.
\<close>

type_synonym clock_text = string

section \<open>time_setter_getter\<close>

record time_setter_getter =
  time_last_recorded :: string

definition tsg_getTime :: "time_setter_getter \<Rightarrow> string" where
  "tsg_getTime t = time_last_recorded t"

text \<open>
  The constructor calls \<open>getTime\<close>, not \<open>setTime\<close>: it assigns the (still empty) member to itself.
\<close>

definition tsg_new :: time_setter_getter where
  "tsg_new = (let t = \<lparr>time_last_recorded = []\<rparr> in t\<lparr>time_last_recorded := tsg_getTime t\<rparr>)"

definition tsg_setTime :: "clock_text \<Rightarrow> time_setter_getter \<Rightarrow> time_setter_getter" where
  "tsg_setTime now t = t\<lparr>time_last_recorded := now\<rparr>"

section \<open>time_now\<close>

definition time_now_getTime :: "clock_text \<Rightarrow> string" where
  "time_now_getTime now = now"

lemma tsg_getTime_new [simp]: "tsg_getTime tsg_new = []"
  by (simp add: tsg_getTime_def tsg_new_def)

lemma tsg_getTime_setTime [simp]: "tsg_getTime (tsg_setTime now t) = now"
  by (simp add: tsg_getTime_def tsg_setTime_def)

lemma tsg_setTime_setTime [simp]: "tsg_setTime now' (tsg_setTime now t) = tsg_setTime now' t"
  by (simp add: tsg_setTime_def)

end
