(* ===== verification/Nfs_Debug.thy ===== *)
theory Nfs_Debug
  imports Nfs_File Nfs_Time
begin

text \<open>
  \<open>LIBS/defs_debug.h\<close>: \<open>debug_status\<close>, the base class of every component that reports errors,
  and \<open>debug_logger\<close>.  A class that derives from \<open>debug_status\<close> is a record that extends
  \<open>debug_status\<close>, so the operations here apply to every derived object.  An \<open>int\<close> member
  without an initialiser is \<open>None\<close> until it is assigned.
\<close>

section \<open>debug_status\<close>

record debug_status =
  debug_class_code_to_status :: "string list"
  debug_class_max_error :: int
  debug_class_return_code :: "int option"
  debug_class_status :: string
  debug_class_custom_message :: string

definition debug_standard_code_to_status :: "string list" where
  "debug_standard_code_to_status = [''OK'', ''Allocation failed'']"

definition debug_standard_min_error :: int where
  "debug_standard_min_error = 0"

definition debug_standard_max_error :: int where
  "debug_standard_max_error = 1"

definition debug_class_min_error :: int where
  "debug_class_min_error = 2500"

definition getMinClassError :: int where
  "getMinClassError = 2500"

definition debug_status_new :: "string list \<Rightarrow> int \<Rightarrow> debug_status" where
  "debug_status_new texts max_error =
     \<lparr>debug_class_code_to_status = texts, debug_class_max_error = max_error,
      debug_class_return_code = None, debug_class_status = [], debug_class_custom_message = []\<rparr>"

definition getReturnCode :: "'z debug_status_scheme \<Rightarrow> int outcome" where
  "getReturnCode s = defined_o (debug_class_return_code s)"

definition getReturnStatus :: "'z debug_status_scheme \<Rightarrow> string" where
  "getReturnStatus s = debug_class_status s"

text \<open>An array subscript outside the array is undefined.\<close>

definition status_text :: "string list \<Rightarrow> int \<Rightarrow> string outcome" where
  "status_text texts i =
     (if 0 \<le> i \<and> i < int (length texts) then Inr (texts ! nat i) else Inl Undefined_Behaviour)"

definition setReturnCode :: "int \<Rightarrow> 'z debug_status_scheme \<Rightarrow> 'z debug_status_scheme outcome" where
  "setReturnCode code s =
     bind_o (assert_o ((debug_standard_min_error \<le> code \<and> code \<le> debug_standard_max_error) \<or>
                       (debug_class_min_error \<le> code \<and> code \<le> debug_class_max_error s))) (\<lambda>_.
       let s1 = s\<lparr>debug_class_return_code := Some code\<rparr> in
       bind_o (if debug_standard_max_error < code
               then status_text (debug_class_code_to_status s1) (code - debug_class_min_error)
               else status_text debug_standard_code_to_status code) (\<lambda>t.
         Inr (s1\<lparr>debug_class_status := t\<rparr>)))"

definition setCustomMessage :: "string \<Rightarrow> 'z debug_status_scheme \<Rightarrow> 'z debug_status_scheme" where
  "setCustomMessage msg s = s\<lparr>debug_class_custom_message := msg\<rparr>"

text \<open>
  \<open>operator<<\<close>.  \<open>debug_class_identifier\<close> and \<open>debug_class_custom_message_ignore\<close> are constant
  members without an initialiser, so they are empty strings.
\<close>

definition debug_class_identifier :: string where
  "debug_class_identifier = []"

definition debug_class_custom_message_ignore :: string where
  "debug_class_custom_message_ignore = []"

definition debug_status_print :: "string \<Rightarrow> 'z debug_status_scheme \<Rightarrow> string outcome" where
  "debug_status_print output s =
     bind_o (defined_o (debug_class_return_code s)) (\<lambda>code.
       let out1 = output @ debug_class_identifier @ ''['' @ show_int code @ '']::'' @
             [CHR 0x22] @ debug_class_status s @ [CHR 0x22] in
       Inr (if debug_class_custom_message s \<noteq> debug_class_custom_message_ignore
            then out1 @ ''::'' @ debug_class_custom_message s else out1))"

lemmas debug_bounds =
  debug_standard_min_error_def debug_standard_max_error_def debug_class_min_error_def
  getMinClassError_def

lemma setReturnCode_standard:
  "0 \<le> c \<Longrightarrow> c \<le> 1 \<Longrightarrow>
   setReturnCode c s = Inr (s\<lparr>debug_class_return_code := Some c,
     debug_class_status := debug_standard_code_to_status ! nat c\<rparr>)"
  by (simp add: setReturnCode_def debug_bounds status_text_def debug_standard_code_to_status_def)

lemma setReturnCode_refused:
  assumes "\<not> ((0 \<le> c \<and> c \<le> 1) \<or> (2500 \<le> c \<and> c \<le> debug_class_max_error s))"
  shows "setReturnCode c s = Inl Assertion_Failed"
  unfolding setReturnCode_def debug_bounds using assms by (simp only: assert_o_simps bind_o_simps if_False
      simp_thms)

lemma setReturnCode_gap: "2 \<le> c \<Longrightarrow> c < 2500 \<Longrightarrow> setReturnCode c s = Inl Assertion_Failed"
  by (simp add: setReturnCode_def debug_bounds)

lemma setReturnCode_class:
  "2500 \<le> c \<Longrightarrow> c \<le> debug_class_max_error s \<Longrightarrow>
   c - 2500 < int (length (debug_class_code_to_status s)) \<Longrightarrow>
   setReturnCode c s = Inr (s\<lparr>debug_class_return_code := Some c,
     debug_class_status := debug_class_code_to_status s ! nat (c - 2500)\<rparr>)"
  by (simp add: setReturnCode_def debug_bounds status_text_def)

text \<open>A status object whose declared maximum fits its message table reports safely:
  for every \<open>int\<close>, \<open>setReturnCode\<close> either fails its assertion, exactly when the code is neither
  a standard code (0, 1) nor a code between 2500 and the maximum, or it stores the code together
  with the text the two tables give for it, with no read outside a table.\<close>

theorem setReturnCode_total:
  assumes "debug_class_max_error s < 2500 + int (length (debug_class_code_to_status s))"
  shows "setReturnCode c s =
    (if c \<in> {0, 1} then Inr (s\<lparr>debug_class_return_code := Some c,
        debug_class_status := [''OK'', ''Allocation failed''] ! nat c\<rparr>)
     else if 2500 \<le> c \<and> c \<le> debug_class_max_error s then
       Inr (s\<lparr>debug_class_return_code := Some c,
         debug_class_status := debug_class_code_to_status s ! nat (c - 2500)\<rparr>)
     else Inl Assertion_Failed)"
proof -
  consider "c = 0 \<or> c = 1" | "2500 \<le> c" "c \<le> debug_class_max_error s"
    | "c \<notin> {0, 1}" "\<not> (2500 \<le> c \<and> c \<le> debug_class_max_error s)"
    by fastforce
  then show ?thesis
  proof cases
    case 1
    then show ?thesis
      using setReturnCode_standard [of c s] by (auto simp: debug_standard_code_to_status_def)
  next
    case 2
    with assms setReturnCode_class [of c s] show ?thesis by auto
  next
    case 3
    then have "\<not> ((0 \<le> c \<and> c \<le> 1) \<or> (2500 \<le> c \<and> c \<le> debug_class_max_error s))" by auto
    from setReturnCode_refused [OF this] 3 show ?thesis by auto
  qed
qed

theorem setReturnCode_total_witness:
  "setReturnCode 2501 (debug_status_new [''a'', ''b''] 2501) =
     Inr (debug_status_new [''a'', ''b''] 2501\<lparr>debug_class_return_code := Some 2501,
       debug_class_status := ''b''\<rparr>)"
  using setReturnCode_total [of "debug_status_new [''a'', ''b''] 2501" 2501]
  by (simp add: debug_status_new_def)

subsection \<open>The error codes of a derived class\<close>

text \<open>
  Every derived class numbers its own errors from 0 and passes \<open>(int)enumerator\<close> to
  \<open>setReturnCode\<close>, without adding \<open>getMinClassError()\<close>.  The locale takes such an enumeration
  and its message table; its lemmas say what the calls of the derived class do.
\<close>

definition class_status_ok :: "string list \<Rightarrow> 'z debug_status_scheme \<Rightarrow> bool" where
  "class_status_ok texts s \<longleftrightarrow> debug_class_code_to_status s = texts \<and>
     debug_class_max_error s = getMinClassError + int (length texts) - 1"

lemma class_status_ok_new:
  "class_status_ok texts (debug_status_new texts (getMinClassError + int (length texts) - 1))"
  by (simp add: class_status_ok_def debug_status_new_def)

locale class_errors =
  fixes code :: "'e \<Rightarrow> int"
    and texts :: "string list"
  assumes code_range: "0 \<le> code e \<and> code e < int (length texts)"
    and few_texts: "length texts \<le> 2500"
begin

lemma report_first: "code e = 0 \<Longrightarrow>
  setReturnCode (code e) s =
    Inr (s\<lparr>debug_class_return_code := Some 0, debug_class_status := ''OK''\<rparr>)"
  by (simp add: setReturnCode_standard debug_standard_code_to_status_def)

lemma report_second: "code e = 1 \<Longrightarrow>
  setReturnCode (code e) s =
    Inr (s\<lparr>debug_class_return_code := Some 1, debug_class_status := ''Allocation failed''\<rparr>)"
  by (simp add: setReturnCode_standard debug_standard_code_to_status_def)

lemma report_other: "2 \<le> code e \<Longrightarrow> setReturnCode (code e) s = Inl Assertion_Failed"
  using code_range [of e] few_texts by (intro setReturnCode_gap) auto

lemma report_cases:
  "setReturnCode (code e) s =
    (if 2 \<le> code e then Inl Assertion_Failed
     else Inr (s\<lparr>debug_class_return_code := Some (code e),
            debug_class_status := (if code e = 0 then ''OK'' else ''Allocation failed'')\<rparr>))"
proof (cases "2 \<le> code e")
  case True
  then show ?thesis by (simp add: report_other)
next
  case False
  with code_range [of e] have "code e = 0 \<or> code e = 1" by linarith
  with report_first [of e s] report_second [of e s] show ?thesis by auto
qed

text \<open>The call the comments describe, with the class minimum added, stores the class's text.\<close>

lemma report_intended:
  assumes "class_status_ok texts s"
  shows "setReturnCode (getMinClassError + code e) s =
    Inr (s\<lparr>debug_class_return_code := Some (getMinClassError + code e),
      debug_class_status := texts ! nat (code e)\<rparr>)"
  using assms code_range [of e]
  by (subst setReturnCode_class) (auto simp: class_status_ok_def getMinClassError_def)

end

section \<open>debug_logger\<close>

record debug_logger =
  debug_last_time_stamp :: string
  output_file :: file_descriptor
  time_output_file :: time_setter_getter

definition debug_default_log_file :: string where
  "debug_default_log_file = ''__logfile''"

definition DEBUG_STATUS_LOG_HEADER :: string where
  "DEBUG_STATUS_LOG_HEADER = newline # ''START LOGGER::''"

definition logger_write ::
  "string \<Rightarrow> debug_logger \<Rightarrow> 'x disk_scheme \<Rightarrow> (debug_logger \<times> 'x disk_scheme) outcome" where
  "logger_write s lg d =
     bind_o (write_file (c_str s) (int (length s)) (output_file lg) d) (\<lambda>(fd, d').
       Inr (lg\<lparr>output_file := fd\<rparr>, d'))"

definition prependTime ::
  "bool \<Rightarrow> clock_text \<Rightarrow> debug_logger \<Rightarrow> 'x disk_scheme \<Rightarrow>
   (debug_logger \<times> 'x disk_scheme) outcome" where
  "prependTime isStart now lg d =
     (let lg1 = lg\<lparr>time_output_file := tsg_setTime now (time_output_file lg)\<rparr>;
          curr_time = tsg_getTime (time_output_file lg1) in
      bind_o (if isStart then logger_write DEBUG_STATUS_LOG_HEADER lg1 d else Inr (lg1, d)) (\<lambda>(lg2, d2).
      bind_o (logger_write curr_time lg2 d2) (\<lambda>(lg3, d3).
        if isStart then logger_write [newline, newline] lg3 d3 else logger_write ''::'' lg3 d3)))"

definition logger_new ::
  "string \<Rightarrow> file_mode_e \<Rightarrow> clock_text \<Rightarrow> 'x disk_scheme \<Rightarrow>
   (debug_logger \<times> 'x disk_scheme) outcome" where
  "logger_new name mode now d =
     bind_o (file_new (if name = [] then debug_default_log_file else name) mode d) (\<lambda>(fd, d1).
       prependTime True now
         \<lparr>debug_last_time_stamp = [], output_file = fd, time_output_file = tsg_new\<rparr> d1)"

definition logger_newline ::
  "debug_logger \<Rightarrow> 'x disk_scheme \<Rightarrow> (debug_logger \<times> 'x disk_scheme) outcome" where
  "logger_newline lg d =
     bind_o (write_newline (output_file lg) d) (\<lambda>(fd, d'). Inr (lg\<lparr>output_file := fd\<rparr>, d'))"

definition logger_log ::
  "string \<Rightarrow> clock_text \<Rightarrow> debug_logger \<Rightarrow> 'x disk_scheme \<Rightarrow>
   (debug_logger \<times> 'x disk_scheme) outcome" where
  "logger_log custom_string now lg d =
     bind_o (prependTime False now lg d) (\<lambda>(lg1, d1).
     bind_o (logger_write custom_string lg1 d1) (\<lambda>(lg2, d2). logger_newline lg2 d2))"

text \<open>\<open>operator>>\<close> extracts into \<open>char_arr_in\<close>, a pointer that no one initialised.\<close>

definition logger_extract ::
  "string \<Rightarrow> clock_text \<Rightarrow> debug_logger \<Rightarrow> 'x disk_scheme \<Rightarrow>
   (string \<times> debug_logger \<times> 'x disk_scheme) outcome" where
  "logger_extract input now lg d =
     (let char_arr_in = None :: cell list option in
      bind_o (defined_o char_arr_in) (\<lambda>arr.
      bind_o (prependTime False now lg d) (\<lambda>(lg1, d1).
      bind_o (c_string arr) (\<lambda>s.
      bind_o (logger_write s lg1 d1) (\<lambda>(lg2, d2).
      bind_o (logger_newline lg2 d2) (\<lambda>(lg3, d3). Inr (input, lg3, d3)))))))"

definition logger_setName ::
  "string \<Rightarrow> debug_logger \<Rightarrow> 'x disk_scheme \<Rightarrow> (debug_logger \<times> 'x disk_scheme) outcome" where
  "logger_setName name lg d =
     bind_o (assert_o (name \<noteq> [])) (\<lambda>_.
     bind_o (repurpose name (output_file lg) d) (\<lambda>(fd, d'). Inr (lg\<lparr>output_file := fd\<rparr>, d')))"

definition logger_setMode ::
  "file_mode_e \<Rightarrow> string \<Rightarrow> debug_logger \<Rightarrow> 'x disk_scheme \<Rightarrow>
   (debug_logger \<times> 'x disk_scheme) outcome" where
  "logger_setMode mode name lg d =
     bind_o (if name = [] then Inr (modifyMode mode (output_file lg) d)
             else repurpose_mode name mode (output_file lg) d) (\<lambda>(fd, d').
       Inr (lg\<lparr>output_file := fd\<rparr>, d'))"

definition logger_setTruncate ::
  "string \<Rightarrow> debug_logger \<Rightarrow> 'x disk_scheme \<Rightarrow> (debug_logger \<times> 'x disk_scheme) outcome" where
  "logger_setTruncate name lg d = logger_setMode Mode_truncate name lg d"

definition logger_setAppend ::
  "string \<Rightarrow> debug_logger \<Rightarrow> 'x disk_scheme \<Rightarrow> (debug_logger \<times> 'x disk_scheme) outcome" where
  "logger_setAppend name lg d = logger_setMode Mode_append name lg d"

text \<open>The class declares no destructor; the implicit one destroys the member \<open>output_file\<close>.\<close>

definition logger_destroy :: "debug_logger \<Rightarrow> 'x disk_scheme \<Rightarrow> 'x disk_scheme" where
  "logger_destroy lg d = file_destroy (output_file lg) d"

definition getLastLog :: "debug_logger \<Rightarrow> string" where
  "getLastLog lg = tsg_getTime (time_output_file lg)"

subsection \<open>Invariant: the logger's descriptor is well formed\<close>

lemma write_file_returns:
  assumes "fd_inv fd"
  shows "\<exists>fd' d'. write_file (c_str s) (int (length s)) fd d = Inr (fd', d')"
proof (cases "str_failed (file_instance fd)")
  case False
  with assms obtain h where h: "str_handle (file_instance fd) = Some h" by (auto elim: fd_invE)
  show ?thesis
  proof (cases "sh_writable h")
    case True
    with fstream_write_open [OF False h True read_cells_c_str [of s], of d] show ?thesis
      by (simp add: write_file_def)
  next
    case no: False
    with False h show ?thesis by (simp add: write_file_def fstream_write_def)
  qed
qed simp

lemma logger_write_step:
  assumes "fd_inv (output_file lg)"
  obtains lg' d' where "logger_write s lg d = Inr (lg', d')" and "fd_inv (output_file lg')"
    and "time_output_file lg' = time_output_file lg"
proof -
  obtain fd' d' where w: "write_file (c_str s) (int (length s)) (output_file lg) d = Inr (fd', d')"
    using write_file_returns [OF assms] by metis
  with that [of "lg\<lparr>output_file := fd'\<rparr>" d'] write_file_inv [OF assms w] show thesis
    by (simp add: logger_write_def)
qed

lemma prependTime_step:
  assumes "fd_inv (output_file lg)"
  obtains lg' d' where "prependTime b now lg d = Inr (lg', d')" and "fd_inv (output_file lg')"
    and "getLastLog lg' = now"
proof -
  let ?lg1 = "lg\<lparr>time_output_file := tsg_setTime now (time_output_file lg)\<rparr>"
  obtain lg2 d2 where 2: "(if b then logger_write DEBUG_STATUS_LOG_HEADER ?lg1 d
      else Inr (?lg1, d)) = Inr (lg2, d2)" "fd_inv (output_file lg2)"
      "time_output_file lg2 = time_output_file ?lg1"
    using assms logger_write_step [of ?lg1 DEBUG_STATUS_LOG_HEADER d] by (cases b) auto
  obtain lg3 d3 where 3: "logger_write now lg2 d2 = Inr (lg3, d3)" "fd_inv (output_file lg3)"
      "time_output_file lg3 = time_output_file lg2"
    by (rule logger_write_step [OF 2(2)])
  obtain lg4 d4 where 4: "logger_write (if b then [newline, newline] else ''::'') lg3 d3 =
      Inr (lg4, d4)" "fd_inv (output_file lg4)" "time_output_file lg4 = time_output_file lg3"
    by (rule logger_write_step [OF 3(2)])
  have "prependTime b now lg d = Inr (lg4, d4)"
  proof (cases b)
    case True
    with 2(1) 3(1) 4(1) show ?thesis by (simp add: prependTime_def Let_def)
  next
    case False
    with 2(1) have "lg2 = ?lg1" "d2 = d" by simp_all
    with False 3(1) 4(1) show ?thesis by (simp add: prependTime_def Let_def)
  qed
  with that 4(2,3) 3(3) 2(3) show thesis
    by (simp add: getLastLog_def)
qed

inductive logger_reach :: "debug_logger \<Rightarrow> 'x disk_scheme \<Rightarrow> bool" where
  construct: "logger_new name mode now d = Inr (lg, d') \<Longrightarrow> logger_reach lg d'"
| log: "logger_reach lg d \<Longrightarrow> logger_log s now lg d = Inr (lg', d') \<Longrightarrow> logger_reach lg' d'"
| extract_word: "logger_reach lg d \<Longrightarrow> logger_extract inp now lg d = Inr (inp', lg', d') \<Longrightarrow>
    logger_reach lg' d'"
| set_name: "logger_reach lg d \<Longrightarrow> logger_setName name lg d = Inr (lg', d') \<Longrightarrow>
    logger_reach lg' d'"
| set_truncate: "logger_reach lg d \<Longrightarrow> logger_setTruncate name lg d = Inr (lg', d') \<Longrightarrow>
    logger_reach lg' d'"
| set_append: "logger_reach lg d \<Longrightarrow> logger_setAppend name lg d = Inr (lg', d') \<Longrightarrow>
    logger_reach lg' d'"
| others: "logger_reach lg d \<Longrightarrow> logger_reach lg d'"

lemma logger_log_fails:
  assumes "fd_inv (output_file lg)"
  shows "logger_log s now lg d = Inl Assertion_Failed"
proof -
  obtain lg1 d1 where 1: "prependTime False now lg d = Inr (lg1, d1)" "fd_inv (output_file lg1)"
    using prependTime_step [OF assms, of False now d] by metis
  obtain lg2 d2 where 2: "logger_write s lg1 d1 = Inr (lg2, d2)" "fd_inv (output_file lg2)"
    using logger_write_step [OF 1(2), of s d1] by metis
  have "write_newline (output_file lg2) d2 = Inl Assertion_Failed"
    using fd_inv_flags [OF 2(2)] by (auto simp: write_newline_def)
  with 1(1) 2(1) show ?thesis
    by (simp add: logger_log_def logger_newline_def)
qed

lemma logger_setMode_inv:
  "logger_setMode mode name lg d = Inr (lg', d') \<Longrightarrow> fd_inv (output_file lg')"
  by (auto simp: logger_setMode_def modifyMode_def repurpose_mode_def outcome_rules
      split: if_splits prod.splits dest: getFileDescriptor_inv getFileDescriptor_inv [OF sym])

lemma logger_reach_inv: "logger_reach lg d \<Longrightarrow> fd_inv (output_file lg)"
proof (induction rule: logger_reach.induct)
  case (construct name mode now d lg d')
  then obtain fd d1 where n: "file_new (if name = [] then debug_default_log_file else name) mode d
      = Inr (fd, d1)" and p: "prependTime True now \<lparr>debug_last_time_stamp = [], output_file = fd,
        time_output_file = tsg_new\<rparr> d1 = Inr (lg, d')"
    by (auto simp: logger_new_def outcome_rules)
  from prependTime_step [of "\<lparr>debug_last_time_stamp = [], output_file = fd,
      time_output_file = tsg_new\<rparr>" True now d1] file_new_inv [OF n] p
  show ?case by auto
qed (auto simp: logger_log_fails logger_extract_def logger_setName_def repurpose_def
    logger_setTruncate_def logger_setAppend_def outcome_rules
    split: prod.splits intro: logger_setMode_inv dest: getFileDescriptor_inv)

subsection \<open>What the logger does\<close>

text \<open>\<open>log\<close> never returns: on every logger a client can hold it hands the time and
  the message to the stream and then ends the program in \<open>write_newline\<close>'s assertion.\<close>

theorem logger_log_never_returns:
  assumes "logger_reach lg d"
  shows "logger_log s now lg d' = Inl Assertion_Failed"
  by (rule logger_log_fails [OF logger_reach_inv [OF assms]])

lemma logger_new_returns: "\<exists>lg d'. logger_new name mode now d = Inr (lg, d')"
proof -
  have ne: "(if name = [] then debug_default_log_file else name) \<noteq> []"
    by (simp add: debug_default_log_file_def)
  obtain fd d1 where n: "file_new (if name = [] then debug_default_log_file else name) mode d =
      Inr (fd, d1)"
    using file_new_returns [OF ne, of mode d] by blast
  have "fd_inv (output_file \<lparr>debug_last_time_stamp = [], output_file = fd,
      time_output_file = tsg_new\<rparr>)"
    using file_new_inv [OF n] by simp
  from prependTime_step [OF this, of True now d1] n show ?thesis
    by (metis (no_types, lifting) bind_o_simps(2) case_prod_conv logger_new_def)
qed

theorem logger_log_never_returns_witness:
  "\<exists>lg. logger_log ''up'' ''12:01'' lg blank_disk = Inl Assertion_Failed"
proof -
  obtain lg d' where "logger_new ''events'' Mode_append ''12:00'' blank_disk = Inr (lg, d')"
    using logger_new_returns by blast
  then have "logger_reach lg d'"
    by (rule logger_reach.construct)
  then show ?thesis
    using logger_log_never_returns by blast
qed

lemma logger_write_at_end:
  assumes "writes_at_end fd (d\<lparr>dk_files := (dk_files d)(p \<mapsto> x)\<rparr>) p c"
  obtains fd' y where "logger_write s (lg\<lparr>output_file := fd\<rparr>) (d\<lparr>dk_files := (dk_files d)(p \<mapsto> x)\<rparr>) =
      Inr (lg\<lparr>output_file := fd'\<rparr>, d\<lparr>dk_files := (dk_files d)(p \<mapsto> y)\<rparr>)"
    and "writes_at_end fd' (d\<lparr>dk_files := (dk_files d)(p \<mapsto> y)\<rparr>) p (c @ s)"
proof -
  obtain fd' y where "write_file (c_str s) (int (length s)) fd (d\<lparr>dk_files := (dk_files d)(p \<mapsto> x)\<rparr>) =
      Inr (fd', d\<lparr>dk_files := (dk_files d)(p \<mapsto> y)\<rparr>)"
    and "writes_at_end fd' (d\<lparr>dk_files := (dk_files d)(p \<mapsto> y)\<rparr>) p (c @ s)"
    by (rule write_file_at_end [OF assms read_cells_c_str [of s]]) simp
  then show thesis
    by (intro that [of fd' y]) (simp_all add: logger_write_def del: fun_upd_apply)
qed

text \<open>Constructing a logger (the default name \<open>__logfile\<close> replaces an empty one) on a
  file the system lets it open writes the header and the current time: to an emptied file in
  truncate mode, after the old content in append mode.  They are in the file when the logger is
  destroyed; a program that a later \<open>log\<close> aborts never writes out what waits.\<close>

theorem logger_header:
  assumes "mode < Mode_in" and "fname = (if name = [] then debug_default_log_file else name)"
    and "\<not> dk_denied d (dk_resolve d fname)"
  shows "\<exists>lg d'. logger_new name mode now d = Inr (lg, d') \<and> getLastLog lg = now \<and>
    dk_files (logger_destroy lg d') = (dk_files d)(dk_resolve d fname \<mapsto>
      (if mode = Mode_truncate then [] else case dk_files d (dk_resolve d fname) of
         None \<Rightarrow> [] | Some old \<Rightarrow> old) @ DEBUG_STATUS_LOG_HEADER @ now @ [newline, newline])"
proof -
  let ?p = "dk_resolve d fname"
  let ?c = "if mode = Mode_truncate then [] else case dk_files d ?p of None \<Rightarrow> [] | Some old \<Rightarrow> old"
  have ne: "fname \<noteq> []"
    using assms(2) by (simp add: debug_default_log_file_def)
  let ?d = "\<lambda>c. d\<lparr>dk_files := (dk_files d)(?p \<mapsto> c)\<rparr>"
  obtain fd where n: "file_new fname mode d = Inr (fd, ?d ?c)" and e: "writes_at_end fd (?d ?c) ?p ?c"
    by (rule file_new_write [OF ne assms(3,1)])
  let ?lg = "\<lparr>debug_last_time_stamp = [], output_file = fd, time_output_file = tsg_setTime now tsg_new\<rparr>"
  obtain fd1 x1 where w1: "logger_write DEBUG_STATUS_LOG_HEADER (?lg\<lparr>output_file := fd\<rparr>) (?d ?c) =
      Inr (?lg\<lparr>output_file := fd1\<rparr>, ?d x1)"
    and e1: "writes_at_end fd1 (?d x1) ?p (?c @ DEBUG_STATUS_LOG_HEADER)"
    by (rule logger_write_at_end [OF e])
  obtain fd2 x2 where w2: "logger_write now (?lg\<lparr>output_file := fd1\<rparr>) (?d x1) =
      Inr (?lg\<lparr>output_file := fd2\<rparr>, ?d x2)"
    and e2: "writes_at_end fd2 (?d x2) ?p ((?c @ DEBUG_STATUS_LOG_HEADER) @ now)"
    by (rule logger_write_at_end [OF e1])
  obtain fd3 x3 where w3: "logger_write [newline, newline] (?lg\<lparr>output_file := fd2\<rparr>) (?d x2) =
      Inr (?lg\<lparr>output_file := fd3\<rparr>, ?d x3)"
    and e3: "writes_at_end fd3 (?d x3) ?p (((?c @ DEBUG_STATUS_LOG_HEADER) @ now) @ [newline, newline])"
    by (rule logger_write_at_end [OF e2])
  have "logger_new name mode now d = Inr (?lg\<lparr>output_file := fd3\<rparr>, ?d x3)"
    using n w1 w2 w3 assms(2)
    by (simp add: logger_new_def prependTime_def Let_def del: fun_upd_apply)
  moreover have "dk_files (logger_destroy (?lg\<lparr>output_file := fd3\<rparr>) (?d x3)) = (dk_files d)(?p \<mapsto>
      ?c @ DEBUG_STATUS_LOG_HEADER @ now @ [newline, newline])"
    using file_destroy_at_end [OF e3] by (simp add: logger_destroy_def del: fun_upd_apply)
  moreover have "getLastLog (?lg\<lparr>output_file := fd3\<rparr>) = now"
    by (simp add: getLastLog_def)
  ultimately show ?thesis by blast
qed

theorem logger_header_witness:
  "\<exists>lg d'. logger_new [] Mode_append ''now'' blank_disk = Inr (lg, d') \<and>
    dk_files (logger_destroy lg d') ''__logfile'' =
      Some (newline # ''START LOGGER::now'' @ [newline, newline])"
  using logger_header [of Mode_append "''__logfile''" "[]" blank_disk "''now''"]
  by (force simp: debug_default_log_file_def blank_disk_def DEBUG_STATUS_LOG_HEADER_def)

end
