(* ===== verification/Nfs_Handler.thy ===== *)
theory Nfs_Handler
  imports Nfs_Prelude
begin

text \<open>
  \<open>LIBS/defs_handler.h\<close>: \<open>handler_callback\<close>, a stored function call.

  A function pointer is \<open>'f option\<close> (\<open>None\<close> is \<open>nullptr\<close>).  A non-empty \<open>function<void()>\<close> is
  a pointer with the arguments \<open>bind\<close> gave it; \<open>bind\<close> accepts a null pointer, and calling the
  result is undefined.  What a user function does with its arguments to the world \<open>'w\<close> is the
  parameter \<open>prog\<close>: it is the client's code.  The member that \<open>setFunction\<close> alone assigns,
  the unbound pointer, is \<open>None\<close> until then.
\<close>

datatype ('f, 'v) callable = Bound "'f option" "'v list"

type_synonym ('f, 'v, 'w) user_code = "'f \<Rightarrow> 'v list \<Rightarrow> 'w \<Rightarrow> 'w outcome"

record ('f, 'v) handler_callback =
  handler_function_parameter_free :: bool
  handler_unbound_function_pointer :: "'f option option"
  handler_formatted_function :: "('f, 'v) callable option"

text \<open>\<open>function<void()>\<close> made from a plain pointer: empty for \<open>nullptr\<close>.\<close>

definition function_of_pointer :: "'f option \<Rightarrow> ('f, 'v) callable option" where
  "function_of_pointer fp = (case fp of None \<Rightarrow> None | Some f \<Rightarrow> Some (Bound (Some f) []))"

definition handler_new :: "('f, 'v) callable option \<Rightarrow> ('f, 'v) handler_callback" where
  "handler_new bound_or_free_function =
     \<lparr>handler_function_parameter_free = (bound_or_free_function = None),
      handler_unbound_function_pointer = None,
      handler_formatted_function = bound_or_free_function\<rparr>"

definition setFunction ::
  "'f option \<Rightarrow> 'v list \<Rightarrow> ('f, 'v) handler_callback \<Rightarrow> ('f, 'v) handler_callback" where
  "setFunction function_pointer args h =
     h\<lparr>handler_formatted_function := Some (Bound function_pointer args),
       handler_unbound_function_pointer := Some function_pointer,
       handler_function_parameter_free := False\<rparr>"

definition setBoundOrFreeFunction ::
  "('f, 'v) callable option \<Rightarrow> ('f, 'v) handler_callback \<Rightarrow> ('f, 'v) handler_callback" where
  "setBoundOrFreeFunction function_pointer h =
     h\<lparr>handler_formatted_function := function_pointer,
       handler_function_parameter_free := True\<rparr>"

definition setParameters ::
  "'v list \<Rightarrow> ('f, 'v) handler_callback \<Rightarrow> ('f, 'v) handler_callback outcome" where
  "setParameters args h =
     bind_o (assert_o (\<not> handler_function_parameter_free h)) (\<lambda>_.
     bind_o (defined_o (handler_unbound_function_pointer h)) (\<lambda>fp.
       Inr (h\<lparr>handler_formatted_function := Some (Bound fp args)\<rparr>)))"

definition call_bound :: "('f, 'v, 'w) user_code \<Rightarrow> ('f, 'v) callable \<Rightarrow> 'w \<Rightarrow> 'w outcome" where
  "call_bound prog c w = (case c of Bound fp args \<Rightarrow>
     bind_o (defined_o fp) (\<lambda>f. prog f args w))"

definition handler_run ::
  "('f, 'v, 'w) user_code \<Rightarrow> ('f, 'v) handler_callback \<Rightarrow> 'w \<Rightarrow> 'w outcome" where
  "handler_run prog h w =
     bind_o (assert_o (handler_formatted_function h \<noteq> None)) (\<lambda>_.
     bind_o (defined_o (handler_formatted_function h)) (\<lambda>c. call_bound prog c w))"

text \<open>Calling a handler \<open>n\<close> times.\<close>

fun call_repeatedly ::
  "('f, 'v, 'w) user_code \<Rightarrow> ('f, 'v) handler_callback \<Rightarrow> nat \<Rightarrow> 'w \<Rightarrow> 'w outcome" where
  "call_repeatedly prog h 0 w = Inr w"
| "call_repeatedly prog h (Suc n) w =
     bind_o (handler_run prog h w) (\<lambda>w1. call_repeatedly prog h n w1)"

lemmas handler_defs =
  handler_new_def setFunction_def setBoundOrFreeFunction_def setParameters_def handler_run_def
  call_bound_def

section \<open>What a handler does\<close>

text \<open>The three ways to load a handler, and what \<open>run\<close> then does.\<close>

lemma handler_run_setFunction [simp]:
  "handler_run prog (setFunction (Some f) args h) w = prog f args w"
  "handler_run prog (setFunction None args h) w = Inl Undefined_Behaviour"
  by (simp_all add: handler_defs)

lemma handler_run_setBoundOrFree [simp]:
  "handler_run prog (setBoundOrFreeFunction (Some (Bound (Some f) args)) h) w = prog f args w"
  "handler_run prog (setBoundOrFreeFunction None h) w = Inl Assertion_Failed"
  by (simp_all add: handler_defs)

text \<open>User code that acts on a world \<open>'w\<close> and leaves the object \<open>'s\<close> that calls it alone.\<close>

definition world_code ::
  "('f, 'v, 'w) user_code \<Rightarrow> ('f, 'v, 's \<times> 'w) user_code" where
  "world_code prog f args x = (case x of (s, w) \<Rightarrow>
     bind_o (prog f args w) (\<lambda>w'. Inr (s, w')))"

lemma handler_run_world_code:
  "handler_run (world_code prog) h (s, w) = bind_o (handler_run prog h w) (\<lambda>w'. Inr (s, w'))"
proof (cases "handler_formatted_function h")
  case (Some c)
  then show ?thesis
    by (cases c) (simp add: handler_run_def call_bound_def world_code_def bind_o_assoc)
qed (simp add: handler_run_def)

lemma handler_run_returns:
  assumes "handler_run prog h w = Inr w'"
  obtains f args where "prog f args w = Inr w'"
proof -
  obtain c where "call_bound prog c w = Inr w'"
    using assms by (auto simp: handler_run_def outcome_rules)
  then show thesis
    using that by (cases c) (auto simp: call_bound_def outcome_rules)
qed

text \<open>
  The handlers a client can build.  A handler that takes parameters has either been given its
  function by \<open>setFunction\<close>, and then stores the call of that function, or was built around a
  function by the constructor, and then its unbound pointer was never assigned.
\<close>

inductive handler_reach :: "('f, 'v) handler_callback \<Rightarrow> bool" where
  construct: "handler_reach (handler_new c)"
| set_function: "handler_reach h \<Longrightarrow> handler_reach (setFunction fp args h)"
| set_free: "handler_reach h \<Longrightarrow> handler_reach (setBoundOrFreeFunction c h)"
| set_parameters: "handler_reach h \<Longrightarrow> setParameters args h = Inr h' \<Longrightarrow> handler_reach h'"

definition handler_inv :: "('f, 'v) handler_callback \<Rightarrow> bool" where
  "handler_inv h \<longleftrightarrow> handler_function_parameter_free h \<or>
     (case handler_unbound_function_pointer h of
        None \<Rightarrow> handler_formatted_function h \<noteq> None
      | Some fp \<Rightarrow> \<exists>args. handler_formatted_function h = Some (Bound fp args))"

lemma handler_reach_inv: "handler_reach h \<Longrightarrow> handler_inv h"
  by (induction rule: handler_reach.induct) (auto simp: handler_inv_def handler_defs outcome_rules)

lemma setParameters_cases:
  "setParameters args h =
    (if handler_function_parameter_free h then Inl Assertion_Failed
     else case handler_unbound_function_pointer h of
       None \<Rightarrow> Inl Undefined_Behaviour
     | Some fp \<Rightarrow> Inr (h\<lparr>handler_formatted_function := Some (Bound fp args)\<rparr>))"
  by (auto simp: setParameters_def split: option.splits)

text \<open>Re-parameterising keeps the function: on every handler a client can build,
  \<open>setParameters\<close> either fails its assertion (parameter-free handler), is undefined (the handler
  was built around a function by the constructor, so there is no unbound pointer), or the handler
  already held a call of some function pointer and afterwards \<open>run\<close> calls that same function with
  exactly the new arguments.\<close>

theorem setParameters_keeps_function:
  assumes "handler_reach h"
  shows "setParameters args h = Inl Assertion_Failed \<and> handler_function_parameter_free h
    \<or> setParameters args h = Inl Undefined_Behaviour \<and>
        handler_unbound_function_pointer h = None \<and> handler_formatted_function h \<noteq> None
    \<or> (\<exists>h' fp old. setParameters args h = Inr h' \<and>
        handler_formatted_function h = Some (Bound fp old) \<and>
        (\<forall>w. handler_run prog h' w = call_bound prog (Bound fp args) w))"
  using handler_reach_inv [OF assms]
  by (auto simp: setParameters_cases handler_inv_def handler_run_def split: option.splits)

theorem setParameters_keeps_function_witness:
  "\<exists>h'. setParameters [7 :: nat] (setFunction (Some ()) [5] (handler_new None)) = Inr h' \<and>
     handler_run (\<lambda>_ args w. Inr (w + sum_list args)) h' 1 = Inr 8"
proof -
  have "handler_reach (setFunction (Some ()) [5 :: nat] (handler_new None))"
    by (intro handler_reach.intros)
  from setParameters_keeps_function [OF this, of "[7]" "\<lambda>_ args w. Inr (w + sum_list args)"]
  show ?thesis
    by (auto simp: setParameters_cases setFunction_def handler_new_def call_bound_def
        handler_run_def)
qed

end
