(* ===== verification/Nfs_Registry.thy ===== *)
theory Nfs_Registry
  imports Nfs_Prelude
begin

text \<open>
  The contracts of the identifier-indexed stores of the program.  \<open>simulation\<close> is the general one:
  every operation returns the flag, and has the effect, that a specification gives for the abstract
  state; then so does every sequence of operations.  \<open>registry\<close> is the special case of a store that
  a client sees as a partial function from keys: it registers an item under a fresh key, is refused
  under a taken key, and removes what is there.
\<close>

section \<open>Simulation\<close>

fun ops_run ::
  "('o \<Rightarrow> 's \<Rightarrow> (bool \<times> 's) outcome) \<Rightarrow> 'o list \<Rightarrow> 's \<Rightarrow> (bool list \<times> 's) outcome" where
  "ops_run step [] s = Inr ([], s)"
| "ops_run step (op # ops) s =
     bind_o (step op s) (\<lambda>(b, s').
     bind_o (ops_run step ops s') (\<lambda>(bs, s''). Inr (b # bs, s'')))"

fun ops_spec :: "('o \<Rightarrow> 'a \<Rightarrow> bool \<times> 'a) \<Rightarrow> 'o list \<Rightarrow> 'a \<Rightarrow> bool list \<times> 'a" where
  "ops_spec spec [] a = ([], a)"
| "ops_spec spec (op # ops) a =
     (let (b, a') = spec op a; (bs, a'') = ops_spec spec ops a' in (b # bs, a''))"

locale simulation =
  fixes inv :: "'s \<Rightarrow> bool"
    and abs :: "'s \<Rightarrow> 'a"
    and step :: "'o \<Rightarrow> 's \<Rightarrow> (bool \<times> 's) outcome"
    and spec :: "'o \<Rightarrow> 'a \<Rightarrow> bool \<times> 'a"
  assumes step_simulates: "inv s \<Longrightarrow>
      \<exists>s'. step op s = Inr (fst (spec op (abs s)), s') \<and> inv s' \<and> abs s' = snd (spec op (abs s))"
begin

text \<open>Any run of the provider is a run of the specification: flags and final state agree.\<close>

lemma run_simulates:
  "inv s \<Longrightarrow> \<exists>s'. ops_run step ops s = Inr (fst (ops_spec spec ops (abs s)), s') \<and> inv s' \<and>
     abs s' = snd (ops_spec spec ops (abs s))"
proof (induction ops arbitrary: s)
  case (Cons op ops)
  obtain s1 where s1: "step op s = Inr (fst (spec op (abs s)), s1)" "inv s1"
    "abs s1 = snd (spec op (abs s))"
    using step_simulates [OF Cons.prems] by blast
  from Cons.IH [OF s1(2)] s1(1,3) show ?case
    by (fastforce simp: split_beta)
qed simp

end

section \<open>Registries\<close>

datatype ('k, 'd) reg_op = Reg_Add 'k 'd | Reg_Del 'k

primrec reg_step ::
  "('k \<Rightarrow> 'd \<Rightarrow> 's \<Rightarrow> (bool \<times> 's) outcome) \<Rightarrow> ('k \<Rightarrow> 's \<Rightarrow> (bool \<times> 's) outcome) \<Rightarrow>
   ('k, 'd) reg_op \<Rightarrow> 's \<Rightarrow> (bool \<times> 's) outcome" where
  "reg_step add del (Reg_Add k d) s = add k d s"
| "reg_step add del (Reg_Del k) s = del k s"

primrec reg_map :: "('d \<Rightarrow> 't) \<Rightarrow> ('k, 'd) reg_op \<Rightarrow> ('k \<rightharpoonup> 't) \<Rightarrow> bool \<times> ('k \<rightharpoonup> 't)" where
  "reg_map mk (Reg_Add k d) m = (if m k = None then (True, m(k \<mapsto> mk d)) else (False, m))"
| "reg_map mk (Reg_Del k) m = (m k \<noteq> None, m(k := None))"

locale registry =
  fixes inv :: "'s \<Rightarrow> bool"
    and view :: "'s \<Rightarrow> 'k \<Rightarrow> 't option"
    and mk :: "'d \<Rightarrow> 't"
    and add :: "'k \<Rightarrow> 'd \<Rightarrow> 's \<Rightarrow> (bool \<times> 's) outcome"
    and del :: "'k \<Rightarrow> 's \<Rightarrow> (bool \<times> 's) outcome"
  assumes add_fresh: "inv s \<Longrightarrow> view s k = None \<Longrightarrow>
      \<exists>s'. add k d s = Inr (True, s') \<and> inv s' \<and> view s' = (view s)(k \<mapsto> mk d)"
    and add_taken: "inv s \<Longrightarrow> view s k \<noteq> None \<Longrightarrow>
      \<exists>s'. add k d s = Inr (False, s') \<and> inv s' \<and> view s' = view s"
    and del_present: "inv s \<Longrightarrow> view s k \<noteq> None \<Longrightarrow>
      \<exists>s'. del k s = Inr (True, s') \<and> inv s' \<and> view s' = (view s)(k := None)"
    and del_absent: "inv s \<Longrightarrow> view s k = None \<Longrightarrow>
      \<exists>s'. del k s = Inr (False, s') \<and> inv s' \<and> view s' = view s"
begin

lemma add_step:
  assumes "inv s"
  obtains s' where "add k d s = Inr (view s k = None, s')" and "inv s'"
    and "view s' = (if view s k = None then (view s)(k \<mapsto> mk d) else view s)"
  using add_fresh [OF assms, of k d] add_taken [OF assms, of k d]
  by (cases "view s k = None") auto

lemma del_step:
  assumes "inv s"
  obtains s' where "del k s = Inr (view s k \<noteq> None, s')" and "inv s'"
    and "view s' = (view s)(k := None)"
proof (cases "view s k = None")
  case True
  then have "(view s)(k := None) = view s"
    by (metis fun_upd_triv)
  with that True del_absent [OF assms True] show thesis
    by auto
next
  case False
  with that del_present [OF assms False] show thesis
    by auto
qed

text \<open>Registering under a fresh key and removing it gives the old view back.\<close>

lemma add_del_inverse:
  assumes "inv s" and "view s k = None"
  shows "\<exists>s1 s2. add k d s = Inr (True, s1) \<and> view s1 k = Some (mk d) \<and>
           del k s1 = Inr (True, s2) \<and> inv s2 \<and> view s2 = view s"
proof -
  obtain s1 where s1: "add k d s = Inr (True, s1)" "inv s1" "view s1 = (view s)(k \<mapsto> mk d)"
    using add_fresh [OF assms] by blast
  moreover obtain s2 where "del k s1 = Inr (True, s2)" "inv s2" "view s2 = (view s1)(k := None)"
    using del_present [OF s1(2), of k] s1(3) by auto
  moreover have "(view s)(k := None) = view s"
    using assms(2) by (metis fun_upd_triv)
  ultimately show ?thesis by auto
qed

end

sublocale registry \<subseteq> plain_map: simulation inv view "reg_step add del" "reg_map mk"
proof unfold_locales
  fix s op
  assume s: "inv s"
  show "\<exists>s'. reg_step add del op s = Inr (fst (reg_map mk op (view s)), s') \<and> inv s' \<and>
    view s' = snd (reg_map mk op (view s))"
  proof (cases op)
    case (Reg_Add k d)
    obtain s' where "add k d s = Inr (view s k = None, s')" "inv s'"
      "view s' = (if view s k = None then (view s)(k \<mapsto> mk d) else view s)"
      by (rule add_step [OF s])
    with Reg_Add show ?thesis by auto
  next
    case (Reg_Del k)
    obtain s' where "del k s = Inr (view s k \<noteq> None, s')" "inv s'" "view s' = (view s)(k := None)"
      by (rule del_step [OF s])
    with Reg_Del show ?thesis by auto
  qed
qed

end
