(* ===== verification/Nfs_Runslice.thy ===== *)
theory Nfs_Runslice
  imports Nfs_Debug Nfs_Handler Nfs_Registry
begin

text \<open>
  \<open>LIBS/defs_scheduler.h\<close>, class \<open>scheduler_runslice\<close>: a run queue of registered callbacks.

  The two lists hold \<open>(identifier, (persist, callback))\<close>, the front of a list being its head;
  the lookup says in which list an identifier is.  A user function acts on the scheduler that runs
  it and on a world \<open>'w\<close> of its own.
\<close>

section \<open>State\<close>

datatype runslice_mode = Round_robin | Priority_round_robin | Priority_only_round_robin

datatype runslice_error =
    Rs_identifier_not_available
  | Rs_identifier_is_occupied
  | Rs_no_tasks_available
  | Rs_no_priority_tasks_available

primrec runslice_error_code :: "runslice_error \<Rightarrow> int" where
  "runslice_error_code Rs_identifier_not_available = 0"
| "runslice_error_code Rs_identifier_is_occupied = 1"
| "runslice_error_code Rs_no_tasks_available = 2"
| "runslice_error_code Rs_no_priority_tasks_available = 3"

definition scheduler_runslice_local_errors :: "string list" where
  "scheduler_runslice_local_errors =
     [''Identifier not available'', ''Identifier is occupied'', ''No tasks available'',
      ''No priority tasks available'']"

type_synonym ('f, 'v) task_queue = "(int \<times> bool \<times> ('f, 'v) handler_callback) list"

record ('f, 'v) scheduler_runslice = debug_status +
  scheduler_priority_runs_last :: "8 word"
  scheduler_priority_queue :: "('f, 'v) task_queue"
  scheduler_normal_queue :: "('f, 'v) task_queue"
  scheduler_is_priority_lookup :: "(int, bool) umap"
  scheduler_mode :: runslice_mode

text \<open>What the client's functions do: they see the scheduler and may call it.\<close>

type_synonym ('f, 'v, 'w) rs_code = "('f, 'v, ('f, 'v) scheduler_runslice \<times> 'w) user_code"

definition RUNSLICE_ERROR_COUNT :: int where
  "RUNSLICE_ERROR_COUNT = 4"

definition runslice_new :: "('f, 'v) scheduler_runslice" where
  "runslice_new = debug_status.extend
     (debug_status_new scheduler_runslice_local_errors (getMinClassError + RUNSLICE_ERROR_COUNT - 1))
     (scheduler_runslice.fields 0 [] [] [] Round_robin)"

definition rs_report ::
  "runslice_error \<Rightarrow> ('f, 'v) scheduler_runslice \<Rightarrow> ('f, 'v) scheduler_runslice outcome" where
  "rs_report e s = setReturnCode (runslice_error_code e) s"

definition queue_of :: "bool \<Rightarrow> ('f, 'v) scheduler_runslice \<Rightarrow> ('f, 'v) task_queue" where
  "queue_of p s = (if p then scheduler_priority_queue s else scheduler_normal_queue s)"

definition set_queue ::
  "bool \<Rightarrow> ('f, 'v) task_queue \<Rightarrow> ('f, 'v) scheduler_runslice \<Rightarrow> ('f, 'v) scheduler_runslice" where
  "set_queue p q s =
     (if p then s\<lparr>scheduler_priority_queue := q\<rparr> else s\<lparr>scheduler_normal_queue := q\<rparr>)"

section \<open>Enqueueing\<close>

definition rs_enqueueSharedHelper ::
  "int \<Rightarrow> ('f, 'v) scheduler_runslice \<Rightarrow> (bool \<times> ('f, 'v) scheduler_runslice) outcome" where
  "rs_enqueueSharedHelper identifier s =
     (if map_of (scheduler_is_priority_lookup s) identifier = None then Inr (True, s)
      else bind_o (rs_report Rs_identifier_is_occupied s) (\<lambda>s'. Inr (False, s')))"

definition rs_insert ::
  "int \<Rightarrow> ('f, 'v) handler_callback \<Rightarrow> bool \<Rightarrow> bool \<Rightarrow> ('f, 'v) scheduler_runslice \<Rightarrow>
   ('f, 'v) scheduler_runslice" where
  "rs_insert identifier callback_payload is_priority persist s =
     (let s1 = (if is_priority
        then s\<lparr>scheduler_priority_queue :=
               (identifier, persist, callback_payload) # scheduler_priority_queue s\<rparr>
        else s\<lparr>scheduler_normal_queue :=
               (identifier, persist, callback_payload) # scheduler_normal_queue s\<rparr>) in
      s1\<lparr>scheduler_is_priority_lookup :=
        snd (umap_emplace identifier is_priority (scheduler_is_priority_lookup s1))\<rparr>)"

definition rs_enqueueShared ::
  "int \<Rightarrow> 'f option \<Rightarrow> 'v list \<Rightarrow> bool \<Rightarrow> bool \<Rightarrow> ('f, 'v) scheduler_runslice \<Rightarrow>
   (bool \<times> ('f, 'v) scheduler_runslice) outcome" where
  "rs_enqueueShared identifier function_pointer args is_priority persist s =
     (let callback_payload = handler_new None in
      bind_o (rs_enqueueSharedHelper identifier s) (\<lambda>(result, s1).
        Inr (result, if result
          then rs_insert identifier (setFunction function_pointer args callback_payload)
                 is_priority persist s1
          else s1)))"

definition rs_enqueueSharedParameterFree ::
  "int \<Rightarrow> 'f option \<Rightarrow> bool \<Rightarrow> bool \<Rightarrow> ('f, 'v) scheduler_runslice \<Rightarrow>
   (bool \<times> ('f, 'v) scheduler_runslice) outcome" where
  "rs_enqueueSharedParameterFree identifier function_pointer is_priority persist s =
     (let callback_payload = handler_new None in
      bind_o (rs_enqueueSharedHelper identifier s) (\<lambda>(result, s1).
        Inr (result, if result
          then rs_insert identifier
                 (setBoundOrFreeFunction (function_of_pointer function_pointer) callback_payload)
                 is_priority persist s1
          else s1)))"

definition rs_enqueueRegistration ::
  "int \<Rightarrow> 'f option \<Rightarrow> bool \<Rightarrow> bool \<Rightarrow> ('f, 'v) scheduler_runslice \<Rightarrow>
   (bool \<times> ('f, 'v) scheduler_runslice) outcome" where
  "rs_enqueueRegistration identifier function_pointer is_priority persist s =
     rs_enqueueSharedParameterFree identifier function_pointer is_priority persist s"

definition rs_enqueueRegistrationParameters ::
  "int \<Rightarrow> 'f option \<Rightarrow> 'v list \<Rightarrow> bool \<Rightarrow> bool \<Rightarrow> ('f, 'v) scheduler_runslice \<Rightarrow>
   (bool \<times> ('f, 'v) scheduler_runslice) outcome" where
  "rs_enqueueRegistrationParameters identifier function_pointer args is_priority persist s =
     rs_enqueueShared identifier function_pointer args is_priority persist s"

section \<open>Updating and removing\<close>

text \<open>
  The helper returns the iterator into the list the lookup names (\<open>None\<close> is the end iterator),
  or no iterator at all when the identifier is unknown.
\<close>

definition task_key :: "int \<Rightarrow> int \<times> bool \<times> ('f, 'v) handler_callback \<Rightarrow> bool" where
  "task_key identifier iterator \<longleftrightarrow> fst iterator = identifier"

definition rs_updateSharedHelper ::
  "int \<Rightarrow> ('f, 'v) scheduler_runslice \<Rightarrow>
   ((bool \<times> nat option) option \<times> ('f, 'v) scheduler_runslice) outcome" where
  "rs_updateSharedHelper identifier s =
     (case map_of (scheduler_is_priority_lookup s) identifier of
        Some is_priority \<Rightarrow>
          Inr (Some (is_priority, find_pos (task_key identifier) (queue_of is_priority s)), s)
      | None \<Rightarrow> bind_o (rs_report Rs_identifier_not_available s) (\<lambda>s'. Inr (None, s')))"

text \<open>Replacing the callback an iterator points to.\<close>

definition rs_modify ::
  "(('f, 'v) handler_callback \<Rightarrow> ('f, 'v) handler_callback outcome) \<Rightarrow> bool \<Rightarrow> nat option \<Rightarrow>
   ('f, 'v) scheduler_runslice \<Rightarrow> ('f, 'v) scheduler_runslice outcome" where
  "rs_modify f p pos s =
     bind_o (element_at pos (queue_of p s)) (\<lambda>(identifier, persist, h).
     bind_o (f h) (\<lambda>h'.
     bind_o (assign_at pos (identifier, persist, h') (queue_of p s)) (\<lambda>q'.
       Inr (set_queue p q' s))))"

definition rs_updateShared ::
  "int \<Rightarrow> 'f option \<Rightarrow> 'v list \<Rightarrow> ('f, 'v) scheduler_runslice \<Rightarrow>
   (bool \<times> ('f, 'v) scheduler_runslice) outcome" where
  "rs_updateShared identifier function_pointer args s =
     bind_o (rs_updateSharedHelper identifier s) (\<lambda>(it, s1).
       case it of
         None \<Rightarrow> Inr (False, s1)
       | Some (p, pos) \<Rightarrow>
           bind_o (rs_modify (\<lambda>h. if function_pointer = None then setParameters args h
                                  else Inr (setFunction function_pointer args h)) p pos s1) (\<lambda>s2.
             Inr (True, s2)))"

definition rs_updateSharedParameterFree ::
  "int \<Rightarrow> 'f option \<Rightarrow> ('f, 'v) scheduler_runslice \<Rightarrow>
   (bool \<times> ('f, 'v) scheduler_runslice) outcome" where
  "rs_updateSharedParameterFree identifier function_pointer s =
     bind_o (rs_updateSharedHelper identifier s) (\<lambda>(it, s1).
       case it of
         None \<Rightarrow> Inr (False, s1)
       | Some (p, pos) \<Rightarrow>
           bind_o (rs_modify
               (\<lambda>h. Inr (setBoundOrFreeFunction (function_of_pointer function_pointer) h)) p pos s1)
             (\<lambda>s2. Inr (True, s2)))"

definition rs_updateRegistration ::
  "int \<Rightarrow> 'f option \<Rightarrow> ('f, 'v) scheduler_runslice \<Rightarrow>
   (bool \<times> ('f, 'v) scheduler_runslice) outcome" where
  "rs_updateRegistration identifier function_pointer s =
     rs_updateSharedParameterFree identifier function_pointer s"

definition rs_updateRegistrationParameters ::
  "int \<Rightarrow> 'f option \<Rightarrow> 'v list \<Rightarrow> ('f, 'v) scheduler_runslice \<Rightarrow>
   (bool \<times> ('f, 'v) scheduler_runslice) outcome" where
  "rs_updateRegistrationParameters identifier function_pointer args s =
     rs_updateShared identifier function_pointer args s"

definition rs_updateRegistrationParametersOnly ::
  "int \<Rightarrow> 'v list \<Rightarrow> ('f, 'v) scheduler_runslice \<Rightarrow>
   (bool \<times> ('f, 'v) scheduler_runslice) outcome" where
  "rs_updateRegistrationParametersOnly identifier args s = rs_updateShared identifier None args s"

definition rs_updateRegistrationPriority ::
  "int \<Rightarrow> bool \<Rightarrow> ('f, 'v) scheduler_runslice \<Rightarrow>
   (bool \<times> ('f, 'v) scheduler_runslice) outcome" where
  "rs_updateRegistrationPriority identifier is_priority s =
     (case map_of (scheduler_is_priority_lookup s) identifier of
        None \<Rightarrow> bind_o (rs_report Rs_identifier_not_available s) (\<lambda>s'. Inr (False, s'))
      | Some was \<Rightarrow>
          bind_o (if was \<noteq> is_priority
             then let pos = find_pos (task_key identifier) (queue_of was s) in
               bind_o (element_at pos (queue_of was s)) (\<lambda>x.
               let s1 = set_queue (\<not> was) (x # queue_of (\<not> was) s) s in
               bind_o (erase_at pos (queue_of was s1)) (\<lambda>q'. Inr (set_queue was q' s1)))
             else Inr s) (\<lambda>s2.
            Inr (True, s2\<lparr>scheduler_is_priority_lookup :=
                   umap_store identifier is_priority (scheduler_is_priority_lookup s2)\<rparr>)))"

definition rs_removeRegistrationInline ::
  "int \<Rightarrow> ('f, 'v) scheduler_runslice \<Rightarrow> (bool \<times> ('f, 'v) scheduler_runslice) outcome" where
  "rs_removeRegistrationInline identifier s =
     (case map_of (scheduler_is_priority_lookup s) identifier of
        None \<Rightarrow> bind_o (rs_report Rs_identifier_not_available s) (\<lambda>s'. Inr (False, s'))
      | Some p \<Rightarrow>
          bind_o (erase_at (find_pos (task_key identifier) (queue_of p s)) (queue_of p s)) (\<lambda>q'.
          let s1 = set_queue p q' s in
          Inr (True, s1\<lparr>scheduler_is_priority_lookup :=
                 umap_erase identifier (scheduler_is_priority_lookup s1)\<rparr>)))"

definition rs_removeRegistration ::
  "int \<Rightarrow> ('f, 'v) scheduler_runslice \<Rightarrow> (bool \<times> ('f, 'v) scheduler_runslice) outcome" where
  "rs_removeRegistration identifier s = rs_removeRegistrationInline identifier s"

definition rs_setAlgorithmMode ::
  "runslice_mode \<Rightarrow> ('f, 'v) scheduler_runslice \<Rightarrow> ('f, 'v) scheduler_runslice" where
  "rs_setAlgorithmMode designated_allocator s = s\<lparr>scheduler_mode := designated_allocator\<rparr>"

section \<open>Running\<close>

text \<open>
  \<open>runOperationInline\<close> takes its list by value.  The first component of the result is the final
  value of that parameter; it is a local copy, made before the callback runs, which the callers
  drop.  What follows the call of the callback sees the scheduler as the callback left it.
\<close>

definition rs_runOperationInline ::
  "('f, 'v, 'w) rs_code \<Rightarrow> ('f, 'v) task_queue \<Rightarrow> ('f, 'v) scheduler_runslice \<Rightarrow> 'w \<Rightarrow>
   (('f, 'v) task_queue \<times> ('f, 'v) scheduler_runslice \<times> 'w) outcome" where
  "rs_runOperationInline prog run_queue s w =
     bind_o (back_o run_queue) (\<lambda>(identifier, persist, h).
     bind_o (handler_run prog h (s, w)) (\<lambda>(s', w').
       let (q1, s1) = (if persist then (last run_queue # run_queue, s')
             else (run_queue, s'\<lparr>scheduler_is_priority_lookup :=
                     umap_erase identifier (scheduler_is_priority_lookup s')\<rparr>)) in
       Inr (butlast q1, s1, w')))"

definition PRIORITY_CYCLES :: "8 word" where
  "PRIORITY_CYCLES = 1"

definition char_of_bool :: "bool \<Rightarrow> 8 word" where
  "char_of_bool b = (if b then 1 else 0)"

text \<open>The four updates of the cycle counter at the end of a round robin run.\<close>

definition advance_runs_last :: "runslice_mode \<Rightarrow> 8 word \<Rightarrow> 8 word" where
  "advance_runs_last mode n =
     (let n1 = n + char_of_bool (Round_robin = mode);
          n2 = n1 * char_of_bool (PRIORITY_CYCLES <s n1);
          n3 = n2 + char_of_bool (Priority_round_robin = mode)
      in n3 * char_of_bool (PRIORITY_CYCLES <s n3))"

definition rs_run ::
  "('f, 'v, 'w) rs_code \<Rightarrow> ('f, 'v) scheduler_runslice \<Rightarrow> 'w \<Rightarrow>
   (('f, 'v) scheduler_runslice \<times> 'w) outcome" where
  "rs_run prog s w =
     (if scheduler_is_priority_lookup s \<noteq> [] then
        if scheduler_mode s \<noteq> Priority_only_round_robin then
          bind_o (if scheduler_priority_runs_last s \<noteq> 0 \<and> scheduler_priority_queue s \<noteq> [] \<or>
                     scheduler_normal_queue s = []
                  then rs_runOperationInline prog (scheduler_priority_queue s) s w
                  else rs_runOperationInline prog (scheduler_normal_queue s) s w) (\<lambda>(_, s1, w1).
            Inr (s1\<lparr>scheduler_priority_runs_last :=
                   advance_runs_last (scheduler_mode s1) (scheduler_priority_runs_last s1)\<rparr>, w1))
        else
          bind_o (if scheduler_priority_queue s \<noteq> []
                  then rs_runOperationInline prog (scheduler_priority_queue s) s w
                  else bind_o (rs_report Rs_no_priority_tasks_available s) (\<lambda>s'.
                    Inr ([], s', w))) (\<lambda>(_, s1, w1).
            Inr (s1\<lparr>scheduler_priority_runs_last := 0\<rparr>, w1))
      else bind_o (rs_report Rs_no_tasks_available s) (\<lambda>s'. Inr (s', w)))"

definition rs_clean :: "('f, 'v) scheduler_runslice \<Rightarrow> ('f, 'v) scheduler_runslice" where
  "rs_clean s =
     (let s1 = s\<lparr>scheduler_priority_runs_last := 0, scheduler_mode := Round_robin\<rparr>;
          s2 = s1\<lparr>scheduler_priority_queue := pop_front_all (scheduler_priority_queue s1)\<rparr>;
          s3 = s2\<lparr>scheduler_normal_queue := pop_front_all (scheduler_normal_queue s2)\<rparr>
      in s3\<lparr>scheduler_is_priority_lookup := []\<rparr>)"

section \<open>Invariant and view\<close>

text \<open>
  The lookup has distinct keys and names, for each identifier, the list in which it is.  The
  view of a scheduler is what a client has registered: priority, persistence and callback.
\<close>

definition rs_inv :: "('f, 'v) scheduler_runslice \<Rightarrow> bool" where
  "rs_inv s \<longleftrightarrow> umap_ok (scheduler_is_priority_lookup s) \<and>
     (\<forall>i p. map_of (scheduler_is_priority_lookup s) i = Some p \<longrightarrow>
        map_of (queue_of p s) i \<noteq> None) \<and>
     scheduler_priority_runs_last s = 0"

definition rs_view ::
  "('f, 'v) scheduler_runslice \<Rightarrow> int \<Rightarrow> (bool \<times> bool \<times> ('f, 'v) handler_callback) option" where
  "rs_view s i = (case map_of (scheduler_is_priority_lookup s) i of
     None \<Rightarrow> None | Some p \<Rightarrow> map_option (Pair p) (map_of (queue_of p s) i))"

lemma task_key_eq: "task_key i = (\<lambda>p. fst p = i)"
  by (rule ext) (simp add: task_key_def)

lemma queue_of_set_queue [simp]:
  "queue_of p (set_queue p q s) = q"
  "queue_of (\<not> p) (set_queue p q s) = queue_of (\<not> p) s"
  "queue_of p (set_queue (\<not> p) q s) = queue_of p s"
  "scheduler_is_priority_lookup (set_queue p q s) = scheduler_is_priority_lookup s"
  "scheduler_priority_runs_last (set_queue p q s) = scheduler_priority_runs_last s"
  "scheduler_mode (set_queue p q s) = scheduler_mode s"
  by (simp_all add: queue_of_def set_queue_def)

lemma queue_of_set_queue_if: "queue_of p (set_queue p' q s) = (if p = p' then q else queue_of p s)"
  by (cases p; cases p') (simp_all add: queue_of_def set_queue_def)

lemma queue_of_updates [simp]:
  "queue_of p (s\<lparr>scheduler_is_priority_lookup := m\<rparr>) = queue_of p s"
  "queue_of p (s\<lparr>scheduler_priority_runs_last := n\<rparr>) = queue_of p s"
  "queue_of p (s\<lparr>scheduler_mode := md\<rparr>) = queue_of p s"
  "queue_of p (s\<lparr>debug_class_return_code := c, debug_class_status := t\<rparr>) = queue_of p s"
  by (simp_all add: queue_of_def)

lemma rs_inv_updates [simp]:
  "rs_inv (s\<lparr>scheduler_mode := md\<rparr>) \<longleftrightarrow> rs_inv s"
  "rs_inv (s\<lparr>debug_class_return_code := c, debug_class_status := t\<rparr>) \<longleftrightarrow> rs_inv s"
  by (simp_all add: rs_inv_def)

lemma rs_view_updates [simp]:
  "rs_view (s\<lparr>scheduler_mode := md\<rparr>) = rs_view s"
  "rs_view (s\<lparr>scheduler_priority_runs_last := n\<rparr>) = rs_view s"
  "rs_view (s\<lparr>debug_class_return_code := c, debug_class_status := t\<rparr>) = rs_view s"
  by (rule ext, simp add: rs_view_def split: option.split)+

lemma rs_view_None_iff:
  "rs_inv s \<Longrightarrow> rs_view s i = None \<longleftrightarrow> map_of (scheduler_is_priority_lookup s) i = None"
  by (auto simp: rs_view_def rs_inv_def split: option.splits)

lemma rs_view_Some:
  "rs_view s i = Some (p, x) \<longleftrightarrow>
     map_of (scheduler_is_priority_lookup s) i = Some p \<and> map_of (queue_of p s) i = Some x"
  by (cases x) (auto simp: rs_view_def split: option.splits)

lemma rs_inv_new: "rs_inv runslice_new" "rs_view runslice_new = Map.empty"
  by (simp_all add: rs_inv_def rs_view_def runslice_new_def debug_status.defs
      scheduler_runslice.defs fun_eq_iff)

subsection \<open>Reports\<close>

interpretation rs_errors: class_errors runslice_error_code scheduler_runslice_local_errors
proof unfold_locales
  fix e
  show "0 \<le> runslice_error_code e \<and>
      runslice_error_code e < int (length scheduler_runslice_local_errors)"
    by (cases e) (simp_all add: scheduler_runslice_local_errors_def)
qed (simp add: scheduler_runslice_local_errors_def)

text \<open>
  The first two errors are reported under the texts of the standard codes; the other two codes
  are refused by \<open>setReturnCode\<close>.
\<close>

lemma rs_report_simps [simp]:
  "rs_report Rs_identifier_not_available s =
     Inr (s\<lparr>debug_class_return_code := Some 0, debug_class_status := ''OK''\<rparr>)"
  "rs_report Rs_identifier_is_occupied s =
     Inr (s\<lparr>debug_class_return_code := Some 1, debug_class_status := ''Allocation failed''\<rparr>)"
  "rs_report Rs_no_tasks_available s = Inl Assertion_Failed"
  "rs_report Rs_no_priority_tasks_available s = Inl Assertion_Failed"
  using rs_errors.report_cases [of Rs_identifier_not_available s]
    rs_errors.report_cases [of Rs_identifier_is_occupied s]
    rs_errors.report_cases [of Rs_no_tasks_available s]
    rs_errors.report_cases [of Rs_no_priority_tasks_available s]
  by (simp_all add: rs_report_def)

subsection \<open>Each operation on the invariant and the view\<close>

lemma rs_insert_step:
  assumes "rs_inv s" and "map_of (scheduler_is_priority_lookup s) i = None"
  shows "rs_inv (rs_insert i h p b s)"
    and "rs_view (rs_insert i h p b s) = (rs_view s)(i \<mapsto> (p, b, h))"
  using assms
  by (auto simp: rs_inv_def rs_view_def rs_insert_def queue_of_def umap_emplace_def Let_def
      fun_eq_iff split: option.splits if_splits)

lemma rs_lookup_present:
  assumes "rs_inv s" and "map_of (scheduler_is_priority_lookup s) i = Some p"
  obtains b h where "map_of (queue_of p s) i = Some (b, h)" and "rs_view s i = Some (p, b, h)"
  using assms by (fastforce simp: rs_inv_def rs_view_Some)

text \<open>Any change of one queue that leaves the other registrations alone.\<close>

lemma rs_set_queue_step:
  assumes "rs_inv s" and "map_of (scheduler_is_priority_lookup s) i = Some p"
    and "map_of q' i = Some x" and "\<And>k. k \<noteq> i \<Longrightarrow> map_of q' k = map_of (queue_of p s) k"
  shows "rs_inv (set_queue p q' s)"
    and "rs_view (set_queue p q' s) = (rs_view s)(i \<mapsto> (p, x))"
proof -
  have other: "k \<noteq> i \<Longrightarrow> map_of (queue_of p' (set_queue p q' s)) k = map_of (queue_of p' s) k"
    for k p' using assms(4) by (simp add: queue_of_set_queue_if)
  show "rs_inv (set_queue p q' s)"
    unfolding rs_inv_def
  proof (intro conjI allI impI)
    fix k p'
    assume "map_of (scheduler_is_priority_lookup (set_queue p q' s)) k = Some p'"
    then show "map_of (queue_of p' (set_queue p q' s)) k \<noteq> None"
      using assms(1-3) other [of k p'] by (cases "k = i") (auto simp: rs_inv_def)
  qed (use assms(1) in \<open>auto simp: rs_inv_def\<close>)
  show "rs_view (set_queue p q' s) = (rs_view s)(i \<mapsto> (p, x))"
  proof (rule ext)
    fix k
    show "rs_view (set_queue p q' s) k = ((rs_view s)(i \<mapsto> (p, x))) k"
      using assms(2,3) other [of k] by (cases "k = i") (auto simp: rs_view_def split: option.split)
  qed
qed

lemma rs_drop_lookup:
  assumes "rs_inv s"
  shows "rs_inv (s\<lparr>scheduler_is_priority_lookup := umap_erase i (scheduler_is_priority_lookup s)\<rparr>)"
    and "rs_view (s\<lparr>scheduler_is_priority_lookup := umap_erase i (scheduler_is_priority_lookup s)\<rparr>)
      = (rs_view s)(i := None)"
  using assms by (auto simp: rs_inv_def rs_view_def fun_eq_iff split: option.split)

lemma rs_enqueueSharedHelper_cases:
  "rs_enqueueSharedHelper i s = Inr (if map_of (scheduler_is_priority_lookup s) i = None
     then (True, s)
     else (False, s\<lparr>debug_class_return_code := Some 1, debug_class_status := ''Allocation failed''\<rparr>))"
  by (simp add: rs_enqueueSharedHelper_def)

lemma rs_updateSharedHelper_unknown:
  "map_of (scheduler_is_priority_lookup s) i = None \<Longrightarrow> rs_updateSharedHelper i s =
     Inr (None, s\<lparr>debug_class_return_code := Some 0, debug_class_status := ''OK''\<rparr>)"
  by (simp add: rs_updateSharedHelper_def)

lemma rs_modify_step:
  assumes "rs_inv s" and "rs_view s i = Some (p, b, h)" and "f h = Inr h'"
  obtains s' where
    "rs_modify f p (find_pos (task_key i) (queue_of p s)) s = Inr s'" and "rs_inv s'"
    and "rs_view s' = (rs_view s)(i \<mapsto> (p, b, h'))"
proof -
  have q: "map_of (queue_of p s) i = Some (b, h)"
    and l: "map_of (scheduler_is_priority_lookup s) i = Some p"
    using assms(2) by (auto simp: rs_view_Some)
  obtain q' where q': "assign_at (find_pos (\<lambda>x. fst x = i) (queue_of p s)) (i, b, h')
      (queue_of p s) = Inr q'" "map_of q' = (map_of (queue_of p s))(i \<mapsto> (b, h'))"
    by (rule assign_at_key [OF q])
  have "rs_modify f p (find_pos (task_key i) (queue_of p s)) s = Inr (set_queue p q' s)"
    using element_at_key [OF q] q'(1) assms(3) by (simp add: rs_modify_def task_key_eq)
  moreover have "rs_inv (set_queue p q' s)"
    "rs_view (set_queue p q' s) = (rs_view s)(i \<mapsto> (p, b, h'))"
    by (rule rs_set_queue_step [OF assms(1) l]; simp add: q'(2))+
  ultimately show thesis using that by blast
qed

lemma rs_modify_fault:
  assumes "rs_view s i = Some (p, b, h)" and "f h = Inl e"
  shows "rs_modify f p (find_pos (task_key i) (queue_of p s)) s = Inl e"
proof -
  have "map_of (queue_of p s) i = Some (b, h)"
    using assms(1) by (auto simp: rs_view_Some)
  from element_at_key [OF this] assms(2) show ?thesis
    by (simp add: rs_modify_def task_key_eq)
qed

lemma rs_remove_step:
  assumes "rs_inv s" and "map_of (scheduler_is_priority_lookup s) i = Some p"
  obtains s' where "rs_removeRegistration i s = Inr (True, s')" and "rs_inv s'"
    and "rs_view s' = (rs_view s)(i := None)"
proof -
  obtain b h where q: "map_of (queue_of p s) i = Some (b, h)"
    by (rule rs_lookup_present [OF assms])
  obtain q' where q': "erase_at (find_pos (\<lambda>x. fst x = i) (queue_of p s)) (queue_of p s) = Inr q'"
    "\<And>k. k \<noteq> i \<Longrightarrow> map_of q' k = map_of (queue_of p s) k"
    using erase_at_key [OF q] by metis
  let ?m = "umap_erase i (scheduler_is_priority_lookup s)"
  let ?s = "set_queue p q' s\<lparr>scheduler_is_priority_lookup := ?m\<rparr>"
  have run: "rs_removeRegistration i s = Inr (True, ?s)"
    using assms(2) q'(1)
    by (simp add: rs_removeRegistration_def rs_removeRegistrationInline_def task_key_eq Let_def)
  have other: "k \<noteq> i \<Longrightarrow> map_of (queue_of p' ?s) k = map_of (queue_of p' s) k" for k p'
    using q'(2) by (simp add: queue_of_set_queue_if)
  have "rs_inv ?s"
    using assms(1) other by (auto simp: rs_inv_def split: if_splits)
  moreover have "rs_view ?s k = ((rs_view s)(i := None)) k" for k
    using other [of k] by (cases "k = i") (auto simp: rs_view_def split: option.split)
  ultimately show thesis using that run by blast
qed

lemma rs_remove_unknown:
  "map_of (scheduler_is_priority_lookup s) i = None \<Longrightarrow> rs_removeRegistration i s =
     Inr (False, s\<lparr>debug_class_return_code := Some 0, debug_class_status := ''OK''\<rparr>)"
  by (simp add: rs_removeRegistration_def rs_removeRegistrationInline_def)

section \<open>Registrations as a map\<close>

text \<open>What a client registers: a function without parameters, or one with its arguments.\<close>

datatype ('f, 'v) rs_payload = Rs_Free "'f option" bool bool | Rs_Params "'f option" "'v list" bool bool

primrec rs_add ::
  "int \<Rightarrow> ('f, 'v) rs_payload \<Rightarrow> ('f, 'v) scheduler_runslice \<Rightarrow>
   (bool \<times> ('f, 'v) scheduler_runslice) outcome" where
  "rs_add i (Rs_Free fp p b) s = rs_enqueueRegistration i fp p b s"
| "rs_add i (Rs_Params fp args p b) s = rs_enqueueRegistrationParameters i fp args p b s"

primrec rs_entry :: "('f, 'v) rs_payload \<Rightarrow> bool \<times> bool \<times> ('f, 'v) handler_callback" where
  "rs_entry (Rs_Free fp p b) =
     (p, b, setBoundOrFreeFunction (function_of_pointer fp) (handler_new None))"
| "rs_entry (Rs_Params fp args p b) = (p, b, setFunction fp args (handler_new None))"

lemmas rs_enqueue_defs =
  rs_enqueueRegistration_def rs_enqueueRegistrationParameters_def
  rs_enqueueShared_def rs_enqueueSharedParameterFree_def rs_enqueueSharedHelper_cases

lemma rs_add_fresh:
  assumes "rs_inv s" and "rs_view s i = None"
  shows "\<exists>s'. rs_add i d s = Inr (True, s') \<and> rs_inv s' \<and> rs_view s' = (rs_view s)(i \<mapsto> rs_entry d)"
proof -
  have l: "map_of (scheduler_is_priority_lookup s) i = None"
    using assms rs_view_None_iff by blast
  show ?thesis
    using rs_insert_step [OF assms(1) l]
    by (cases d) (auto simp: rs_enqueue_defs l Let_def)
qed

lemma rs_add_taken:
  assumes "rs_inv s" and "rs_view s i \<noteq> None"
  shows "rs_add i d s = Inr (False, s\<lparr>debug_class_return_code := Some 1,
    debug_class_status := ''Allocation failed''\<rparr>)"
proof -
  have "map_of (scheduler_is_priority_lookup s) i \<noteq> None"
    using assms(2) rs_view_None_iff [OF assms(1), of i] by simp
  then show ?thesis
    by (cases d) (auto simp: rs_enqueue_defs Let_def)
qed

interpretation rs_reg: registry rs_inv rs_view rs_entry rs_add rs_removeRegistration
proof unfold_locales
  fix s :: "('f, 'v) scheduler_runslice" and k d
  assume s: "rs_inv s"
  show "\<exists>s'. rs_add k d s = Inr (True, s') \<and> rs_inv s' \<and> rs_view s' = (rs_view s)(k \<mapsto> rs_entry d)"
    if "rs_view s k = None"
    using rs_add_fresh [OF s that] .
  show "\<exists>s'. rs_add k d s = Inr (False, s') \<and> rs_inv s' \<and> rs_view s' = rs_view s"
    if "rs_view s k \<noteq> None"
    using rs_add_taken [OF s that, of d] s by simp
  show "\<exists>s'. rs_removeRegistration k s = Inr (True, s') \<and> rs_inv s' \<and>
      rs_view s' = (rs_view s)(k := None)" if "rs_view s k \<noteq> None"
  proof -
    from that obtain p where "map_of (scheduler_is_priority_lookup s) k = Some p"
      using rs_view_None_iff [OF s] by auto
    from rs_remove_step [OF s this] show ?thesis by metis
  qed
  show "\<exists>s'. rs_removeRegistration k s = Inr (False, s') \<and> rs_inv s' \<and> rs_view s' = rs_view s"
    if "rs_view s k = None"
    using rs_remove_unknown [of s k] rs_view_None_iff [OF s] that s by simp
qed

subsection \<open>Updates\<close>

text \<open>The three updates of a callback are one scheme, with different changes of the handler.\<close>

definition rs_update_with ::
  "(('f, 'v) handler_callback \<Rightarrow> ('f, 'v) handler_callback outcome) \<Rightarrow> int \<Rightarrow>
   ('f, 'v) scheduler_runslice \<Rightarrow> (bool \<times> ('f, 'v) scheduler_runslice) outcome" where
  "rs_update_with f i s =
     bind_o (rs_updateSharedHelper i s) (\<lambda>(it, s1). case it of None \<Rightarrow> Inr (False, s1)
       | Some (p, pos) \<Rightarrow> bind_o (rs_modify f p pos s1) (\<lambda>s2. Inr (True, s2)))"

lemma rs_updates_with:
  "rs_updateRegistration i fp s =
     rs_update_with (\<lambda>h. Inr (setBoundOrFreeFunction (function_of_pointer fp) h)) i s"
  "rs_updateRegistrationParameters i (Some f) args s =
     rs_update_with (\<lambda>h. Inr (setFunction (Some f) args h)) i s"
  "rs_updateRegistrationParametersOnly i args s = rs_update_with (setParameters args) i s"
  by (simp_all add: rs_update_with_def rs_updateRegistration_def rs_updateRegistrationParameters_def
      rs_updateRegistrationParametersOnly_def rs_updateShared_def rs_updateSharedParameterFree_def
      cong: option.case_cong)

lemma rs_update_with_unknown:
  "map_of (scheduler_is_priority_lookup s) i = None \<Longrightarrow> rs_update_with f i s =
     Inr (False, s\<lparr>debug_class_return_code := Some 0, debug_class_status := ''OK''\<rparr>)"
  by (simp add: rs_update_with_def rs_updateSharedHelper_unknown)

lemma rs_update_with_known:
  assumes "rs_inv s" and "rs_view s i = Some (p, b, h)"
  shows "case f h of Inl e \<Rightarrow> rs_update_with f i s = Inl e
    | Inr h' \<Rightarrow> \<exists>s'. rs_update_with f i s = Inr (True, s') \<and> rs_inv s' \<and>
        rs_view s' = (rs_view s)(i \<mapsto> (p, b, h'))"
proof -
  have l: "map_of (scheduler_is_priority_lookup s) i = Some p"
    using assms(2) by (auto simp: rs_view_Some)
  then have unfold: "rs_update_with f i s =
      bind_o (rs_modify f p (find_pos (task_key i) (queue_of p s)) s) (\<lambda>s2. Inr (True, s2))"
    by (simp add: rs_update_with_def rs_updateSharedHelper_def)
  show ?thesis
  proof (cases "f h")
    case (Inl e)
    with unfold rs_modify_fault [where f = f, OF assms(2) Inl] show ?thesis by simp
  next
    case (Inr h')
    obtain s' where "rs_modify f p (find_pos (task_key i) (queue_of p s)) s = Inr s'"
      "rs_inv s'" "rs_view s' = (rs_view s)(i \<mapsto> (p, b, h'))"
      by (rule rs_modify_step [where f = f, OF assms Inr])
    with unfold Inr show ?thesis by simp
  qed
qed

lemma rs_update_with_inv:
  assumes "rs_inv s" and "rs_update_with f i s = Inr (r, s')"
  shows "rs_inv s'"
proof (cases "rs_view s i")
  case None
  with assms rs_view_None_iff [OF assms(1)] show ?thesis
    by (auto simp: rs_update_with_unknown)
next
  case (Some x)
  then obtain p b h where "rs_view s i = Some (p, b, h)" by (cases x) auto
  from rs_update_with_known [OF assms(1) this, of f] assms(2) show ?thesis
    by (auto split: sum.splits)
qed

lemma rs_updatePriority_unknown:
  "map_of (scheduler_is_priority_lookup s) i = None \<Longrightarrow> rs_updateRegistrationPriority i p s =
     Inr (False, s\<lparr>debug_class_return_code := Some 0, debug_class_status := ''OK''\<rparr>)"
  by (simp add: rs_updateRegistrationPriority_def)

lemma rs_updatePriority_known:
  assumes s: "rs_inv s" and v: "rs_view s i = Some (p, b, h)"
  obtains s' where "rs_updateRegistrationPriority i p' s = Inr (True, s')" and "rs_inv s'"
    and "rs_view s' = (rs_view s)(i \<mapsto> (p', b, h))"
proof (cases "p = p'")
  case True
  have l: "map_of (scheduler_is_priority_lookup s) i = Some p"
    using v by (auto simp: rs_view_Some)
  with s True have "rs_updateRegistrationPriority i p' s = Inr (True, s)"
    by (simp add: rs_updateRegistrationPriority_def umap_store_same rs_inv_def)
  moreover have "rs_view s = (rs_view s)(i \<mapsto> (p', b, h))"
    using v True by (simp add: fun_upd_idem)
  ultimately show thesis using that s by blast
next
  case False
  then have p': "p' = (\<not> p)" by auto
  have q: "map_of (queue_of p s) i = Some (b, h)"
    and l: "map_of (scheduler_is_priority_lookup s) i = Some p"
    using v by (auto simp: rs_view_Some)
  obtain q' where q': "erase_at (find_pos (\<lambda>x. fst x = i) (queue_of p s)) (queue_of p s) = Inr q'"
    "\<And>k. k \<noteq> i \<Longrightarrow> map_of q' k = map_of (queue_of p s) k"
    using erase_at_key [OF q] by metis
  let ?s1 = "set_queue p q' (set_queue (\<not> p) ((i, b, h) # queue_of (\<not> p) s) s)"
  let ?m = "umap_store i p' (scheduler_is_priority_lookup s)"
  let ?s = "?s1\<lparr>scheduler_is_priority_lookup := ?m\<rparr>"
  have run: "rs_updateRegistrationPriority i p' s = Inr (True, ?s)"
    using l q'(1) element_at_key [OF q] p'
    by (simp add: rs_updateRegistrationPriority_def task_key_eq Let_def)
  have mine: "map_of (queue_of p' ?s) i = Some (b, h)"
    by (simp add: p' queue_of_set_queue_if)
  have other: "k \<noteq> i \<Longrightarrow> map_of (queue_of r ?s) k = map_of (queue_of r s) k" for k r
    using q'(2) by (simp add: queue_of_set_queue_if)
  have look: "map_of (scheduler_is_priority_lookup ?s) = (map_of (scheduler_is_priority_lookup s))(i \<mapsto> p')"
    using l by simp
  have "rs_inv ?s"
    unfolding rs_inv_def
  proof (intro conjI allI impI)
    fix k r
    assume "map_of (scheduler_is_priority_lookup ?s) k = Some r"
    then show "map_of (queue_of r ?s) k \<noteq> None"
      using s mine other [of k r] look by (cases "k = i") (auto simp: rs_inv_def)
  qed (use s in \<open>auto simp: rs_inv_def\<close>)
  moreover have "rs_view ?s k = ((rs_view s)(i \<mapsto> (p', b, h))) k" for k
    using mine other [of k] look by (cases "k = i") (auto simp: rs_view_def split: option.split)
  ultimately show thesis using that run by blast
qed

section \<open>Registrations as ordered queues\<close>

text \<open>
  What an operation does to the queues, written out: the first element with the identifier is
  \<open>(i, x)\<close>, between \<open>xs\<close> and \<open>ys\<close>.
\<close>

lemma rs_remove_first:
  assumes "map_of (scheduler_is_priority_lookup s) i = Some p"
    and "queue_of p s = xs @ (i, x) # ys" and "i \<notin> fst ` set xs"
  shows "rs_removeRegistration i s = Inr (True, set_queue p (xs @ ys) s
    \<lparr>scheduler_is_priority_lookup := umap_erase i (scheduler_is_priority_lookup s)\<rparr>)"
  using assms by (simp add: rs_removeRegistration_def rs_removeRegistrationInline_def task_key_eq
      at_first_key Let_def)

lemma rs_updatePriority_first:
  assumes "map_of (scheduler_is_priority_lookup s) i = Some p"
    and "queue_of p s = xs @ (i, x) # ys" and "i \<notin> fst ` set xs"
  shows "rs_updateRegistrationPriority i (\<not> p) s = Inr (True,
    set_queue p (xs @ ys) (set_queue (\<not> p) ((i, x) # queue_of (\<not> p) s) s)
      \<lparr>scheduler_is_priority_lookup := umap_store i (\<not> p) (scheduler_is_priority_lookup s)\<rparr>)"
  using assms by (simp add: rs_updateRegistrationPriority_def task_key_eq at_first_key Let_def)

lemma rs_updatePriority_same:
  assumes "map_of (scheduler_is_priority_lookup s) i = Some p"
    and "umap_ok (scheduler_is_priority_lookup s)"
  shows "rs_updateRegistrationPriority i p s = Inr (True, s)"
  using assms by (simp add: rs_updateRegistrationPriority_def umap_store_same)

lemma rs_update_with_first:
  assumes "map_of (scheduler_is_priority_lookup s) i = Some p"
    and "queue_of p s = xs @ (i, b, h) # ys" and "i \<notin> fst ` set xs"
  shows "rs_update_with (\<lambda>h. Inr (f h)) i s = Inr (True, set_queue p (xs @ (i, b, f h) # ys) s)"
  using assms by (simp add: rs_update_with_def rs_updateSharedHelper_def rs_modify_def task_key_eq
      at_first_key)

subsection \<open>The specification\<close>

text \<open>
  Two ordered queues and nothing else.  An operation returns whether it could be done.  A new task
  goes to the front of its queue and is the last of it to be run; a task that changes its priority
  goes to the front of the other queue.
\<close>

type_synonym ('f, 'v) task_queues = "bool \<Rightarrow> ('f, 'v) task_queue"

datatype ('f, 'v) rs_op =
    Ro_Add int "('f, 'v) rs_payload"
  | Ro_Remove int
  | Ro_Priority int bool
  | Ro_Update int "'f option"
  | Ro_Update_parameters int 'f "'v list"

primrec rs_step ::
  "('f, 'v) rs_op \<Rightarrow> ('f, 'v) scheduler_runslice \<Rightarrow> (bool \<times> ('f, 'v) scheduler_runslice) outcome" where
  "rs_step (Ro_Add i d) s = rs_add i d s"
| "rs_step (Ro_Remove i) s = rs_removeRegistration i s"
| "rs_step (Ro_Priority i p) s = rs_updateRegistrationPriority i p s"
| "rs_step (Ro_Update i fp) s = rs_updateRegistration i fp s"
| "rs_step (Ro_Update_parameters i f args) s = rs_updateRegistrationParameters i (Some f) args s"

definition queued :: "int \<Rightarrow> ('f, 'v) task_queues \<Rightarrow> bool" where
  "queued i q \<longleftrightarrow> i \<in> fst ` set (q True @ q False)"

definition put_task ::
  "int \<Rightarrow> bool \<times> bool \<times> ('f, 'v) handler_callback \<Rightarrow> ('f, 'v) task_queues \<Rightarrow> ('f, 'v) task_queues" where
  "put_task i x q = q(fst x := (i, snd x) # q (fst x))"

definition drop_task :: "int \<Rightarrow> ('f, 'v) task_queues \<Rightarrow> ('f, 'v) task_queues" where
  "drop_task i q = (\<lambda>p. filter (\<lambda>t. fst t \<noteq> i) (q p))"

definition move_task :: "int \<Rightarrow> bool \<Rightarrow> ('f, 'v) task_queues \<Rightarrow> ('f, 'v) task_queues" where
  "move_task i p q = (\<lambda>r. if r = p then filter (\<lambda>t. fst t = i) (q (\<not> p)) @ q p
     else filter (\<lambda>t. fst t \<noteq> i) (q r))"

definition change_task ::
  "int \<Rightarrow> (('f, 'v) handler_callback \<Rightarrow> ('f, 'v) handler_callback) \<Rightarrow> ('f, 'v) task_queues \<Rightarrow>
   ('f, 'v) task_queues" where
  "change_task i f q = (\<lambda>p. map (\<lambda>(k, b, h). (k, b, if k = i then f h else h)) (q p))"

primrec rs_spec :: "('f, 'v) rs_op \<Rightarrow> ('f, 'v) task_queues \<Rightarrow> bool \<times> ('f, 'v) task_queues" where
  "rs_spec (Ro_Add i d) q = (if queued i q then (False, q) else (True, put_task i (rs_entry d) q))"
| "rs_spec (Ro_Remove i) q = (queued i q, drop_task i q)"
| "rs_spec (Ro_Priority i p) q = (queued i q, move_task i p q)"
| "rs_spec (Ro_Update i fp) q =
     (queued i q, change_task i (setBoundOrFreeFunction (function_of_pointer fp)) q)"
| "rs_spec (Ro_Update_parameters i f args) q =
     (queued i q, change_task i (setFunction (Some f) args) q)"

text \<open>The scheduler holds such queues, and its lookup says in which one an identifier is.\<close>

definition rs_queues :: "('f, 'v) scheduler_runslice \<Rightarrow> ('f, 'v) task_queues" where
  "rs_queues s = (\<lambda>p. queue_of p s)"

definition rs_exact :: "('f, 'v) scheduler_runslice \<Rightarrow> bool" where
  "rs_exact s \<longleftrightarrow> umap_ok (scheduler_is_priority_lookup s) \<and>
     (\<forall>p. distinct (map fst (queue_of p s))) \<and>
     (\<forall>i p. i \<in> fst ` set (queue_of p s) \<longleftrightarrow> map_of (scheduler_is_priority_lookup s) i = Some p)"

lemma rs_exact_new: "rs_exact runslice_new" "rs_queues runslice_new = (\<lambda>_. [])"
  by (simp_all add: rs_exact_def rs_queues_def queue_of_def runslice_new_def debug_status.defs
      scheduler_runslice.defs fun_eq_iff)

lemma queued_lookup:
  "rs_exact s \<Longrightarrow> queued i (rs_queues s) \<longleftrightarrow> map_of (scheduler_is_priority_lookup s) i \<noteq> None"
  by (auto simp: queued_def rs_queues_def rs_exact_def image_Un)

lemma rs_exact_task:
  assumes "rs_exact s" and "map_of (scheduler_is_priority_lookup s) i = Some p"
  obtains xs b h ys where "queue_of p s = xs @ (i, b, h) # ys" and "i \<notin> fst ` set xs"
    and "i \<notin> fst ` set ys" and "i \<notin> fst ` set (queue_of (\<not> p) s)"
proof -
  from assms have "i \<in> fst ` set (queue_of p s)" by (simp add: rs_exact_def)
  then obtain xs x ys where q: "queue_of p s = xs @ (i, x) # ys" "i \<notin> fst ` set xs"
    by (rule split_first_key)
  moreover have "distinct (map fst (queue_of p s))"
    using assms(1) by (simp add: rs_exact_def)
  then have "i \<notin> fst ` set ys" using q by auto
  moreover have "i \<notin> fst ` set (queue_of (\<not> p) s)"
    using assms by (auto simp: rs_exact_def)
  ultimately show thesis using that by (cases x) auto
qed

lemma rs_queues_updates [simp]:
  "rs_queues (s\<lparr>scheduler_is_priority_lookup := m\<rparr>) = rs_queues s"
  "rs_queues (s\<lparr>debug_class_return_code := c, debug_class_status := t\<rparr>) = rs_queues s"
  "rs_queues (set_queue p q s) = (rs_queues s)(p := q)"
  by (auto simp: rs_queues_def queue_of_set_queue_if fun_eq_iff)

lemma rs_exact_status [simp]:
  "rs_exact (s\<lparr>debug_class_return_code := c, debug_class_status := t\<rparr>) \<longleftrightarrow> rs_exact s"
  by (simp add: rs_exact_def)

subsection \<open>The operations simulate it\<close>

lemma change_queue_other:
  "i \<notin> fst ` set q \<Longrightarrow> map (\<lambda>(k, b, h). (k, b, if k = i then f h else h)) q = q"
  by (rule map_idI) force

lemma rs_unknown_queues:
  assumes "\<not> queued i q"
  shows "drop_task i q = q" "move_task i p q = q" "change_task i f q = q"
proof -
  have "i \<notin> fst ` set (q r)" for r
    using assms by (cases r) (auto simp: queued_def image_Un)
  then show "drop_task i q = q" "move_task i p q = q" "change_task i f q = q"
    by (auto simp: drop_task_def move_task_def change_task_def filter_key_absent
        change_queue_other fun_eq_iff)
qed

lemma rs_exact_add:
  assumes "rs_exact s"
  shows "\<exists>s'. rs_add i d s = Inr (fst (rs_spec (Ro_Add i d) (rs_queues s)), s') \<and> rs_exact s' \<and>
    rs_queues s' = snd (rs_spec (Ro_Add i d) (rs_queues s))"
proof (cases "map_of (scheduler_is_priority_lookup s) i")
  case None
  obtain p b h where d: "rs_entry d = (p, b, h)" by (cases "rs_entry d") auto
  with None have add: "rs_add i d s = Inr (True, rs_insert i h p b s)"
    by (cases d) (auto simp: rs_enqueue_defs Let_def)
  have q: "queue_of r (rs_insert i h p b s) = (if r = p then (i, b, h) # queue_of p s else queue_of r s)"
    and l: "scheduler_is_priority_lookup (rs_insert i h p b s) = (i, p) # scheduler_is_priority_lookup s"
    for r using None by (auto simp: rs_insert_def queue_of_def umap_emplace_def Let_def)
  have "i \<notin> fst ` set (queue_of r s)" for r
    using assms None by (auto simp: rs_exact_def)
  then have "rs_exact (rs_insert i h p b s)"
    using assms None by (auto simp: rs_exact_def q l split: if_splits)
  moreover have "rs_queues (rs_insert i h p b s) = put_task i (rs_entry d) (rs_queues s)"
    by (auto simp: rs_queues_def put_task_def q d fun_eq_iff)
  ultimately show ?thesis
    using add queued_lookup [OF assms, of i] None by simp
next
  case (Some p)
  then have "rs_add i d s = Inr (False, s\<lparr>debug_class_return_code := Some 1,
      debug_class_status := ''Allocation failed''\<rparr>)"
    by (cases d) (auto simp: rs_enqueue_defs Let_def)
  with assms Some queued_lookup [OF assms, of i] show ?thesis by simp
qed

lemma rs_exact_remove:
  assumes "rs_exact s"
  shows "\<exists>s'. rs_removeRegistration i s = Inr (queued i (rs_queues s), s') \<and> rs_exact s' \<and>
    rs_queues s' = drop_task i (rs_queues s)"
proof (cases "map_of (scheduler_is_priority_lookup s) i")
  case None
  with assms rs_remove_unknown [of s i] queued_lookup [OF assms, of i]
    rs_unknown_queues(1) [of i "rs_queues s"] show ?thesis by simp
next
  case (Some p)
  obtain xs b h ys where q: "queue_of p s = xs @ (i, b, h) # ys" "i \<notin> fst ` set xs"
    "i \<notin> fst ` set ys" "i \<notin> fst ` set (queue_of (\<not> p) s)"
    by (rule rs_exact_task [OF assms Some])
  let ?s = "set_queue p (xs @ ys) s
    \<lparr>scheduler_is_priority_lookup := umap_erase i (scheduler_is_priority_lookup s)\<rparr>"
  have dist: "distinct (map fst (xs @ (i, b, h) # ys))"
    using assms q(1) by (metis rs_exact_def)
  have qs: "rs_queues ?s = drop_task i (rs_queues s)"
    using distinct_key_filter(1) [OF dist] q(1,4)
    by (auto simp: drop_task_def rs_queues_def queue_of_set_queue_if filter_key_absent fun_eq_iff)
  have set: "fst ` set (queue_of r ?s) = fst ` set (queue_of r s) - {i}" for r
    using q by (cases "r = p") (auto simp: queue_of_set_queue_if)
  have "distinct (map fst (queue_of r ?s))" for r
    using assms dist by (auto simp: rs_exact_def queue_of_set_queue_if)
  moreover have "k \<in> fst ` set (queue_of r ?s) \<longleftrightarrow>
      map_of (scheduler_is_priority_lookup ?s) k = Some r" for k r
    unfolding set using assms by (auto simp: rs_exact_def)
  ultimately have "rs_exact ?s"
    using assms unfolding rs_exact_def by simp
  with rs_remove_first [OF Some q(1,2)] qs queued_lookup [OF assms, of i] Some show ?thesis by simp
qed

lemma rs_exact_priority:
  assumes "rs_exact s"
  shows "\<exists>s'. rs_updateRegistrationPriority i p' s = Inr (queued i (rs_queues s), s') \<and> rs_exact s' \<and>
    rs_queues s' = move_task i p' (rs_queues s)"
proof (cases "map_of (scheduler_is_priority_lookup s) i")
  case None
  with assms rs_updatePriority_unknown [of s i p'] queued_lookup [OF assms, of i]
    rs_unknown_queues(2) [of i "rs_queues s" p'] show ?thesis by simp
next
  case (Some p)
  obtain xs b h ys where q: "queue_of p s = xs @ (i, b, h) # ys" "i \<notin> fst ` set xs"
    "i \<notin> fst ` set ys" "i \<notin> fst ` set (queue_of (\<not> p) s)"
    by (rule rs_exact_task [OF assms Some])
  have dist: "distinct (map fst (xs @ (i, b, h) # ys))"
    using assms q(1) by (metis rs_exact_def)
  show ?thesis
  proof (cases "p' = p")
    case True
    have "move_task i p (rs_queues s) = rs_queues s"
    proof
      fix r
      show "move_task i p (rs_queues s) r = rs_queues s r"
        using q(4) by (cases "r = p") (auto simp: move_task_def rs_queues_def filter_key_absent)
    qed
    with True rs_updatePriority_same [OF Some] assms queued_lookup [OF assms, of i] Some
    show ?thesis by (simp add: rs_exact_def)
  next
    case False
    then have p': "p' = (\<not> p)" by auto
    let ?s = "set_queue p (xs @ ys) (set_queue (\<not> p) ((i, b, h) # queue_of (\<not> p) s) s)
      \<lparr>scheduler_is_priority_lookup := umap_store i (\<not> p) (scheduler_is_priority_lookup s)\<rparr>"
    have qr: "queue_of r ?s = (if r = p then xs @ ys else (i, b, h) # queue_of (\<not> p) s)" for r
      by (simp add: queue_of_set_queue_if)
    have qs: "rs_queues ?s = move_task i p' (rs_queues s)"
    proof
      fix r
      show "rs_queues ?s r = move_task i p' (rs_queues s) r"
        using distinct_key_filter [OF dist] q(1) unfolding rs_queues_def qr
        by (cases "r = p") (simp_all add: move_task_def p')
    qed
    have "distinct (map fst (queue_of r ?s))" for r
      using assms dist q(4) unfolding qr by (auto simp: rs_exact_def)
    moreover have "k \<in> fst ` set (queue_of r ?s) \<longleftrightarrow>
        map_of (scheduler_is_priority_lookup ?s) k = Some r" for k r
    proof (cases "k = i")
      case True
      with q Some show ?thesis unfolding qr by auto
    next
      case no: False
      have "k \<in> fst ` set (queue_of r ?s) \<longleftrightarrow> k \<in> fst ` set (queue_of r s)"
        using no q(1) unfolding qr by (cases "r = p") auto
      with no assms Some show ?thesis by (simp add: rs_exact_def)
    qed
    ultimately have "rs_exact ?s"
      using assms unfolding rs_exact_def by simp
    with rs_updatePriority_first [OF Some q(1,2)] qs p' queued_lookup [OF assms, of i] Some
    show ?thesis by simp
  qed
qed

lemma rs_exact_update:
  assumes "rs_exact s"
  shows "\<exists>s'. rs_update_with (\<lambda>h. Inr (f h)) i s = Inr (queued i (rs_queues s), s') \<and> rs_exact s' \<and>
    rs_queues s' = change_task i f (rs_queues s)"
proof (cases "map_of (scheduler_is_priority_lookup s) i")
  case None
  with assms rs_update_with_unknown [of s i] queued_lookup [OF assms, of i]
    rs_unknown_queues(3) [of i "rs_queues s" f] show ?thesis by simp
next
  case (Some p)
  obtain xs b h ys where q: "queue_of p s = xs @ (i, b, h) # ys" "i \<notin> fst ` set xs"
    "i \<notin> fst ` set ys" "i \<notin> fst ` set (queue_of (\<not> p) s)"
    by (rule rs_exact_task [OF assms Some])
  let ?s = "set_queue p (xs @ (i, b, f h) # ys) s"
  have keys: "map fst (queue_of r ?s) = map fst (queue_of r s)" for r
    using q(1) by (simp add: queue_of_set_queue_if)
  then have set: "fst ` set (queue_of r ?s) = fst ` set (queue_of r s)" for r
    by (metis list.set_map)
  have "rs_queues ?s = change_task i f (rs_queues s)"
  proof
    fix r
    show "rs_queues ?s r = change_task i f (rs_queues s) r"
      using q by (cases "r = p")
        (auto simp: change_task_def rs_queues_def queue_of_set_queue_if change_queue_other)
  qed
  moreover have "rs_exact ?s"
    using assms unfolding rs_exact_def keys set by simp
  ultimately show ?thesis
    using rs_update_with_first [OF Some q(1,2), of f] queued_lookup [OF assms, of i] Some by simp
qed

interpretation rs_queue: simulation rs_exact rs_queues rs_step rs_spec
proof unfold_locales
  fix s :: "('f, 'v) scheduler_runslice" and op
  assume "rs_exact s"
  note steps = rs_exact_add [OF this] rs_exact_remove [OF this] rs_exact_priority [OF this]
    rs_exact_update [OF this]
  show "\<exists>s'. rs_step op s = Inr (fst (rs_spec op (rs_queues s)), s') \<and> rs_exact s' \<and>
    rs_queues s' = snd (rs_spec op (rs_queues s))"
    using steps by (cases op) (simp_all add: rs_updates_with)
qed

text \<open>Claim C1.  The two run queues are exactly what the client has asked for, in order.  From a new
  scheduler, every sequence of registrations (with or without parameters), removals, changes of
  priority and replacements of the callback returns, call by call, the flags of the specification
  on two plain queues, and leaves exactly its queues: a taken identifier is refused, a new task is
  at the front of its queue, a removed one is in no queue, and a moved one is at the front of the
  other queue only.  The lookup names for each identifier the queue that has it.\<close>

theorem runslice_refines_queues:
  "\<exists>s'. ops_run rs_step ops runslice_new = Inr (fst (ops_spec rs_spec ops (\<lambda>_. [])), s') \<and>
    (\<forall>p. queue_of p s' = snd (ops_spec rs_spec ops (\<lambda>_. [])) p) \<and>
    (\<forall>p i. map_of (scheduler_is_priority_lookup s') i = Some p \<longleftrightarrow>
      i \<in> fst ` set (snd (ops_spec rs_spec ops (\<lambda>_. [])) p))"
proof -
  obtain s' where s': "ops_run rs_step ops runslice_new =
      Inr (fst (ops_spec rs_spec ops (\<lambda>_. [])), s')" "rs_exact s'"
    "rs_queues s' = snd (ops_spec rs_spec ops (\<lambda>_. []))"
    using rs_queue.run_simulates [OF rs_exact_new(1), of ops] by (auto simp: rs_exact_new(2))
  have "queue_of p s' = snd (ops_spec rs_spec ops (\<lambda>_. [])) p" for p
    using s'(3) by (metis rs_queues_def)
  with s'(1,2) show ?thesis
    by (auto simp: rs_exact_def)
qed

text \<open>Claim C33.  Changing the priority of a task and changing it back.  On every scheduler whose
  tables are consistent, a registered task (the first element of its queue with the identifier)
  is taken out of its queue and put at the front of the other one, and the way back takes it out of
  that one again: the other queue is as it was, the own queue holds every other element in its
  old order, and the task, with its callback and persistence, is at its front.  The registrations
  are the same as before; the place in the queue is, if it was the front.\<close>

theorem priority_move_roundtrip:
  assumes "rs_inv s" and "map_of (scheduler_is_priority_lookup s) i = Some p"
    and "queue_of p s = xs @ (i, b, h) # ys" and "i \<notin> fst ` set xs"
  shows "\<exists>s1 s2. rs_updateRegistrationPriority i (\<not> p) s = Inr (True, s1) \<and>
    queue_of p s1 = xs @ ys \<and> queue_of (\<not> p) s1 = (i, b, h) # queue_of (\<not> p) s \<and>
    rs_view s1 = (rs_view s)(i \<mapsto> (\<not> p, b, h)) \<and>
    rs_updateRegistrationPriority i p s1 = Inr (True, s2) \<and>
    queue_of p s2 = (i, b, h) # xs @ ys \<and> queue_of (\<not> p) s2 = queue_of (\<not> p) s \<and>
    rs_inv s2 \<and> rs_view s2 = rs_view s"
proof -
  have v: "rs_view s i = Some (p, b, h)"
    using assms(2-4) by (simp add: rs_view_Some map_add_Some_iff map_of_eq_None_iff)
  obtain s1 where 1: "rs_updateRegistrationPriority i (\<not> p) s = Inr (True, s1)" "rs_inv s1"
    "rs_view s1 = (rs_view s)(i \<mapsto> (\<not> p, b, h))"
    by (rule rs_updatePriority_known [OF assms(1) v])
  have s1: "s1 = set_queue p (xs @ ys) (set_queue (\<not> p) ((i, b, h) # queue_of (\<not> p) s) s)
      \<lparr>scheduler_is_priority_lookup := umap_store i (\<not> p) (scheduler_is_priority_lookup s)\<rparr>"
    using 1(1) rs_updatePriority_first [OF assms(2-4)] by simp
  then have q1: "queue_of p s1 = xs @ ys" "queue_of (\<not> p) s1 = (i, b, h) # queue_of (\<not> p) s"
    by (simp_all add: queue_of_set_queue_if)
  have v1: "rs_view s1 i = Some (\<not> p, b, h)" using 1(3) by simp
  then have l1: "map_of (scheduler_is_priority_lookup s1) i = Some (\<not> p)"
    by (simp add: rs_view_Some)
  obtain s2 where 2: "rs_updateRegistrationPriority i p s1 = Inr (True, s2)" "rs_inv s2"
    "rs_view s2 = (rs_view s1)(i \<mapsto> (p, b, h))"
    by (rule rs_updatePriority_known [OF 1(2) v1])
  have "s2 = set_queue (\<not> p) (queue_of (\<not> p) s) (set_queue p ((i, b, h) # queue_of p s1) s1)
      \<lparr>scheduler_is_priority_lookup := umap_store i p (scheduler_is_priority_lookup s1)\<rparr>"
    using 2(1) rs_updatePriority_first [OF l1, of "[]" "(b, h)" "queue_of (\<not> p) s"] q1(2) by simp
  then have "queue_of p s2 = (i, b, h) # xs @ ys" "queue_of (\<not> p) s2 = queue_of (\<not> p) s"
    using q1(1) by (simp_all add: queue_of_set_queue_if)
  moreover have "rs_view s2 = rs_view s"
    using 2(3) 1(3) v by (simp add: fun_upd_idem)
  ultimately show ?thesis using 1(1,3) q1 2(1,2) by blast
qed

theorem priority_move_roundtrip_witness:
  "\<exists>s s1 s2. rs_enqueueRegistration 4 (Some ()) False True (runslice_new :: (unit, unit) scheduler_runslice)
      = Inr (True, s) \<and>
    rs_updateRegistrationPriority 4 True s = Inr (True, s1) \<and> queue_of False s1 = [] \<and>
    rs_updateRegistrationPriority 4 False s1 = Inr (True, s2) \<and>
    queue_of False s2 = queue_of False s \<and> queue_of True s2 = []"
proof -
  let ?h = "setBoundOrFreeFunction (function_of_pointer (Some ())) (handler_new None)"
  let ?s = "rs_insert 4 ?h False True (runslice_new :: (unit, unit) scheduler_runslice)"
  have new: "rs_enqueueRegistration 4 (Some ()) False True
      (runslice_new :: (unit, unit) scheduler_runslice) = Inr (True, ?s)"
    by (simp add: rs_enqueue_defs runslice_new_def debug_status.defs scheduler_runslice.defs)
  have "rs_inv ?s"
    by (rule rs_insert_step(1) [OF rs_inv_new(1)])
      (simp add: runslice_new_def debug_status.defs scheduler_runslice.defs)
  moreover have "map_of (scheduler_is_priority_lookup ?s) 4 = Some False"
    and q: "queue_of False ?s = [(4, True, ?h)]" "queue_of True ?s = []"
    by (simp_all add: rs_insert_def umap_emplace_def queue_of_def runslice_new_def
        debug_status.defs scheduler_runslice.defs)
  ultimately show ?thesis
    using priority_move_roundtrip [of ?s 4 False "[]" True ?h "[]"] new by fastforce
qed

section \<open>Running\<close>

lemma advance_runs_last_zero [simp]: "advance_runs_last m 0 = 0"
  by (cases m) (simp_all add: advance_runs_last_def char_of_bool_def PRIORITY_CYCLES_def)

lemma runs_last_idem [simp]:
  "scheduler_priority_runs_last s = 0 \<Longrightarrow> s\<lparr>scheduler_priority_runs_last := 0\<rparr> = s"
  by simp

text \<open>The task a run executes, and the effect of executing it.\<close>

definition rs_next :: "('f, 'v) scheduler_runslice \<Rightarrow> ('f, 'v) task_queue" where
  "rs_next s = (if scheduler_mode s = Priority_only_round_robin \<or> scheduler_normal_queue s = []
     then scheduler_priority_queue s else scheduler_normal_queue s)"

definition rs_execute ::
  "('f, 'v, 'w) rs_code \<Rightarrow> int \<times> bool \<times> ('f, 'v) handler_callback \<Rightarrow>
   ('f, 'v) scheduler_runslice \<Rightarrow> 'w \<Rightarrow> (('f, 'v) scheduler_runslice \<times> 'w) outcome" where
  "rs_execute prog task s w = (case task of (i, persist, h) \<Rightarrow>
     bind_o (handler_run prog h (s, w)) (\<lambda>(s1, w1). Inr (if persist then s1
       else s1\<lparr>scheduler_is_priority_lookup := umap_erase i (scheduler_is_priority_lookup s1)\<rparr>, w1)))"

lemma rs_runOperationInline_eq:
  "q \<noteq> [] \<Longrightarrow> bind_o (rs_runOperationInline prog q s w) (\<lambda>(_, s1, w1). k (s1, w1)) =
     bind_o (rs_execute prog (last q) s w) k"
  by (cases "last q"; cases "fst (snd (last q))")
    (auto simp: rs_runOperationInline_def rs_execute_def bind_o_def split: sum.splits prod.splits)

lemma rs_some_queue:
  assumes "rs_inv s" and "scheduler_is_priority_lookup s \<noteq> []" and "scheduler_normal_queue s = []"
  shows "scheduler_priority_queue s \<noteq> []"
proof -
  obtain i p m where "scheduler_is_priority_lookup s = (i, p) # m"
    using assms(2) by (metis neq_Nil_conv surj_pair)
  then have "map_of (scheduler_is_priority_lookup s) i = Some p" by simp
  with assms(1) have "map_of (queue_of p s) i \<noteq> None"
    unfolding rs_inv_def by blast
  with assms(3) show ?thesis
    by (cases p) (auto simp: queue_of_def)
qed

lemma rs_run_execute:
  assumes s: "rs_inv s"
    and keeps: "\<And>t s' w'. rs_execute prog t s w = Inr (s', w') \<Longrightarrow> scheduler_priority_runs_last s' = 0"
  shows "rs_run prog s w = (if scheduler_is_priority_lookup s = [] \<or> rs_next s = []
    then Inl Assertion_Failed else rs_execute prog (last (rs_next s)) s w)"
proof (cases "scheduler_is_priority_lookup s = []")
  case True
  then show ?thesis by (simp add: rs_run_def)
next
  case False
  have z: "scheduler_priority_runs_last s = 0"
    using s by (simp add: rs_inv_def)
  have idem: "bind_o (rs_execute prog t s w) (\<lambda>(s1, w1). Inr (s1\<lparr>scheduler_priority_runs_last :=
      g (scheduler_priority_runs_last s1) s1\<rparr>, w1)) = rs_execute prog t s w"
    if "\<And>s. g 0 s = 0" for t and g :: "8 word \<Rightarrow> ('a, 'b) scheduler_runslice \<Rightarrow> 8 word"
    using keeps [of t] that by (cases "rs_execute prog t s w") auto
  show ?thesis
  proof (cases "scheduler_mode s = Priority_only_round_robin")
    case True
    then show ?thesis
      using False rs_runOperationInline_eq [of "scheduler_priority_queue s" prog s w
          "\<lambda>(s1, w1). Inr (s1\<lparr>scheduler_priority_runs_last := 0\<rparr>, w1)"] idem [of "\<lambda>_ _. 0"]
      by (auto simp: rs_run_def rs_next_def)
  next
    case mode: False
    let ?g = "\<lambda>n s1. advance_runs_last (scheduler_mode s1) n"
    have ne: "rs_next s \<noteq> []"
      using rs_some_queue [OF s False] mode by (auto simp: rs_next_def)
    have "rs_run prog s w = bind_o (rs_runOperationInline prog (rs_next s) s w) (\<lambda>(_, s1, w1).
        Inr (s1\<lparr>scheduler_priority_runs_last := advance_runs_last (scheduler_mode s1)
          (scheduler_priority_runs_last s1)\<rparr>, w1))"
      using mode False z by (auto simp: rs_run_def rs_next_def)
    with rs_runOperationInline_eq [OF ne, of prog s w "\<lambda>(s1, w1). Inr
        (s1\<lparr>scheduler_priority_runs_last := advance_runs_last (scheduler_mode s1)
          (scheduler_priority_runs_last s1)\<rparr>, w1)"] idem [of ?g] ne False
    show ?thesis by simp
  qed
qed

section \<open>Reachable schedulers\<close>

inductive rs_reach :: "('f, 'v, 'w) rs_code \<Rightarrow> ('f, 'v) scheduler_runslice \<Rightarrow> bool"
  for prog :: "('f, 'v, 'w) rs_code" where
  construct: "rs_reach prog runslice_new"
| enqueue: "rs_reach prog s \<Longrightarrow> rs_add i d s = Inr (r, s') \<Longrightarrow> rs_reach prog s'"
| remove: "rs_reach prog s \<Longrightarrow> rs_removeRegistration i s = Inr (r, s') \<Longrightarrow> rs_reach prog s'"
| update: "rs_reach prog s \<Longrightarrow> rs_updateRegistration i fp s = Inr (r, s') \<Longrightarrow> rs_reach prog s'"
| update_parameters: "rs_reach prog s \<Longrightarrow>
    rs_updateRegistrationParameters i (Some f) args s = Inr (r, s') \<Longrightarrow> rs_reach prog s'"
| update_parameters_only: "rs_reach prog s \<Longrightarrow>
    rs_updateRegistrationParametersOnly i args s = Inr (r, s') \<Longrightarrow> rs_reach prog s'"
| update_priority: "rs_reach prog s \<Longrightarrow>
    rs_updateRegistrationPriority i p s = Inr (r, s') \<Longrightarrow> rs_reach prog s'"
| set_mode: "rs_reach prog s \<Longrightarrow> rs_reach prog (rs_setAlgorithmMode m s)"
| run: "rs_reach prog s \<Longrightarrow> rs_run prog s w = Inr (s', w') \<Longrightarrow> rs_reach prog s'"
| clean: "rs_reach prog s \<Longrightarrow> rs_reach prog (rs_clean s)"

lemma rs_clean_step [simp]: "rs_inv (rs_clean s)" "rs_view (rs_clean s) = Map.empty"
  by (simp_all add: rs_clean_def rs_inv_def rs_view_def Let_def fun_eq_iff)

lemma rs_updatePriority_inv:
  assumes "rs_inv s" and "rs_updateRegistrationPriority i p s = Inr (r, s')"
  shows "rs_inv s'"
proof (cases "rs_view s i")
  case None
  with assms rs_view_None_iff [OF assms(1)] show ?thesis
    by (auto simp: rs_updatePriority_unknown)
next
  case (Some x)
  then obtain p0 b h where "rs_view s i = Some (p0, b, h)" by (cases x) auto
  from rs_updatePriority_known [OF assms(1) this, of p] assms(2) show ?thesis
    by (metis prod.inject sum.inject(2))
qed

lemma rs_add_inv: "rs_inv s \<Longrightarrow> rs_add i d s = Inr (r, s') \<Longrightarrow> rs_inv s'"
  using rs_reg.add_step [of s i d] by (metis prod.inject sum.inject(2))

lemma rs_remove_inv: "rs_inv s \<Longrightarrow> rs_removeRegistration i s = Inr (r, s') \<Longrightarrow> rs_inv s'"
  using rs_reg.del_step [of s i] by (metis prod.inject sum.inject(2))

lemmas rs_keeps_inv = rs_add_inv rs_remove_inv rs_update_with_inv rs_updatePriority_inv

text \<open>
  The contract between the scheduler and the functions it runs: they may change it, but leave its
  tables consistent.  Every operation of the class does, so all code that only calls them does.
\<close>

locale runslice_client =
  fixes prog :: "('f, 'v, 'w) rs_code"
  assumes keeps_inv: "rs_inv s \<Longrightarrow> prog f args (s, w) = Inr (s', w') \<Longrightarrow> rs_inv s'"
begin

lemma execute_inv:
  assumes "rs_inv s" and "rs_execute prog t s w = Inr (s', w')"
  shows "rs_inv s'"
proof -
  obtain i b h where t: "t = (i, b, h)" by (cases t) auto
  with assms(2) obtain s1 where run: "handler_run prog h (s, w) = Inr (s1, w')"
    and s': "s' = (if b then s1
      else s1\<lparr>scheduler_is_priority_lookup := umap_erase i (scheduler_is_priority_lookup s1)\<rparr>)"
    by (auto simp: rs_execute_def outcome_rules)
  obtain f args where "prog f args (s, w) = Inr (s1, w')"
    by (rule handler_run_returns [OF run])
  then have "rs_inv s1" by (rule keeps_inv [OF assms(1)])
  with s' show ?thesis by (simp add: rs_drop_lookup)
qed

lemma run_spec:
  assumes "rs_inv s"
  shows "rs_run prog s w = (if scheduler_is_priority_lookup s = [] \<or> rs_next s = []
    then Inl Assertion_Failed else rs_execute prog (last (rs_next s)) s w)"
  by (rule rs_run_execute [OF assms]) (use execute_inv [OF assms] in \<open>simp add: rs_inv_def\<close>)

lemma run_inv: "rs_inv s \<Longrightarrow> rs_run prog s w = Inr (s', w') \<Longrightarrow> rs_inv s'"
  by (auto simp: run_spec intro: execute_inv split: if_splits)

lemma reach_inv: "rs_reach prog s \<Longrightarrow> rs_inv s"
  by (induction rule: rs_reach.induct)
    (auto simp: rs_inv_new rs_updates_with rs_setAlgorithmMode_def intro: rs_keeps_inv run_inv)

end

text \<open>Functions that leave the scheduler alone.\<close>

interpretation rs_world: runslice_client "world_code prog"
  by unfold_locales (auto simp: world_code_def outcome_rules)

lemma rs_execute_world:
  "rs_execute (world_code prog) (i, b, h) s w = bind_o (handler_run prog h w) (\<lambda>w'. Inr (if b then s
     else s\<lparr>scheduler_is_priority_lookup := umap_erase i (scheduler_is_priority_lookup s)\<rparr>, w'))"
  by (simp add: rs_execute_def handler_run_world_code bind_o_assoc)

section \<open>Properties\<close>

text \<open>A scheduler with one priority task, one normal task and a world that logs their names.\<close>

definition log_code :: "(string, unit, string list) user_code" where
  "log_code f args w = Inr (w @ [f])"

definition two_tasks :: "bool \<Rightarrow> (string, unit) scheduler_runslice outcome" where
  "two_tasks persist =
     bind_o (rs_enqueueRegistration 1 (Some ''normal'') False persist runslice_new) (\<lambda>(_, s1).
     bind_o (rs_enqueueRegistration 2 (Some ''priority'') True True s1) (\<lambda>(_, s2). Inr s2))"

definition two_task_state :: "bool \<Rightarrow> (string, unit) scheduler_runslice" where
  "two_task_state persist = (case two_tasks persist of Inl _ \<Rightarrow> runslice_new | Inr s \<Rightarrow> s)"

lemma two_task_state_eq:
  "two_task_state b = runslice_new
     \<lparr>scheduler_normal_queue := [(1, b, setBoundOrFreeFunction
        (Some (Bound (Some ''normal'') [])) (handler_new None))],
      scheduler_priority_queue := [(2, True, setBoundOrFreeFunction
        (Some (Bound (Some ''priority'') [])) (handler_new None))],
      scheduler_is_priority_lookup := [(2, True), (1, False)]\<rparr>"
  by (simp add: two_task_state_def two_tasks_def rs_enqueue_defs rs_insert_def umap_emplace_def
      function_of_pointer_def runslice_new_def debug_status.defs scheduler_runslice.defs Let_def)

lemma two_task_reach: "rs_reach prog (two_task_state b)"
proof -
  obtain s1 where 1: "rs_add 1 (Rs_Free (Some ''normal'') False b)
      (runslice_new :: (string, unit) scheduler_runslice) = Inr (True, s1)" "rs_inv s1"
    "rs_view s1 = Map.empty(1 \<mapsto> rs_entry (Rs_Free (Some ''normal'') False b))"
    using rs_add_fresh [OF rs_inv_new(1), of 1 "Rs_Free (Some ''normal'') False b"]
    by (auto simp: rs_inv_new(2))
  then obtain s2 where 2: "rs_add 2 (Rs_Free (Some ''priority'') True True) s1 = Inr (True, s2)"
    using rs_add_fresh [OF 1(2), of 2 "Rs_Free (Some ''priority'') True True"] by auto
  have "rs_reach prog s2"
    by (rule rs_reach.enqueue [OF rs_reach.enqueue [OF rs_reach.construct 1(1)] 2])
  moreover have "two_task_state b = s2"
    using 1(1) 2 by (simp add: two_task_state_def two_tasks_def)
  ultimately show ?thesis by simp
qed

lemma runslice_new_simps [simp]:
  "scheduler_mode runslice_new = Round_robin"
  "scheduler_priority_runs_last runslice_new = 0"
  "scheduler_normal_queue runslice_new = []"
  "scheduler_priority_queue runslice_new = []"
  "scheduler_is_priority_lookup runslice_new = []"
  by (simp_all add: runslice_new_def debug_status.defs scheduler_runslice.defs)

text \<open>Calling \<open>run\<close> again and again.\<close>

fun rs_runs ::
  "('f, 'v, 'w) rs_code \<Rightarrow> nat \<Rightarrow> ('f, 'v) scheduler_runslice \<Rightarrow> 'w \<Rightarrow>
   (('f, 'v) scheduler_runslice \<times> 'w) outcome" where
  "rs_runs prog 0 s w = Inr (s, w)"
| "rs_runs prog (Suc n) s w = bind_o (rs_run prog s w) (\<lambda>(s1, w1). rs_runs prog n s1 w1)"

lemma rs_runs_add:
  "rs_runs prog (m + n) s w = bind_o (rs_runs prog m s w) (\<lambda>(s1, w1). rs_runs prog n s1 w1)"
proof (induction m arbitrary: s w)
  case (Suc m)
  show ?case by (cases "rs_run prog s w") (auto simp: Suc.IH)
qed simp

text \<open>Claim C35.  The round robin never rotates.  \<open>runOperationInline\<close> moves the task it ran on a
  copy of the list, so as long as the client only calls \<open>run\<close>, a persistent task at the back is
  called at every run, the other tasks at none, and the scheduler stays as it was.\<close>

theorem round_robin_never_rotates:
  assumes "rs_reach (world_code prog) s" and "scheduler_is_priority_lookup s \<noteq> []" and "rs_next s \<noteq> []"
    and "last (rs_next s) = (i, True, h)"
  shows "rs_runs (world_code prog) n s w = bind_o (call_repeatedly prog h n w) (\<lambda>w'. Inr (s, w'))"
proof -
  have run: "rs_run (world_code prog) s w = bind_o (handler_run prog h w) (\<lambda>w'. Inr (s, w'))" for w
    using rs_world.run_spec [OF rs_world.reach_inv [OF assms(1)], of prog w] assms(2-4)
    by (simp add: rs_execute_world)
  show ?thesis
    by (induction n arbitrary: w) (simp_all add: run bind_o_assoc)
qed

theorem round_robin_never_rotates_witness:
  "rs_runs (world_code log_code) 3 (two_task_state True) [] =
     Inr (two_task_state True, [''normal'', ''normal'', ''normal''])"
  using round_robin_never_rotates [OF two_task_reach [of "world_code log_code" True], of 1
      "setBoundOrFreeFunction (Some (Bound (Some ''normal'') [])) (handler_new None)" 3 "[]"]
  by (simp add: two_task_state_eq rs_next_def log_code_def numeral_3_eq_3)

text \<open>A finished task comes back.  A task that should run once loses its registration when
  it has run, but stays in its queue: while any other identifier is registered, the next \<open>run\<close>
  calls the same callback again, although the scheduler no longer knows its identifier.\<close>

theorem finished_task_runs_again:
  assumes "rs_reach (world_code prog) s" and "rs_next s \<noteq> []" and "last (rs_next s) = (i, False, h)"
    and "handler_run prog h w = Inr w'" and "rs_view s k \<noteq> None" and "k \<noteq> i"
  shows "\<exists>s'. rs_run (world_code prog) s w = Inr (s', w') \<and> rs_view s' = (rs_view s)(i := None) \<and>
    rs_run (world_code prog) s' w' = bind_o (handler_run prog h w') (\<lambda>w''. Inr (s', w''))"
proof -
  have inv: "rs_inv s" by (rule rs_world.reach_inv [OF assms(1)])
  let ?s = "s\<lparr>scheduler_is_priority_lookup := umap_erase i (scheduler_is_priority_lookup s)\<rparr>"
  have next': "rs_next ?s = rs_next s" by (simp add: rs_next_def)
  have "map_of (scheduler_is_priority_lookup s) k \<noteq> None"
    using assms(5) rs_view_None_iff [OF inv, of k] by simp
  then have ne: "scheduler_is_priority_lookup s \<noteq> []" "scheduler_is_priority_lookup ?s \<noteq> []"
    using assms(6) by (auto simp: umap_empty_iff)
  have "rs_run (world_code prog) s w = Inr (?s, w')"
    using rs_world.run_spec [OF inv, of prog w] ne(1) assms(2-4) by (simp add: rs_execute_world)
  moreover have "umap_erase i (umap_erase i m) = umap_erase i m" for m :: "(int, bool) umap"
    by (simp add: umap_erase_def)
  then have "rs_run (world_code prog) ?s w' = bind_o (handler_run prog h w') (\<lambda>w''. Inr (?s, w''))"
    using rs_world.run_spec [OF rs_drop_lookup(1) [OF inv, of i], of prog w'] ne(2) assms(2,3) next'
    by (simp add: rs_execute_world)
  ultimately show ?thesis
    using rs_drop_lookup(2) [OF inv, of i] by blast
qed

theorem finished_task_runs_again_witness:
  "\<exists>s'. rs_run (world_code log_code) (two_task_state False) [] = Inr (s', [''normal'']) \<and> rs_view s' 1 = None \<and>
    rs_run (world_code log_code) s' [''normal''] = Inr (s', [''normal'', ''normal''])"
proof -
  let ?h = "setBoundOrFreeFunction (Some (Bound (Some ''normal'') [])) (handler_new None)"
  have "rs_view (two_task_state False) 2 \<noteq> None"
    by (simp add: rs_view_def two_task_state_eq queue_of_def)
  from finished_task_runs_again [OF two_task_reach [of "world_code log_code" False], of 1 ?h "[]" "[''normal'']" 2] this
  show ?thesis
    by (force simp: two_task_state_eq rs_next_def log_code_def)
qed

end
