(* ===== verification/Nfs_Reentrant.thy ===== *)
theory Nfs_Reentrant
  imports Nfs_Runslice
begin

text \<open>
  \<open>LIBS/defs_scheduler.h\<close>, class \<open>scheduler_runslice\<close>, run with callbacks that call the scheduler
  back.  The functions of a client are given as what they do: changes of their own world and
  requests to the scheduler, the next action depending on the answers.  A request of \<open>run\<close> from
  within a callback runs another callback on top of it, so the meaning of the functions is indexed
  by how many calls of callbacks fit on the stack; a call that does not fit is \<open>Stack_Exhausted\<close>.
\<close>

section \<open>Clients\<close>

datatype ('f, 'v) rs_request =
    Rq_add int "('f, 'v) rs_payload"
  | Rq_remove int
  | Rq_update int "'f option"
  | Rq_update_parameters int "'f option" "'v list"
  | Rq_update_parameters_only int "'v list"
  | Rq_update_priority int bool
  | Rq_set_mode runslice_mode
  | Rq_run
  | Rq_clean

datatype ('f, 'v, 'w) rs_action =
    Rs_return
  | Rs_act "'w \<Rightarrow> 'w outcome" "('f, 'v, 'w) rs_action"
  | Rs_look "'w \<Rightarrow> ('f, 'v, 'w) rs_action"
  | Rs_request "('f, 'v) rs_request" "bool \<Rightarrow> ('f, 'v, 'w) rs_action"

text \<open>Serving a request: the method that is called.  A method without a result answers \<open>True\<close>.\<close>

primrec rs_serve ::
  "('f, 'v, 'w) rs_code \<Rightarrow> ('f, 'v) rs_request \<Rightarrow> ('f, 'v) scheduler_runslice \<Rightarrow> 'w \<Rightarrow>
   (bool \<times> ('f, 'v) scheduler_runslice \<times> 'w) outcome" where
  "rs_serve prog (Rq_add i d) s w = bind_o (rs_add i d s) (\<lambda>(r, s1). Inr (r, s1, w))"
| "rs_serve prog (Rq_remove i) s w = bind_o (rs_removeRegistration i s) (\<lambda>(r, s1). Inr (r, s1, w))"
| "rs_serve prog (Rq_update i fp) s w =
     bind_o (rs_updateRegistration i fp s) (\<lambda>(r, s1). Inr (r, s1, w))"
| "rs_serve prog (Rq_update_parameters i fp args) s w =
     bind_o (rs_updateRegistrationParameters i fp args s) (\<lambda>(r, s1). Inr (r, s1, w))"
| "rs_serve prog (Rq_update_parameters_only i args) s w =
     bind_o (rs_updateRegistrationParametersOnly i args s) (\<lambda>(r, s1). Inr (r, s1, w))"
| "rs_serve prog (Rq_update_priority i p) s w =
     bind_o (rs_updateRegistrationPriority i p s) (\<lambda>(r, s1). Inr (r, s1, w))"
| "rs_serve prog (Rq_set_mode m) s w = Inr (True, rs_setAlgorithmMode m s, w)"
| "rs_serve prog Rq_run s w = bind_o (rs_run prog s w) (\<lambda>(s1, w1). Inr (True, s1, w1))"
| "rs_serve prog Rq_clean s w = Inr (True, rs_clean s, w)"

primrec rs_perform ::
  "('f, 'v, 'w) rs_code \<Rightarrow> ('f, 'v, 'w) rs_action \<Rightarrow> ('f, 'v) scheduler_runslice \<Rightarrow> 'w \<Rightarrow>
   (('f, 'v) scheduler_runslice \<times> 'w) outcome" where
  "rs_perform prog Rs_return s w = Inr (s, w)"
| "rs_perform prog (Rs_act g a) s w = bind_o (g w) (\<lambda>w1. rs_perform prog a s w1)"
| "rs_perform prog (Rs_look c) s w = rs_perform prog (c w) s w"
| "rs_perform prog (Rs_request rq c) s w =
     bind_o (rs_serve prog rq s w) (\<lambda>(r, s1, w1). rs_perform prog (c r) s1 w1)"

primrec rs_client ::
  "nat \<Rightarrow> ('f \<Rightarrow> 'v list \<Rightarrow> ('f, 'v, 'w) rs_action) \<Rightarrow> ('f, 'v, 'w) rs_code" where
  "rs_client 0 body f args x = Inl Stack_Exhausted"
| "rs_client (Suc n) body f args x =
     rs_perform (rs_client n body) (body f args) (fst x) (snd x)"

declare rs_client.simps [simp del]

lemma rs_client_apply [simp]:
  "rs_client 0 body f args (s, w) = Inl Stack_Exhausted"
  "rs_client (Suc n) body f args (s, w) = rs_perform (rs_client n body) (body f args) s w"
  "rs_client 1 body f args (s, w) = rs_perform (rs_client 0 body) (body f args) s w"
  by (simp_all add: rs_client.simps)

section \<open>Every client keeps the tables consistent\<close>

lemma rs_updateParameters_inv:
  "rs_inv s \<Longrightarrow> rs_updateRegistrationParameters i fp args s = Inr (r, s') \<Longrightarrow> rs_inv s'"
  by (cases fp) (auto simp: rs_updates_with rs_updateRegistrationParametersOnly_def
      rs_updateRegistrationParameters_def [of i None] simp flip: rs_updateRegistrationParametersOnly_def
      intro: rs_update_with_inv)

context runslice_client
begin

lemma serve_inv: "rs_inv s \<Longrightarrow> rs_serve prog rq s w = Inr (r, s', w') \<Longrightarrow> rs_inv s'"
  by (cases rq) (auto simp: outcome_rules rs_updates_with rs_setAlgorithmMode_def
      intro: rs_keeps_inv rs_updateParameters_inv run_inv)

lemma perform_inv: "rs_inv s \<Longrightarrow> rs_perform prog a s w = Inr (s', w') \<Longrightarrow> rs_inv s'"
proof (induction a arbitrary: s w)
  case (Rs_request rq c)
  from Rs_request.prems(2) obtain b s1 w1 where "rs_serve prog rq s w = Inr (b, s1, w1)"
    and "rs_perform prog (c b) s1 w1 = Inr (s', w')"
    by (auto simp: outcome_rules)
  with Rs_request.IH [OF rangeI] serve_inv [OF Rs_request.prems(1)] show ?case by blast
next
  case (Rs_look c)
  from Rs_look.IH [OF rangeI] Rs_look.prems show ?case by auto
qed (auto simp: outcome_rules)

end

lemma rs_client_keeps: "runslice_client (rs_client n body)"
proof (induction n)
  case (Suc n)
  then show ?case
    by unfold_locales (auto intro: runslice_client.perform_inv)
qed (unfold_locales, simp)

interpretation rs_clients: runslice_client "rs_client n body" for n body
  by (rule rs_client_keeps)

section \<open>More stack changes nothing but \<open>Stack_Exhausted\<close>\<close>

definition outcome_le :: "'a outcome \<Rightarrow> 'a outcome \<Rightarrow> bool" where
  "outcome_le m m' \<longleftrightarrow> m = Inl Stack_Exhausted \<or> m = m'"

lemma outcome_le_refl [simp, intro!]: "outcome_le m m"
  by (simp add: outcome_le_def)

lemma bind_o_le:
  "outcome_le m m' \<Longrightarrow> (\<And>x. outcome_le (f x) (g x)) \<Longrightarrow> outcome_le (bind_o m f) (bind_o m' g)"
  unfolding outcome_le_def by (cases m) force+

lemma case_prod_le:
  "(\<And>a b. outcome_le (f a b) (g a b)) \<Longrightarrow> outcome_le (case x of (a, b) \<Rightarrow> f a b) (case x of (a, b) \<Rightarrow> g a b)"
  by (cases x) simp

lemma if_le:
  "outcome_le m m' \<Longrightarrow> outcome_le n n' \<Longrightarrow> outcome_le (if b then m else n) (if b then m' else n')"
  by simp

lemmas le_intros = outcome_le_refl bind_o_le case_prod_le if_le

definition code_le :: "('f, 'v, 'w) rs_code \<Rightarrow> ('f, 'v, 'w) rs_code \<Rightarrow> bool" where
  "code_le p q \<longleftrightarrow> (\<forall>f args x. outcome_le (p f args x) (q f args x))"

lemma handler_run_le:
  assumes "code_le p q"
  shows "outcome_le (handler_run p h x) (handler_run q h x)"
proof (cases "handler_formatted_function h")
  case (Some c)
  obtain fp args where c: "c = Bound fp args" by (cases c)
  from assms Some c show ?thesis
    by (cases fp; cases x) (simp_all add: handler_run_def call_bound_def code_le_def)
qed (simp add: handler_run_def)

lemma rs_run_le:
  assumes "code_le p q"
  shows "outcome_le (rs_run p s w) (rs_run q s w)"
  unfolding rs_run_def rs_runOperationInline_def
  by (intro le_intros handler_run_le assms)

lemma rs_perform_le:
  assumes "code_le p q"
  shows "outcome_le (rs_perform p a s w) (rs_perform q a s w)"
proof (induction a arbitrary: s w)
  case (Rs_request rq c)
  have "outcome_le (rs_serve p rq s w) (rs_serve q rq s w)"
    using rs_run_le [OF assms] by (cases rq) (auto intro: le_intros)
  then show ?case
    using Rs_request [OF rangeI] by (auto intro!: le_intros)
qed (auto intro: le_intros)

lemma rs_client_le: "n \<le> m \<Longrightarrow> code_le (rs_client n body) (rs_client m body)"
proof (induction n arbitrary: m)
  case 0
  show ?case by (simp add: code_le_def outcome_le_def)
next
  case (Suc n)
  then obtain m' where "m = Suc m'" "n \<le> m'" by (cases m) auto
  with Suc.IH [of m'] show ?case
    by (simp add: code_le_def rs_perform_le)
qed

theorem deeper_stack_same_result:
  assumes "n \<le> m" and "rs_run (rs_client n body) s w \<noteq> Inl Stack_Exhausted"
  shows "rs_run (rs_client m body) s w = rs_run (rs_client n body) s w"
  using rs_run_le [OF rs_client_le [OF assms(1), of body], of s w] assms(2)
  by (simp add: outcome_le_def)

text \<open>Functions that never ask for \<open>run\<close> need one level of stack.\<close>

inductive run_free :: "('f, 'v, 'w) rs_action \<Rightarrow> bool" where
  return: "run_free Rs_return"
| act: "run_free a \<Longrightarrow> run_free (Rs_act g a)"
| look: "(\<And>w. run_free (c w)) \<Longrightarrow> run_free (Rs_look c)"
| request: "rq \<noteq> Rq_run \<Longrightarrow> (\<And>r. run_free (c r)) \<Longrightarrow> run_free (Rs_request rq c)"

lemma run_free_perform: "run_free a \<Longrightarrow> rs_perform p a s w = rs_perform q a s w"
proof (induction a arbitrary: s w rule: run_free.induct)
  case (request rq c)
  then have "rs_serve p rq s w = rs_serve q rq s w" by (cases rq) simp_all
  with request show ?case by simp
qed simp_all

lemma run_free_client:
  assumes "\<And>f args. run_free (body f args)"
  shows "rs_client (Suc n) body = rs_client (Suc 0) body"
proof (intro ext)
  fix f args x
  show "rs_client (Suc n) body f args x = rs_client (Suc 0) body f args x"
    using run_free_perform [where p = "rs_client n body" and q = "rs_client 0 body",
        OF assms, of f args "fst x" "snd x"]
    by (cases x) simp
qed

section \<open>Properties\<close>

text \<open>Claim C10.  What one call of \<open>run\<close> does on any scheduler a client can build, whatever its
  functions do and ask of the scheduler: it fails its report assertion when nothing is registered,
  or in the priority-only mode without a priority task; otherwise it calls the callback at the
  back of one queue.  That queue is the normal one whenever it has a task and the mode is not
  priority-only, so in both round robin modes a priority task never runs before the normal queue
  is empty.\<close>

theorem run_serves_normal_first:
  assumes "rs_reach (rs_client n body) s"
  shows "rs_run (rs_client n body) s w =
    (if scheduler_is_priority_lookup s = [] \<or>
        scheduler_mode s = Priority_only_round_robin \<and> scheduler_priority_queue s = []
     then Inl Assertion_Failed
     else if scheduler_mode s \<noteq> Priority_only_round_robin \<and> scheduler_normal_queue s \<noteq> []
     then rs_execute (rs_client n body) (last (scheduler_normal_queue s)) s w
     else rs_execute (rs_client n body) (last (scheduler_priority_queue s)) s w)"
proof -
  have s: "rs_inv s" by (rule rs_clients.reach_inv [OF assms])
  show ?thesis
    using rs_clients.run_spec [OF s, of n body w] rs_some_queue [OF s]
    by (auto simp: rs_next_def)
qed

text \<open>A client whose functions log their names, and the scheduler of \<open>two_task_state\<close>.\<close>

definition log_body :: "string \<Rightarrow> unit list \<Rightarrow> (string, unit, string list) rs_action" where
  "log_body f args = Rs_act (\<lambda>w. Inr (w @ [f])) Rs_return"

theorem run_serves_normal_first_witness:
  "rs_run (rs_client 1 log_body) (two_task_state True) [] = Inr (two_task_state True, [''normal''])"
  using run_serves_normal_first [OF two_task_reach [of "rs_client 1 log_body" True], of "[]"]
  by (simp add: two_task_state_eq rs_execute_def log_body_def)

subsection \<open>A callback that calls \<open>run\<close>\<close>

text \<open>An action that comes to ask for \<open>run\<close>, and changes nothing but its own world before.\<close>

inductive calls_run :: "('f, 'v, 'w) rs_action \<Rightarrow> bool" where
  run: "calls_run (Rs_request Rq_run c)"
| act: "(\<And>w. \<exists>w'. g w = Inr w') \<Longrightarrow> calls_run a \<Longrightarrow> calls_run (Rs_act g a)"
| look: "(\<And>w. calls_run (c w)) \<Longrightarrow> calls_run (Rs_look c)"

lemma calls_run_perform:
  "calls_run a \<Longrightarrow> (\<And>w. rs_run p s w = Inl e) \<Longrightarrow> rs_perform p a s w = Inl e"
proof (induction a arbitrary: w rule: calls_run.induct)
  case (act g a)
  then obtain w' where "g w = Inr w'" by blast
  with act show ?case by simp
qed simp_all

text \<open>Claim C11.  \<open>run\<close> cannot be called from a callback.  While a callback runs, its task is still
  at the back of its queue and still registered, whether it should run once or stay.  So on any
  scheduler a client can build, if the task to run has a function that at some point calls
  \<open>run\<close> without having changed the scheduler before, that call runs the same function again, and
  so on: however large the stack is, it is exhausted and no call of \<open>run\<close> returns.\<close>

theorem nested_run_never_returns:
  assumes "rs_reach (rs_client n body) s"
    and "scheduler_is_priority_lookup s \<noteq> []" and "rs_next s \<noteq> []"
    and "last (rs_next s) = (i, persist, h)"
    and "handler_formatted_function h = Some (Bound (Some f) args)" and "calls_run (body f args)"
  shows "rs_run (rs_client depth body) s w = Inl Stack_Exhausted"
proof (induction depth arbitrary: w)
  have run: "rs_run (rs_client m body) s w =
      bind_o (rs_client m body f args (s, w)) (\<lambda>(s1, w1). Inr (if persist then s1
        else s1\<lparr>scheduler_is_priority_lookup := umap_erase i (scheduler_is_priority_lookup s1)\<rparr>, w1))"
    for m w
    using rs_clients.run_spec [OF rs_clients.reach_inv [OF assms(1)], of m body w] assms(2-5)
    by (simp add: rs_execute_def handler_run_def call_bound_def)
  {
    case 0
    show ?case by (subst run) simp
  next
    case (Suc m)
    from calls_run_perform [OF assms(6), of "rs_client m body" s, OF Suc]
    show ?case by (subst run) simp
  }
qed

text \<open>The normal task of \<open>two_task_state\<close>, which logs its name and lets the scheduler go on.\<close>

definition drain_body :: "string \<Rightarrow> unit list \<Rightarrow> (string, unit, string list) rs_action" where
  "drain_body f args = Rs_act (\<lambda>w. Inr (w @ [f])) (Rs_request Rq_run (\<lambda>_. Rs_return))"

theorem nested_run_never_returns_witness:
  "rs_run (rs_client 1000 drain_body) (two_task_state False) [] = Inl Stack_Exhausted"
proof -
  have "calls_run (drain_body ''normal'' [])"
    unfolding drain_body_def by (auto intro: calls_run.intros)
  with nested_run_never_returns [OF two_task_reach [of "rs_client 1 drain_body" False], of 1
      False "setBoundOrFreeFunction (Some (Bound (Some ''normal'') [])) (handler_new None)"
      "''normal''" "[]" 1000 "[]"]
  show ?thesis
    by (simp add: two_task_state_eq rs_next_def setBoundOrFreeFunction_def)
qed

subsection \<open>A callback that registers its own identifier\<close>

text \<open>A task that should run once cannot stay.  Whatever its function does, and even if
  it registers its own identifier anew, when \<open>run\<close> returns the identifier is not registered.
  No other registration is lost to the scheduler: the tables as the function leaves them differ
  from the final ones in this identifier only.\<close>

theorem finished_task_is_unregistered:
  assumes "rs_reach (rs_client n body) s" and "rs_next s \<noteq> []"
    and "last (rs_next s) = (i, False, h)" and "rs_run (rs_client n body) s w = Inr (s', w')"
  shows "rs_view s' i = None \<and> rs_inv s' \<and>
    (\<exists>s1. handler_run (rs_client n body) h (s, w) = Inr (s1, w') \<and> rs_view s' = (rs_view s1)(i := None))"
proof -
  have s: "rs_inv s" by (rule rs_clients.reach_inv [OF assms(1)])
  obtain s1 where s1: "handler_run (rs_client n body) h (s, w) = Inr (s1, w')"
    and s': "s' = s1\<lparr>scheduler_is_priority_lookup :=
      umap_erase i (scheduler_is_priority_lookup s1)\<rparr>"
  proof -
    have "rs_execute (rs_client n body) (i, False, h) s w = Inr (s', w')"
      using rs_clients.run_spec [OF s, of n body w] assms(2-4) by (simp split: if_splits)
    then show thesis
      using that by (auto simp: rs_execute_def bind_o_eq_Inr_iff)
  qed
  obtain f args where "rs_client n body f args (s, w) = Inr (s1, w')"
    by (rule handler_run_returns [OF s1])
  then have "rs_inv s1" by (rule rs_clients.keeps_inv [OF s])
  with s1 s' show ?thesis by (auto simp: rs_drop_lookup)
qed

subsection \<open>Callbacks that take themselves out and in again\<close>

text \<open>
  A function that does its work, removes its own registration and registers itself again as a
  persistent task; \<open>ident\<close> gives the identifier under which a function is registered, \<open>g\<close> the work.
\<close>

definition cycling ::
  "('f \<Rightarrow> int) \<Rightarrow> ('f \<Rightarrow> 'w \<Rightarrow> 'w) \<Rightarrow> 'f \<Rightarrow> 'v list \<Rightarrow> ('f, 'v, 'w) rs_action" where
  "cycling ident g f args =
     Rs_act (\<lambda>w. Inr (g f w))
       (Rs_request (Rq_remove (ident f)) (\<lambda>_.
        Rs_request (Rq_add (ident f) (Rs_Free (Some f) False True)) (\<lambda>_. Rs_return)))"

theorem finished_task_is_unregistered_witness:
  "\<exists>s'. rs_run (rs_client 1 (cycling (\<lambda>_. 1) (\<lambda>f w. w @ [f]))) (two_task_state False) [] =
      Inr (s', [''normal'']) \<and> rs_view s' 1 = None \<and> scheduler_normal_queue s' \<noteq> []"
proof -
  let ?c = "rs_client 1 (cycling (\<lambda>_. 1) (\<lambda>f w. w @ [f]))"
  let ?h = "setBoundOrFreeFunction (Some (Bound (Some ''normal'') [])) (handler_new None)"
  have "rs_run ?c (two_task_state False) [] = rs_execute ?c (1, False, ?h) (two_task_state False) []"
    by (subst rs_clients.run_spec [OF rs_clients.reach_inv [OF two_task_reach]])
      (simp add: two_task_state_eq rs_next_def)
  then obtain s' where s': "rs_run ?c (two_task_state False) [] = Inr (s', [''normal''])"
    "scheduler_normal_queue s' \<noteq> []"
    by (simp add: two_task_state_eq rs_execute_def cycling_def rs_removeRegistration_def
        queue_of_def set_queue_def rs_removeRegistrationInline_def task_key_def erase_at_def
        rs_enqueue_defs rs_insert_def Let_def umap_erase_def umap_emplace_def)
  with finished_task_is_unregistered [OF two_task_reach [of ?c False], of 1 ?h "[]" s' "[''normal'']"]
  show ?thesis
    by (auto simp: two_task_state_eq rs_next_def)
qed

definition cycle_task :: "('f \<Rightarrow> int) \<Rightarrow> 'f \<Rightarrow> int \<times> bool \<times> ('f, 'v) handler_callback" where
  "cycle_task ident f =
     (ident f, True, setBoundOrFreeFunction (Some (Bound (Some f) [])) (handler_new None))"

primrec enroll ::
  "('f \<Rightarrow> int) \<Rightarrow> 'f list \<Rightarrow> ('f, 'v) scheduler_runslice \<Rightarrow> ('f, 'v) scheduler_runslice outcome" where
  "enroll ident [] s = Inr s"
| "enroll ident (f # fs) s =
     bind_o (rs_enqueueRegistration (ident f) (Some f) False True s) (\<lambda>(_, s1). enroll ident fs s1)"

definition cycle_state :: "('f \<Rightarrow> int) \<Rightarrow> 'f list \<Rightarrow> ('f, 'v) scheduler_runslice \<Rightarrow> bool" where
  "cycle_state ident fs s \<longleftrightarrow> rs_inv s \<and> scheduler_mode s = Round_robin \<and>
     scheduler_normal_queue s = map (cycle_task ident) fs \<and> distinct (map ident fs) \<and>
     (\<forall>i. map_of (scheduler_is_priority_lookup s) i = (if i \<in> ident ` set fs then Some False else None))"

lemma find_pos_last:
  "(\<And>x. x \<in> set xs \<Longrightarrow> \<not> P x) \<Longrightarrow> P y \<Longrightarrow> find_pos P (xs @ [y]) = Some (length xs)"
  by (induction xs) auto

lemma erase_last: "(\<And>x. x \<in> set xs \<Longrightarrow> \<not> P x) \<Longrightarrow> P y \<Longrightarrow> erase_at (find_pos P (xs @ [y])) (xs @ [y]) = Inr xs"
  by (simp add: find_pos_last erase_at_def)

lemma cycle_enqueue:
  assumes "cycle_state ident fs s" and "ident f \<notin> ident ` set fs"
  shows "\<exists>s'. rs_enqueueRegistration (ident f) (Some f) False True s = Inr (True, s') \<and>
    cycle_state ident (f # fs) s'"
proof -
  have l: "map_of (scheduler_is_priority_lookup s) (ident f) = None"
    using assms by (simp add: cycle_state_def)
  let ?h = "setBoundOrFreeFunction (function_of_pointer (Some f)) (handler_new None)"
  have "rs_inv (rs_insert (ident f) ?h False True s)"
    using assms(1) l by (simp add: rs_insert_step cycle_state_def)
  with assms l show ?thesis
    by (auto simp: cycle_state_def cycle_task_def rs_enqueue_defs Let_def rs_insert_def
        umap_emplace_def function_of_pointer_def)
qed

lemma cycle_remove:
  assumes "cycle_state ident (fs @ [f]) s"
  shows "\<exists>s'. rs_removeRegistration (ident f) s = Inr (True, s') \<and> cycle_state ident fs s'"
proof -
  have l: "map_of (scheduler_is_priority_lookup s) (ident f) = Some False"
    using assms by (simp add: cycle_state_def)
  have q: "scheduler_normal_queue s = map (cycle_task ident) fs @ [cycle_task ident f]"
    using assms by (simp add: cycle_state_def)
  have "erase_at (find_pos (task_key (ident f)) (scheduler_normal_queue s)) (scheduler_normal_queue s)
      = Inr (map (cycle_task ident) fs)"
    unfolding q
    by (rule erase_last)
      (use assms in \<open>force simp: cycle_state_def cycle_task_def task_key_def\<close>)+
  then have run: "rs_removeRegistration (ident f) s = Inr (True, set_queue False (map (cycle_task ident) fs) s
      \<lparr>scheduler_is_priority_lookup := umap_erase (ident f) (scheduler_is_priority_lookup s)\<rparr>)"
    using assms l by (simp add: rs_removeRegistration_def rs_removeRegistrationInline_def queue_of_def
        cycle_state_def Let_def)
  moreover have "rs_inv s" using assms by (simp add: cycle_state_def)
  ultimately show ?thesis
    using rs_remove_inv [OF _ run] assms
    by (auto simp: cycle_state_def set_queue_def)
qed

lemma cycle_run:
  assumes "cycle_state ident (fs @ [f]) s"
  shows "\<exists>s'. rs_run (rs_client (Suc n) (cycling ident g)) s w = Inr (s', g f w) \<and>
    cycle_state ident (f # fs) s'"
proof -
  obtain s1 where s1: "rs_removeRegistration (ident f) s = Inr (True, s1)" "cycle_state ident fs s1"
    using cycle_remove [OF assms] by blast
  have "ident f \<notin> ident ` set fs"
    using assms by (auto simp: cycle_state_def)
  from cycle_enqueue [OF s1(2) this] obtain s2 where s2: "rs_enqueueRegistration (ident f) (Some f) False True s1 = Inr (True, s2)"
    "cycle_state ident (f # fs) s2"
    by blast
  have "map_of (scheduler_is_priority_lookup s) (ident f) = Some False"
    using assms by (simp add: cycle_state_def)
  then have "scheduler_is_priority_lookup s \<noteq> []" by auto
  moreover have "rs_inv s" "rs_next s \<noteq> []" "last (rs_next s) = cycle_task ident f"
    using assms by (simp_all add: cycle_state_def rs_next_def)
  ultimately have "rs_run (rs_client (Suc n) (cycling ident g)) s w =
      rs_execute (rs_client (Suc n) (cycling ident g)) (cycle_task ident f) s w"
    by (simp add: rs_clients.run_spec)
  then show ?thesis
    using s1(1) s2 by (simp add: rs_execute_def cycle_task_def cycling_def)
qed

lemma cycle_runs:
  "cycle_state ident (xs @ ys) s \<Longrightarrow>
     \<exists>s'. rs_runs (rs_client (Suc n) (cycling ident g)) (length ys) s w = Inr (s', fold g (rev ys) w) \<and>
       cycle_state ident (ys @ xs) s'"
proof (induction ys arbitrary: xs s w rule: rev_induct)
  case (snoc y ys)
  then obtain s1 where "rs_run (rs_client (Suc n) (cycling ident g)) s w = Inr (s1, g y w)"
    "cycle_state ident ((y # xs) @ ys) s1"
    using cycle_run [of ident "xs @ ys" y s n g w] by auto
  with snoc.IH [OF this(2), of "g y w"] show ?case by simp
qed simp

lemma enroll_cycle:
  "cycle_state ident gs s \<Longrightarrow> distinct (map ident (rev fs @ gs)) \<Longrightarrow>
     \<exists>s'. enroll ident fs s = Inr s' \<and> cycle_state ident (rev fs @ gs) s'"
proof (induction fs arbitrary: gs s)
  case (Cons f fs)
  then have "ident f \<notin> ident ` set gs" by auto
  from cycle_enqueue [OF Cons.prems(1) this] obtain s1 where
    s1: "rs_enqueueRegistration (ident f) (Some f) False True s = Inr (True, s1)"
    "cycle_state ident (f # gs) s1"
    by blast
  with Cons.IH [OF s1(2)] Cons.prems(2) show ?case by simp
qed simp

lemma cycle_rounds:
  "cycle_state ident fs s \<Longrightarrow>
     \<exists>s'. rs_runs (rs_client (Suc n) (cycling ident g)) (k * length fs) s w =
         Inr (s', fold g (concat (replicate k (rev fs))) w) \<and> cycle_state ident fs s'"
proof (induction k arbitrary: s w)
  case (Suc k)
  from Suc.prems obtain s1 where
    1: "rs_runs (rs_client (Suc n) (cycling ident g)) (length fs) s w = Inr (s1, fold g (rev fs) w)"
    "cycle_state ident fs s1"
    using cycle_runs [of ident "[]" fs s n g w] by auto
  from Suc.IH [OF 1(2), of "fold g (rev fs) w"] 1(1) show ?case
    by (auto simp: rs_runs_add)
qed simp

text \<open>Claim C12.  The way to get the round robin.  On a new scheduler, register any functions under
  different identifiers as normal persistent tasks, each of which, after its work, removes its own
  registration and registers itself again.  Then \<open>run\<close> serves them in turn: in \<open>k\<close> rounds of as
  many calls as there are tasks, each function does its work once per round, in the order of
  registration, and no call fails.\<close>

theorem self_registering_tasks_rotate:
  fixes fs :: "'f list" and g :: "'f \<Rightarrow> 'w \<Rightarrow> 'w"
  assumes "distinct (map ident fs)"
  shows "\<exists>s s'. enroll ident fs (runslice_new :: ('f, 'v) scheduler_runslice) = Inr s \<and>
    rs_runs (rs_client (Suc n) (cycling ident g)) (k * length fs) s w =
      Inr (s', fold g (concat (replicate k fs)) w) \<and>
    map fst (scheduler_normal_queue s') = map ident (rev fs)"
proof -
  have "cycle_state ident [] (runslice_new :: ('f, 'v) scheduler_runslice)"
    by (simp add: cycle_state_def rs_inv_new(1))
  from enroll_cycle [OF this, of fs] assms obtain s :: "('f, 'v) scheduler_runslice"
    where s: "enroll ident fs runslice_new = Inr s" "cycle_state ident (rev fs) s"
    by (auto simp flip: rev_map)
  from cycle_rounds [OF s(2), of n g k w] obtain s' where
    "rs_runs (rs_client (Suc n) (cycling ident g)) (k * length fs) s w =
       Inr (s', fold g (concat (replicate k fs)) w)" "cycle_state ident (rev fs) s'"
    by auto
  with s(1) show ?thesis
    by (force simp: cycle_state_def cycle_task_def)
qed

theorem self_registering_tasks_rotate_witness:
  "\<exists>s s'. enroll (\<lambda>f. int (length f)) [''a'', ''bb'', ''ccc'']
      (runslice_new :: (string, unit) scheduler_runslice) = Inr s \<and>
    rs_runs (rs_client 1 (cycling (\<lambda>f. int (length f)) (\<lambda>f w. w @ [f]))) 6 s [] =
      Inr (s', [''a'', ''bb'', ''ccc'', ''a'', ''bb'', ''ccc''])"
  using self_registering_tasks_rotate [of "\<lambda>f. int (length f)" "[''a'', ''bb'', ''ccc'']" 0
      "\<lambda>f w. w @ [f]" 2 "[]"]
  by (simp add: eval_nat_numeral del: enroll.simps rs_runs.simps) blast

end
