(* ===== verification/Nfs_Interrupt.thy ===== *)
theory Nfs_Interrupt
  imports Nfs_Debug Nfs_Handler Nfs_Registry
begin

text \<open>
  \<open>LIBS/defs_scheduler.h\<close>, class \<open>scheduler_interrupt\<close>: callbacks queued per signal and run by
  the signal handler.

  The model is the view of one thread: a mutex is a flag, and locking one that is already held
  is \<open>Self_Deadlock\<close>.  A \<open>queue\<close> has its front at the head of the list: \<open>push\<close> appends,
  \<open>back\<close> is the last element and \<open>pop\<close> drops the head.  User functions act on the scheduler
  and the world \<open>'w\<close>, since a callback may call the scheduler that runs it.
\<close>

section \<open>State\<close>

datatype signal_slot = Sigabrt | Sigfpe | Sigill | Sigint | Sigsegv | Sigterm | Sigusr1 | Sigusr2

primrec slot_of :: "signal_slot \<Rightarrow> int" where
  "slot_of Sigabrt = 0"
| "slot_of Sigfpe = 1"
| "slot_of Sigill = 2"
| "slot_of Sigint = 3"
| "slot_of Sigsegv = 4"
| "slot_of Sigterm = 5"
| "slot_of Sigusr1 = 6"
| "slot_of Sigusr2 = 7"

definition SIGNAL_COUNT :: nat where
  "SIGNAL_COUNT = 8"

text \<open>The signal numbers of the platform (x86 Linux).\<close>

definition scheduler_signal_value_lookup :: "int list" where
  "scheduler_signal_value_lookup = [6, 8, 4, 2, 11, 15, 10, 12]"

definition signal_value :: "signal_slot \<Rightarrow> int" where
  "signal_value slot = scheduler_signal_value_lookup ! nat (slot_of slot)"

lemma signal_value_simps [simp]:
  "signal_value Sigabrt = 6" "signal_value Sigfpe = 8" "signal_value Sigill = 4"
  "signal_value Sigint = 2" "signal_value Sigsegv = 11" "signal_value Sigterm = 15"
  "signal_value Sigusr1 = 10" "signal_value Sigusr2 = 12"
  by (simp_all add: signal_value_def scheduler_signal_value_lookup_def)

definition initial_reverse_lookup :: "(int, int) umap" where
  "initial_reverse_lookup =
     [(signal_value Sigabrt, slot_of Sigabrt), (signal_value Sigfpe, slot_of Sigfpe),
      (signal_value Sigill, slot_of Sigill), (signal_value Sigsegv, slot_of Sigsegv),
      (signal_value Sigterm, slot_of Sigterm), (signal_value Sigusr1, slot_of Sigusr1),
      (signal_value Sigusr2, slot_of Sigusr2)]"

datatype interrupt_error =
    Si_identifier_not_available
  | Si_callback_dropped_prematurely
  | Si_queue_is_empty

primrec interrupt_error_code :: "interrupt_error \<Rightarrow> int" where
  "interrupt_error_code Si_identifier_not_available = 0"
| "interrupt_error_code Si_callback_dropped_prematurely = 1"
| "interrupt_error_code Si_queue_is_empty = 2"

definition scheduler_interrupt_local_errors :: "string list" where
  "scheduler_interrupt_local_errors =
     [''Identifier not available'', ''Callback_dropped_prematurely'', ''Queue_is_empty'']"

record ('f, 'v) scheduler_interrupt = debug_status +
  scheduler_is_initialized :: bool
  scheduler_available_for_offload :: bool
  scheduler_callback_mutex :: bool
  scheduler_per_queue_mutex :: "bool list"
  scheduler_signal_queues :: "(int \<times> bool) list list"
  scheduler_callbacks :: "(int, int \<times> ('f, 'v) handler_callback) umap"
  scheduler_signal_value_reverse_lookup :: "(int, int) umap"

text \<open>The members as the constructor initialises them, before its body runs.\<close>

definition interrupt_initial :: "('f, 'v) scheduler_interrupt" where
  "interrupt_initial = debug_status.extend
     (debug_status_new scheduler_interrupt_local_errors
        (getMinClassError + int (length [Si_identifier_not_available,
           Si_callback_dropped_prematurely, Si_queue_is_empty]) - 1))
     (scheduler_interrupt.fields False False False (replicate SIGNAL_COUNT False)
        (replicate SIGNAL_COUNT []) [] initial_reverse_lookup)"

definition si_report ::
  "interrupt_error \<Rightarrow> ('f, 'v) scheduler_interrupt \<Rightarrow> ('f, 'v) scheduler_interrupt outcome" where
  "si_report e s = setReturnCode (interrupt_error_code e) s"

text \<open>
  The body of the constructor: \<open>test_and_set\<close> returns the old value of the flag, and
  \<open>function::target\<close> asked for a plain pointer returns null for a closure.
\<close>

definition closure_target :: "unit option" where
  "closure_target = None"

fun install_handlers ::
  "nat \<Rightarrow> ('f, 'v) scheduler_interrupt \<Rightarrow> ('f, 'v) scheduler_interrupt outcome" where
  "install_handlers 0 s = Inr s"
| "install_handlers (Suc n) s = bind_o (defined_o closure_target) (\<lambda>_. install_handlers n s)"

definition interrupt_new :: "('f, 'v) scheduler_interrupt outcome" where
  "interrupt_new =
     (let s = interrupt_initial;
          was = scheduler_is_initialized s;
          s1 = s\<lparr>scheduler_is_initialized := True\<rparr> in
      bind_o (assert_o was) (\<lambda>_.
        install_handlers (length (scheduler_signal_value_reverse_lookup s1)) s1))"

section \<open>Mutexes and queues\<close>

definition lock_callbacks ::
  "('f, 'v) scheduler_interrupt \<Rightarrow> ('f, 'v) scheduler_interrupt outcome" where
  "lock_callbacks s = (if scheduler_callback_mutex s then Inl Self_Deadlock
     else Inr (s\<lparr>scheduler_callback_mutex := True\<rparr>))"

definition unlock_callbacks :: "('f, 'v) scheduler_interrupt \<Rightarrow> ('f, 'v) scheduler_interrupt" where
  "unlock_callbacks s = s\<lparr>scheduler_callback_mutex := False\<rparr>"

definition array_at :: "int \<Rightarrow> 'a list \<Rightarrow> 'a outcome" where
  "array_at i xs = (if 0 \<le> i \<and> i < int (length xs) then Inr (xs ! nat i)
     else Inl Undefined_Behaviour)"

definition lock_queue ::
  "int \<Rightarrow> ('f, 'v) scheduler_interrupt \<Rightarrow> ('f, 'v) scheduler_interrupt outcome" where
  "lock_queue i s = bind_o (array_at i (scheduler_per_queue_mutex s)) (\<lambda>held.
     if held then Inl Self_Deadlock
     else Inr (s\<lparr>scheduler_per_queue_mutex := (scheduler_per_queue_mutex s)[nat i := True]\<rparr>))"

definition unlock_queue ::
  "int \<Rightarrow> ('f, 'v) scheduler_interrupt \<Rightarrow> ('f, 'v) scheduler_interrupt outcome" where
  "unlock_queue i s = bind_o (array_at i (scheduler_per_queue_mutex s)) (\<lambda>_.
     Inr (s\<lparr>scheduler_per_queue_mutex := (scheduler_per_queue_mutex s)[nat i := False]\<rparr>))"

definition put_queue ::
  "int \<Rightarrow> (int \<times> bool) list \<Rightarrow> ('f, 'v) scheduler_interrupt \<Rightarrow> ('f, 'v) scheduler_interrupt" where
  "put_queue i q s = s\<lparr>scheduler_signal_queues := (scheduler_signal_queues s)[nat i := q]\<rparr>"

definition push_queue ::
  "int \<Rightarrow> int \<times> bool \<Rightarrow> ('f, 'v) scheduler_interrupt \<Rightarrow> ('f, 'v) scheduler_interrupt outcome" where
  "push_queue i x s = bind_o (array_at i (scheduler_signal_queues s)) (\<lambda>q.
     Inr (put_queue i (q @ [x]) s))"

definition pop_queue ::
  "int \<Rightarrow> ('f, 'v) scheduler_interrupt \<Rightarrow> ('f, 'v) scheduler_interrupt outcome" where
  "pop_queue i s = bind_o (array_at i (scheduler_signal_queues s)) (\<lambda>q.
     if q = [] then Inl Undefined_Behaviour else Inr (put_queue i (tl q) s))"

section \<open>The signal handler\<close>

definition handlerUpdateAndRun ::
  "('f, 'v, ('f, 'v) scheduler_interrupt \<times> 'w) user_code \<Rightarrow> int \<Rightarrow>
   ('f, 'v) scheduler_interrupt \<Rightarrow> 'w \<Rightarrow> (('f, 'v) scheduler_interrupt \<times> 'w) outcome" where
  "handlerUpdateAndRun prog signal s w =
     (let (offset, lookup) = umap_subscript 0 signal (scheduler_signal_value_reverse_lookup s);
          s0 = s\<lparr>scheduler_signal_value_reverse_lookup := lookup\<rparr> in
      if \<not> scheduler_available_for_offload s0 then Inr (s0, w)
      else
        bind_o (lock_queue offset s0) (\<lambda>s1.
        bind_o (array_at offset (scheduler_signal_queues s1)) (\<lambda>q1.
        bind_o (if q1 = [] then bind_o (si_report Si_queue_is_empty s1) (\<lambda>s2. Inr (s2, w))
          else
            bind_o (back_o q1) (\<lambda>(get_identifier, _).
            bind_o (lock_callbacks s1) (\<lambda>s2.
            bind_o (case map_of (scheduler_callbacks s2) get_identifier of
                      Some (_, h) \<Rightarrow> handler_run prog h (s2, w)
                    | None \<Rightarrow> bind_o (si_report Si_callback_dropped_prematurely s2)
                        (\<lambda>s3. Inr (s3, w))) (\<lambda>(s3, w3).
            let s4 = unlock_callbacks s3 in
            bind_o (array_at offset (scheduler_signal_queues s4)) (\<lambda>q4.
            bind_o (back_o q4) (\<lambda>(_, persist).
            bind_o (if persist then push_queue offset (get_identifier, True) s4
              else bind_o (lock_callbacks s4) (\<lambda>s5.
                Inr (unlock_callbacks (s5\<lparr>scheduler_callbacks :=
                  umap_erase get_identifier (scheduler_callbacks s5)\<rparr>)))) (\<lambda>s6.
            bind_o (pop_queue offset s6) (\<lambda>s7. Inr (s7, w3))))))))) (\<lambda>(s8, w8).
        bind_o (unlock_queue offset s8) (\<lambda>s9. Inr (s9, w8))))))"

section \<open>Registering, updating and removing\<close>

definition si_registerSharedHelper ::
  "int \<Rightarrow> ('f, 'v) handler_callback \<Rightarrow> signal_slot \<Rightarrow> bool \<Rightarrow> ('f, 'v) scheduler_interrupt \<Rightarrow>
   (bool \<times> ('f, 'v) scheduler_interrupt) outcome" where
  "si_registerSharedHelper identifier callback_payload signal_type persist s =
     bind_o (lock_callbacks s) (\<lambda>s1.
     let (get_insertion_result, m) =
           umap_emplace identifier (slot_of signal_type, callback_payload) (scheduler_callbacks s1);
         s2 = unlock_callbacks (s1\<lparr>scheduler_callbacks := m\<rparr>) in
     if get_insertion_result then
       bind_o (lock_queue (slot_of signal_type) s2) (\<lambda>s3.
       bind_o (push_queue (slot_of signal_type) (identifier, persist) s3) (\<lambda>s4.
       bind_o (unlock_queue (slot_of signal_type) s4) (\<lambda>s5. Inr (True, s5))))
     else Inr (False, s2))"

definition si_registerShared ::
  "int \<Rightarrow> 'f option \<Rightarrow> signal_slot \<Rightarrow> bool \<Rightarrow> 'v list \<Rightarrow> ('f, 'v) scheduler_interrupt \<Rightarrow>
   (bool \<times> ('f, 'v) scheduler_interrupt) outcome" where
  "si_registerShared identifier function_pointer signal_type persist args s =
     si_registerSharedHelper identifier (setFunction function_pointer args (handler_new None))
       signal_type persist s"

definition si_registerSharedParameterFree ::
  "int \<Rightarrow> 'f option \<Rightarrow> signal_slot \<Rightarrow> bool \<Rightarrow> ('f, 'v) scheduler_interrupt \<Rightarrow>
   (bool \<times> ('f, 'v) scheduler_interrupt) outcome" where
  "si_registerSharedParameterFree identifier function_pointer signal_type persist s =
     si_registerSharedHelper identifier
       (setBoundOrFreeFunction (function_of_pointer function_pointer) (handler_new None))
       signal_type persist s"

definition si_registerFunction ::
  "int \<Rightarrow> 'f option \<Rightarrow> signal_slot \<Rightarrow> bool \<Rightarrow> ('f, 'v) scheduler_interrupt \<Rightarrow>
   (bool \<times> ('f, 'v) scheduler_interrupt) outcome" where
  "si_registerFunction identifier function_pointer signal_type persist s =
     si_registerSharedParameterFree identifier function_pointer signal_type persist s"

definition si_registerFunctionParameters ::
  "int \<Rightarrow> 'f option \<Rightarrow> 'v list \<Rightarrow> signal_slot \<Rightarrow> bool \<Rightarrow> ('f, 'v) scheduler_interrupt \<Rightarrow>
   (bool \<times> ('f, 'v) scheduler_interrupt) outcome" where
  "si_registerFunctionParameters identifier function_pointer args signal_type persist s =
     si_registerShared identifier function_pointer signal_type persist args s"

text \<open>The helper looks the identifier up; its iterator is the key of the element it found.\<close>

definition si_updateSharedHelper ::
  "int \<Rightarrow> ('f, 'v) scheduler_interrupt \<Rightarrow>
   ((int \<times> ('f, 'v) handler_callback) option \<times> ('f, 'v) scheduler_interrupt) outcome" where
  "si_updateSharedHelper identifier s =
     bind_o (lock_callbacks s) (\<lambda>s1.
       Inr (map_of (scheduler_callbacks s1) identifier, unlock_callbacks s1))"

definition si_modify ::
  "(('f, 'v) handler_callback \<Rightarrow> ('f, 'v) handler_callback outcome) \<Rightarrow> int \<Rightarrow>
   ('f, 'v) scheduler_interrupt \<Rightarrow> (bool \<times> ('f, 'v) scheduler_interrupt) outcome" where
  "si_modify f identifier s =
     bind_o (si_updateSharedHelper identifier s) (\<lambda>(get_insertion, s1).
       case get_insertion of
         None \<Rightarrow> Inr (False, s1)
       | Some (slot, h) \<Rightarrow>
           bind_o (lock_queue slot s1) (\<lambda>s2.
           bind_o (f h) (\<lambda>h'.
           bind_o (unlock_queue slot (s2\<lparr>scheduler_callbacks :=
               umap_store identifier (slot, h') (scheduler_callbacks s2)\<rparr>)) (\<lambda>s3.
             Inr (True, s3)))))"

definition si_updateShared ::
  "int \<Rightarrow> 'f option \<Rightarrow> 'v list \<Rightarrow> ('f, 'v) scheduler_interrupt \<Rightarrow>
   (bool \<times> ('f, 'v) scheduler_interrupt) outcome" where
  "si_updateShared identifier function_pointer args s =
     si_modify (\<lambda>h. if function_pointer = None then setParameters args h
                    else Inr (setFunction function_pointer args h)) identifier s"

definition si_updateSharedParameterFree ::
  "int \<Rightarrow> 'f option \<Rightarrow> ('f, 'v) scheduler_interrupt \<Rightarrow>
   (bool \<times> ('f, 'v) scheduler_interrupt) outcome" where
  "si_updateSharedParameterFree identifier function_pointer s =
     si_modify (\<lambda>h. Inr (setBoundOrFreeFunction (function_of_pointer function_pointer) h))
       identifier s"

definition si_updateRegistration ::
  "int \<Rightarrow> 'f option \<Rightarrow> ('f, 'v) scheduler_interrupt \<Rightarrow>
   (bool \<times> ('f, 'v) scheduler_interrupt) outcome" where
  "si_updateRegistration identifier function_pointer s =
     si_updateSharedParameterFree identifier function_pointer s"

definition si_updateRegistrationParameters ::
  "int \<Rightarrow> 'f option \<Rightarrow> 'v list \<Rightarrow> ('f, 'v) scheduler_interrupt \<Rightarrow>
   (bool \<times> ('f, 'v) scheduler_interrupt) outcome" where
  "si_updateRegistrationParameters identifier function_pointer args s =
     si_updateShared identifier function_pointer args s"

definition si_updateRegistrationParametersOnly ::
  "int \<Rightarrow> 'v list \<Rightarrow> ('f, 'v) scheduler_interrupt \<Rightarrow>
   (bool \<times> ('f, 'v) scheduler_interrupt) outcome" where
  "si_updateRegistrationParametersOnly identifier args s = si_updateShared identifier None args s"

definition si_removeRegistration ::
  "int \<Rightarrow> ('f, 'v) scheduler_interrupt \<Rightarrow> (bool \<times> ('f, 'v) scheduler_interrupt) outcome" where
  "si_removeRegistration identifier s =
     bind_o (lock_callbacks s) (\<lambda>s1.
     let result = (map_of (scheduler_callbacks s1) identifier \<noteq> None);
         s2 = s1\<lparr>scheduler_callbacks := umap_erase identifier (scheduler_callbacks s1)\<rparr> in
     Inr (result, unlock_callbacks s2))"

definition toggleHandlerSignaling ::
  "('f, 'v) scheduler_interrupt \<Rightarrow> ('f, 'v) scheduler_interrupt" where
  "toggleHandlerSignaling s =
     s\<lparr>scheduler_available_for_offload := \<not> scheduler_available_for_offload s\<rparr>"

fun si_clean_queues ::
  "nat \<Rightarrow> ('f, 'v) scheduler_interrupt \<Rightarrow> ('f, 'v) scheduler_interrupt outcome" where
  "si_clean_queues 0 s = Inr s"
| "si_clean_queues (Suc n) s =
     (let i = int (SIGNAL_COUNT - Suc n) in
      bind_o (lock_queue i s) (\<lambda>s1.
      bind_o (array_at i (scheduler_signal_queues s1)) (\<lambda>q.
      bind_o (unlock_queue i (put_queue i (pop_front_all q) s1)) (\<lambda>s2. si_clean_queues n s2))))"

definition si_clean :: "('f, 'v) scheduler_interrupt \<Rightarrow> ('f, 'v) scheduler_interrupt outcome" where
  "si_clean s =
     bind_o (lock_callbacks s) (\<lambda>s1.
       si_clean_queues SIGNAL_COUNT (unlock_callbacks (s1\<lparr>scheduler_callbacks := []\<rparr>)))"

section \<open>Invariant and view\<close>

text \<open>
  Between operations every mutex is free, the arrays have their length, the registered slots are
  slots, and the reverse lookup leads to a slot other than the one of \<open>SIGINT\<close>.
\<close>

definition si_inv :: "('f, 'v) scheduler_interrupt \<Rightarrow> bool" where
  "si_inv s \<longleftrightarrow> \<not> scheduler_callback_mutex s \<and>
     scheduler_per_queue_mutex s = replicate SIGNAL_COUNT False \<and>
     length (scheduler_signal_queues s) = SIGNAL_COUNT \<and>
     (\<forall>k slot h. map_of (scheduler_callbacks s) k = Some (slot, h) \<longrightarrow> 0 \<le> slot \<and> slot < 8) \<and>
     (\<forall>k v. map_of (scheduler_signal_value_reverse_lookup s) k = Some v \<longrightarrow>
        0 \<le> v \<and> v < 8 \<and> v \<noteq> slot_of Sigint \<and> (k = signal_value Sigint \<longrightarrow> v = slot_of Sigabrt))"

definition si_view ::
  "('f, 'v) scheduler_interrupt \<Rightarrow> int \<Rightarrow> (int \<times> ('f, 'v) handler_callback) option" where
  "si_view s = map_of (scheduler_callbacks s)"

definition queue_at :: "int \<Rightarrow> ('f, 'v) scheduler_interrupt \<Rightarrow> (int \<times> bool) list" where
  "queue_at i s = scheduler_signal_queues s ! nat i"

lemma slot_of_range [simp]: "0 \<le> slot_of t" "slot_of t < 8" "nat (slot_of t) < 8"
  by (cases t; simp)+

lemma unlock_relock [simp]:
  "(replicate n False)[i := True, i := False] = replicate n False"
  "(replicate n False)[i := False] = replicate n False"
proof -
  show "(replicate n False)[i := False] = replicate n False"
  proof (cases "i < n")
    case True
    with list_update_id [of "replicate n False" i] show ?thesis by simp
  qed (simp add: list_update_beyond)
  then show "(replicate n False)[i := True, i := False] = replicate n False"
    by simp
qed

lemma array_at_in [simp]: "0 \<le> i \<Longrightarrow> i < int (length xs) \<Longrightarrow> array_at i xs = Inr (xs ! nat i)"
  by (simp add: array_at_def)

lemma lock_queue_free:
  "scheduler_per_queue_mutex s = replicate SIGNAL_COUNT False \<Longrightarrow> 0 \<le> i \<Longrightarrow> i < 8 \<Longrightarrow>
   lock_queue i s =
     Inr (s\<lparr>scheduler_per_queue_mutex := (replicate SIGNAL_COUNT False)[nat i := True]\<rparr>)"
  by (simp add: lock_queue_def SIGNAL_COUNT_def)

lemma unlock_queue_held:
  "scheduler_per_queue_mutex s = (replicate SIGNAL_COUNT False)[nat i := True] \<Longrightarrow> 0 \<le> i \<Longrightarrow> i < 8 \<Longrightarrow>
   unlock_queue i s = Inr (s\<lparr>scheduler_per_queue_mutex := replicate SIGNAL_COUNT False\<rparr>)"
  by (simp add: unlock_queue_def SIGNAL_COUNT_def)

lemma lock_callbacks_free:
  "\<not> scheduler_callback_mutex s \<Longrightarrow>
     lock_callbacks s = Inr (s\<lparr>scheduler_callback_mutex := True\<rparr>)"
  by (simp add: lock_callbacks_def)

lemma push_queue_in:
  "length (scheduler_signal_queues s) = SIGNAL_COUNT \<Longrightarrow> 0 \<le> i \<Longrightarrow> i < 8 \<Longrightarrow>
   push_queue i x s = Inr (put_queue i (queue_at i s @ [x]) s)"
  by (simp add: push_queue_def queue_at_def SIGNAL_COUNT_def)

lemma si_inv_initial: "si_inv interrupt_initial" "si_view interrupt_initial = Map.empty"
  by (auto simp: si_inv_def si_view_def interrupt_initial_def debug_status.defs
      scheduler_interrupt.defs initial_reverse_lookup_def SIGNAL_COUNT_def split: if_splits)

subsection \<open>Reports\<close>

interpretation si_errors: class_errors interrupt_error_code scheduler_interrupt_local_errors
proof unfold_locales
  fix e
  show "0 \<le> interrupt_error_code e \<and>
      interrupt_error_code e < int (length scheduler_interrupt_local_errors)"
    by (cases e) (simp_all add: scheduler_interrupt_local_errors_def)
qed (simp add: scheduler_interrupt_local_errors_def)

lemma si_report_simps [simp]:
  "si_report Si_identifier_not_available s =
     Inr (s\<lparr>debug_class_return_code := Some 0, debug_class_status := ''OK''\<rparr>)"
  "si_report Si_callback_dropped_prematurely s =
     Inr (s\<lparr>debug_class_return_code := Some 1, debug_class_status := ''Allocation failed''\<rparr>)"
  "si_report Si_queue_is_empty s = Inl Assertion_Failed"
  using si_errors.report_cases [of Si_identifier_not_available s]
    si_errors.report_cases [of Si_callback_dropped_prematurely s]
    si_errors.report_cases [of Si_queue_is_empty s]
  by (simp_all add: si_report_def)

subsection \<open>Operations on free mutexes\<close>

lemma si_register_eq:
  assumes "si_inv s"
  shows "si_registerSharedHelper i h t b s =
    (if map_of (scheduler_callbacks s) i = None
     then Inr (True, put_queue (slot_of t) (queue_at (slot_of t) s @ [(i, b)])
        (s\<lparr>scheduler_callbacks := (i, slot_of t, h) # scheduler_callbacks s\<rparr>))
     else Inr (False, s))"
  using assms
  by (auto simp: si_inv_def si_registerSharedHelper_def lock_callbacks_free unlock_callbacks_def
      umap_emplace_def lock_queue_free push_queue_in unlock_queue_held Let_def put_queue_def
      queue_at_def)

lemma si_remove_eq:
  "si_inv s \<Longrightarrow> si_removeRegistration i s = Inr (map_of (scheduler_callbacks s) i \<noteq> None,
     s\<lparr>scheduler_callbacks := umap_erase i (scheduler_callbacks s)\<rparr>)"
  by (auto simp: si_inv_def si_removeRegistration_def lock_callbacks_free unlock_callbacks_def)

lemma si_modify_eq:
  assumes "si_inv s"
  shows "si_modify f i s = (case map_of (scheduler_callbacks s) i of
      None \<Rightarrow> Inr (False, s)
    | Some (slot, h) \<Rightarrow> bind_o (f h) (\<lambda>h'. Inr (True, s\<lparr>scheduler_callbacks :=
        umap_store i (slot, h') (scheduler_callbacks s)\<rparr>)))"
proof (cases "map_of (scheduler_callbacks s) i")
  case None
  with assms show ?thesis
    by (auto simp: si_inv_def si_modify_def si_updateSharedHelper_def lock_callbacks_free
        unlock_callbacks_def)
next
  case (Some x)
  then obtain slot h where x: "map_of (scheduler_callbacks s) i = Some (slot, h)"
    by (cases x) auto
  with assms have range: "0 \<le> slot" "slot < 8"
    unfolding si_inv_def by blast+
  from assms x range show ?thesis
    by (cases "f h") (auto simp: si_inv_def si_modify_def si_updateSharedHelper_def
        lock_callbacks_free unlock_callbacks_def lock_queue_free unlock_queue_held)
qed

lemma si_inv_put_queue [simp]: "si_inv (put_queue i q s) \<longleftrightarrow> si_inv s"
  by (simp add: si_inv_def put_queue_def)

lemma si_view_put_queue [simp]: "si_view (put_queue i q s) = si_view s"
  by (simp add: si_view_def put_queue_def)

lemma si_inv_callbacks:
  "si_inv s \<Longrightarrow> (\<And>k slot h. map_of m k = Some (slot, h) \<Longrightarrow> 0 \<le> slot \<and> slot < 8) \<Longrightarrow>
     si_inv (s\<lparr>scheduler_callbacks := m\<rparr>)"
  by (simp add: si_inv_def)

lemma si_inv_slots:
  assumes "map_of (scheduler_callbacks s) k = Some (slot, h)" and "si_inv s"
  shows "0 \<le> slot" "slot < 8"
  using assms unfolding si_inv_def by blast+

lemma si_view_callbacks [simp]: "si_view (s\<lparr>scheduler_callbacks := m\<rparr>) = map_of m"
  by (simp add: si_view_def)

section \<open>Registrations as a map\<close>

datatype ('f, 'v) si_payload =
  Si_Free "'f option" signal_slot bool | Si_Params "'f option" "'v list" signal_slot bool

primrec si_add ::
  "int \<Rightarrow> ('f, 'v) si_payload \<Rightarrow> ('f, 'v) scheduler_interrupt \<Rightarrow>
   (bool \<times> ('f, 'v) scheduler_interrupt) outcome" where
  "si_add i (Si_Free fp t b) s = si_registerFunction i fp t b s"
| "si_add i (Si_Params fp args t b) s = si_registerFunctionParameters i fp args t b s"

primrec si_entry :: "('f, 'v) si_payload \<Rightarrow> int \<times> ('f, 'v) handler_callback" where
  "si_entry (Si_Free fp t b) =
     (slot_of t, setBoundOrFreeFunction (function_of_pointer fp) (handler_new None))"
| "si_entry (Si_Params fp args t b) = (slot_of t, setFunction fp args (handler_new None))"

primrec si_persist :: "('f, 'v) si_payload \<Rightarrow> bool" where
  "si_persist (Si_Free fp t b) = b"
| "si_persist (Si_Params fp args t b) = b"

lemmas si_register_defs =
  si_registerFunction_def si_registerFunctionParameters_def si_registerShared_def
  si_registerSharedParameterFree_def

lemma si_entry_range: "0 \<le> fst (si_entry d)" "fst (si_entry d) < 8"
  by (cases d; simp)+

lemma si_add_eq:
  assumes "si_inv s"
  shows "si_add i d s = (if map_of (scheduler_callbacks s) i = None
     then Inr (True, put_queue (fst (si_entry d)) (queue_at (fst (si_entry d)) s @ [(i, si_persist d)])
        (s\<lparr>scheduler_callbacks := (i, si_entry d) # scheduler_callbacks s\<rparr>))
     else Inr (False, s))"
  by (cases d) (simp_all add: si_register_defs si_register_eq [OF assms])

lemma si_insert_inv:
  assumes "si_inv s"
  shows "si_inv (s\<lparr>scheduler_callbacks := (i, si_entry d) # scheduler_callbacks s\<rparr>)"
proof (rule si_inv_callbacks [OF assms])
  fix k slot h
  assume "map_of ((i, si_entry d) # scheduler_callbacks s) k = Some (slot, h)"
  then show "0 \<le> slot \<and> slot < 8"
    using si_entry_range [of d] si_inv_slots [of s k slot h] assms
    by (auto split: if_splits)
qed

lemma si_add_inv: "si_inv s \<Longrightarrow> si_add i d s = Inr (r, s') \<Longrightarrow> si_inv s'"
  by (auto simp: si_add_eq si_insert_inv split: if_splits)

lemma si_erase_inv:
  "si_inv s \<Longrightarrow> si_inv (s\<lparr>scheduler_callbacks := umap_erase i (scheduler_callbacks s)\<rparr>)"
  by (rule si_inv_callbacks) (auto split: if_splits dest: si_inv_slots(1) si_inv_slots(2))

interpretation si_reg: registry si_inv si_view si_entry si_add si_removeRegistration
proof unfold_locales
  fix s :: "('f, 'v) scheduler_interrupt" and k d
  assume s: "si_inv s"
  show "\<exists>s'. si_add k d s = Inr (True, s') \<and> si_inv s' \<and> si_view s' = (si_view s)(k \<mapsto> si_entry d)"
    if "si_view s k = None"
    using that si_add_inv [OF s, of k d True] by (simp add: si_add_eq [OF s] si_view_def [of s])
  show "\<exists>s'. si_add k d s = Inr (False, s') \<and> si_inv s' \<and> si_view s' = si_view s"
    if "si_view s k \<noteq> None"
    using that s by (auto simp: si_add_eq [OF s] si_view_def)
  show "\<exists>s'. si_removeRegistration k s = Inr (True, s') \<and> si_inv s' \<and>
      si_view s' = (si_view s)(k := None)" if "si_view s k \<noteq> None"
    using that si_erase_inv [OF s, of k] by (auto simp: si_remove_eq [OF s] si_view_def [of s])
  show "\<exists>s'. si_removeRegistration k s = Inr (False, s') \<and> si_inv s' \<and> si_view s' = si_view s"
    if "si_view s k = None"
    using that si_erase_inv [OF s, of k] fun_upd_triv [of "si_view s" k]
    by (auto simp: si_remove_eq [OF s] si_view_def [of s])
qed

section \<open>The handler\<close>

text \<open>The slot a signal leads to, and the scheduler after the lookup.\<close>

definition signal_offset :: "int \<Rightarrow> ('f, 'v) scheduler_interrupt \<Rightarrow> int" where
  "signal_offset sig s =
     (case map_of (scheduler_signal_value_reverse_lookup s) sig of None \<Rightarrow> 0 | Some i \<Rightarrow> i)"

definition note_signal ::
  "int \<Rightarrow> ('f, 'v) scheduler_interrupt \<Rightarrow> ('f, 'v) scheduler_interrupt" where
  "note_signal sig s = s\<lparr>scheduler_signal_value_reverse_lookup :=
     snd (umap_subscript 0 sig (scheduler_signal_value_reverse_lookup s))\<rparr>"

lemma umap_subscript_offset:
  "umap_subscript 0 sig (scheduler_signal_value_reverse_lookup s) =
     (signal_offset sig s, scheduler_signal_value_reverse_lookup (note_signal sig s))"
  by (simp add: umap_subscript_def signal_offset_def note_signal_def split: option.split)

lemma note_signal_fields [simp]:
  "scheduler_available_for_offload (note_signal sig s) = scheduler_available_for_offload s"
  "scheduler_callbacks (note_signal sig s) = scheduler_callbacks s"
  "scheduler_signal_queues (note_signal sig s) = scheduler_signal_queues s"
  "queue_at i (note_signal sig s) = queue_at i s"
  by (simp_all add: note_signal_def queue_at_def)

lemma note_signal_inv: "si_inv s \<Longrightarrow> si_inv (note_signal sig s)"
  by (auto simp: si_inv_def note_signal_def umap_subscript_def split: option.split if_splits)

lemma signal_offset_range:
  assumes "si_inv s"
  shows "0 \<le> signal_offset sig s" "signal_offset sig s < 8" "signal_offset sig s \<noteq> slot_of Sigint"
  using assms by (auto simp: si_inv_def signal_offset_def split: option.split)

text \<open>
  One signal, when the callbacks leave the scheduler alone: the callback of the newest queue
  entry is called, and the oldest entry is dropped.
\<close>

definition si_served ::
  "('f, 'v, 'w) user_code \<Rightarrow> int \<Rightarrow> ('f, 'v) scheduler_interrupt \<Rightarrow> 'w \<Rightarrow>
   (('f, 'v) scheduler_interrupt \<times> 'w) outcome" where
  "si_served prog i s w =
     (let (k, persist) = last (queue_at i s) in
      bind_o (case map_of (scheduler_callbacks s) k of
          None \<Rightarrow> Inr (s\<lparr>debug_class_return_code := Some 1,
                         debug_class_status := ''Allocation failed''\<rparr>, w)
        | Some (slot, h) \<Rightarrow> bind_o (handler_run prog h w) (\<lambda>w'. Inr (s, w'))) (\<lambda>(s1, w1).
      Inr (if persist then put_queue i (tl (queue_at i s1) @ [(k, True)]) s1
           else put_queue i (tl (queue_at i s1)) (s1\<lparr>scheduler_callbacks :=
             umap_erase k (scheduler_callbacks s1)\<rparr>), w1)))"

lemma mutex_idem:
  "scheduler_callback_mutex s = b \<Longrightarrow> s\<lparr>scheduler_callback_mutex := b\<rparr> = s"
  "scheduler_per_queue_mutex s = ms \<Longrightarrow> s\<lparr>scheduler_per_queue_mutex := ms\<rparr> = s"
  by simp_all

lemma handler_eq:
  fixes s :: "('f, 'v) scheduler_interrupt"
  assumes "si_inv s" and "scheduler_available_for_offload s"
  shows "handlerUpdateAndRun (world_code prog) sig s w =
    (let i = signal_offset sig s; s0 = note_signal sig s in
     if queue_at i s0 = [] then Inl Assertion_Failed else si_served prog i s0 w)"
proof -
  define i where "i = signal_offset sig s"
  define s0 where "s0 = note_signal sig s"
  have i: "0 \<le> i" "i < 8"
    using signal_offset_range [OF assms(1)] by (simp_all add: i_def)
  have inv: "si_inv s0"
    using note_signal_inv [OF assms(1)] by (simp add: s0_def)
  then have free: "\<not> scheduler_callback_mutex s0"
    "scheduler_per_queue_mutex s0 = replicate SIGNAL_COUNT False"
    "length (scheduler_signal_queues s0) = SIGNAL_COUNT"
    by (auto simp: si_inv_def)
  have av: "scheduler_available_for_offload s0"
    using assms(2) by (simp add: s0_def)
  have s0: "s\<lparr>scheduler_signal_value_reverse_lookup := scheduler_signal_value_reverse_lookup s0\<rparr> = s0"
    by (simp add: s0_def note_signal_def)
  have len: "0 \<le> i \<and> i < int (length (scheduler_signal_queues s0))"
    using i free(3) by (simp add: SIGNAL_COUNT_def)
  have n: "nat i < length (scheduler_signal_queues s0)" "nat i < SIGNAL_COUNT"
    using i free(3) by (simp_all add: SIGNAL_COUNT_def)
  note eqs = free i n av assms(2) mutex_idem lock_queue_free lock_callbacks_free unlock_callbacks_def unlock_queue_held
    push_queue_in handlerUpdateAndRun_def umap_subscript_offset Let_def
  show ?thesis
  proof (cases "queue_at i s0 = []")
    case True
    then show ?thesis
      using len by (simp add: eqs i_def [symmetric] s0_def [symmetric] s0 queue_at_def)
  next
    case False
    note ne = this
    let ?l = "last (queue_at i s0)"
    note unfold = eqs i_def [symmetric] s0_def [symmetric] s0 queue_at_def si_served_def
      handler_run_world_code put_queue_def pop_queue_def tl_append2
    show ?thesis
    proof (cases "map_of (scheduler_callbacks s0) (fst ?l)")
      case None
      with ne len show ?thesis
        by (cases ?l; cases "snd ?l") (auto simp: unfold)
    next
      case (Some x)
      with ne len show ?thesis
        by (cases x; cases ?l; cases "snd ?l"; cases "handler_run prog (snd x) w")
          (auto simp: unfold)
    qed
  qed
qed

lemma si_served_inv:
  assumes "si_inv s" and "si_served prog i s w = Inr (s', w')"
  shows "si_inv s'"
proof -
  have report: "si_inv (s\<lparr>debug_class_return_code := c, debug_class_status := t\<rparr>)" for c t
    using assms(1) by (simp add: si_inv_def)
  show ?thesis
    using assms(2) si_erase_inv [OF report] si_erase_inv [OF assms(1)] report assms(1)
    by (auto simp: si_served_def outcome_rules split: prod.splits option.splits if_splits)
qed

lemma handler_inv_step:
  assumes "si_inv s" and "handlerUpdateAndRun (world_code prog) sig s w = Inr (s', w')"
  shows "si_inv s'"
proof (cases "scheduler_available_for_offload s")
  case True
  with assms show ?thesis
    using si_served_inv [OF note_signal_inv [OF assms(1)]]
    by (auto simp: handler_eq Let_def split: if_splits)
next
  case False
  then have "handlerUpdateAndRun (world_code prog) sig s w = Inr (note_signal sig s, w)"
    by (simp add: handlerUpdateAndRun_def umap_subscript_offset Let_def)
      (simp add: note_signal_def)
  with assms note_signal_inv show ?thesis by auto
qed

lemma si_clean_queues_eq:
  assumes "scheduler_per_queue_mutex s = replicate SIGNAL_COUNT False" and "n \<le> SIGNAL_COUNT"
    and "length (scheduler_signal_queues s) = SIGNAL_COUNT"
  shows "si_clean_queues n s = Inr (s\<lparr>scheduler_signal_queues :=
    take (SIGNAL_COUNT - n) (scheduler_signal_queues s) @ replicate n []\<rparr>)"
  using assms
proof (induction n arbitrary: s)
  case (Suc n)
  let ?i = "SIGNAL_COUNT - Suc n"
  have i: "0 \<le> int ?i" "int ?i < 8" "?i < length (scheduler_signal_queues s)"
    using Suc.prems(2,3) by (auto simp: SIGNAL_COUNT_def)
  let ?s = "s\<lparr>scheduler_signal_queues := (scheduler_signal_queues s)[?i := []]\<rparr>"
  have "si_clean_queues (Suc n) s = si_clean_queues n ?s"
    using Suc.prems(1) i
    by (simp add: Let_def lock_queue_free unlock_queue_held put_queue_def mutex_idem)
  moreover have "take (SIGNAL_COUNT - n) ((scheduler_signal_queues s)[?i := []]) =
      take ?i (scheduler_signal_queues s) @ [[]]"
  proof -
    have "SIGNAL_COUNT - n = Suc ?i" using Suc.prems(2) by simp
    with i(3) show ?thesis
      by (simp add: take_Suc_conv_app_nth)
  qed
  ultimately show ?case
    using Suc.IH [of ?s] Suc.prems by (simp add: replicate_app_Cons_same)
qed simp

lemma si_clean_eq:
  assumes "si_inv s"
  shows "si_clean s = Inr (s\<lparr>scheduler_callbacks := [],
    scheduler_signal_queues := replicate SIGNAL_COUNT []\<rparr>)"
  using assms by (simp add: si_inv_def si_clean_def lock_callbacks_free unlock_callbacks_def
      si_clean_queues_eq)

section \<open>Reachable schedulers\<close>

inductive si_reach ::
  "('f, 'v, 'w) user_code \<Rightarrow> ('f, 'v) scheduler_interrupt \<Rightarrow> bool"
  for prog :: "('f, 'v, 'w) user_code" where
  initial: "si_reach prog interrupt_initial"
| register: "si_reach prog s \<Longrightarrow> si_add i d s = Inr (r, s') \<Longrightarrow> si_reach prog s'"
| remove: "si_reach prog s \<Longrightarrow> si_removeRegistration i s = Inr (r, s') \<Longrightarrow> si_reach prog s'"
| update: "si_reach prog s \<Longrightarrow> si_updateRegistration i fp s = Inr (r, s') \<Longrightarrow> si_reach prog s'"
| update_parameters: "si_reach prog s \<Longrightarrow>
    si_updateRegistrationParameters i (Some f) args s = Inr (r, s') \<Longrightarrow> si_reach prog s'"
| update_parameters_only: "si_reach prog s \<Longrightarrow>
    si_updateRegistrationParametersOnly i args s = Inr (r, s') \<Longrightarrow> si_reach prog s'"
| toggle: "si_reach prog s \<Longrightarrow> si_reach prog (toggleHandlerSignaling s)"
| signal: "si_reach prog s \<Longrightarrow>
    handlerUpdateAndRun (world_code prog) sig s w = Inr (s', w') \<Longrightarrow> si_reach prog s'"
| clean: "si_reach prog s \<Longrightarrow> si_clean s = Inr s' \<Longrightarrow> si_reach prog s'"

lemma si_modify_inv:
  assumes "si_inv s" and "si_modify f i s = Inr (r, s')"
  shows "si_inv s'"
proof (cases "map_of (scheduler_callbacks s) i")
  case None
  with assms show ?thesis by (simp add: si_modify_eq)
next
  case (Some x)
  then obtain slot h where x: "map_of (scheduler_callbacks s) i = Some (slot, h)"
    by (cases x) auto
  then obtain h' where s': "s' = s\<lparr>scheduler_callbacks := umap_store i (slot, h')
      (scheduler_callbacks s)\<rparr>"
    using assms by (auto simp: si_modify_eq outcome_rules)
  show ?thesis
    unfolding s'
  proof (rule si_inv_callbacks [OF assms(1)])
    fix k slot' h''
    assume "map_of (umap_store i (slot, h') (scheduler_callbacks s)) k = Some (slot', h'')"
    then show "0 \<le> slot' \<and> slot' < 8"
      using x si_inv_slots [OF x assms(1)] si_inv_slots [of s k slot' h''] assms(1)
      by (auto split: if_splits)
  qed
qed

lemma si_reach_inv: "si_reach prog s \<Longrightarrow> si_inv s"
proof (induction rule: si_reach.induct)
  case (toggle s)
  then show ?case by (simp add: toggleHandlerSignaling_def si_inv_def)
next
  case (clean s s')
  then show ?case
    by (auto simp: si_clean_eq) (simp add: si_inv_def)
qed (auto simp: si_inv_initial si_updateRegistration_def si_updateSharedParameterFree_def
    si_updateRegistrationParameters_def si_updateRegistrationParametersOnly_def
    si_updateShared_def si_remove_eq si_erase_inv
    intro: si_add_inv si_modify_inv handler_inv_step)

section \<open>Properties\<close>

text \<open>The constructor of the interrupt scheduler never returns: \<open>test_and_set\<close> yields
  the old value of a flag that has just been initialised to clear, and the constructor asserts
  that value.\<close>

theorem interrupt_new_aborts: "interrupt_new = Inl Assertion_Failed"
  by (simp add: interrupt_new_def interrupt_initial_def debug_status.defs scheduler_interrupt.defs
      Let_def)

text \<open>The properties below are therefore about the operations themselves, on the members as the
  constructor initialises them: what the class does once that one assertion is corrected (it
  should be negated) and the handlers are installed.\<close>

subsection \<open>The table and the queues\<close>

text \<open>
  The specification: a map from identifiers to slots and callbacks, and for each signal the
  identifiers to be served, the oldest first, each with its persistence.  Removing an identifier
  and updating it leave the queues alone: what was queued for a removed identifier stays.
\<close>

type_synonym ('f, 'v) si_tables =
  "(int \<rightharpoonup> int \<times> ('f, 'v) handler_callback) \<times> (signal_slot \<Rightarrow> (int \<times> bool) list)"

datatype ('f, 'v) si_op =
    So_Add int "('f, 'v) si_payload"
  | So_Remove int
  | So_Update int "'f option"
  | So_Update_parameters int 'f "'v list"
  | So_Clean

primrec si_step ::
  "('f, 'v) si_op \<Rightarrow> ('f, 'v) scheduler_interrupt \<Rightarrow> (bool \<times> ('f, 'v) scheduler_interrupt) outcome" where
  "si_step (So_Add i d) s = si_add i d s"
| "si_step (So_Remove i) s = si_removeRegistration i s"
| "si_step (So_Update i fp) s = si_updateRegistration i fp s"
| "si_step (So_Update_parameters i f args) s = si_updateRegistrationParameters i (Some f) args s"
| "si_step So_Clean s = bind_o (si_clean s) (\<lambda>s'. Inr (True, s'))"

primrec si_slot :: "('f, 'v) si_payload \<Rightarrow> signal_slot" where
  "si_slot (Si_Free fp t b) = t"
| "si_slot (Si_Params fp args t b) = t"

definition change_entry ::
  "int \<Rightarrow> (('f, 'v) handler_callback \<Rightarrow> ('f, 'v) handler_callback) \<Rightarrow>
   (int \<rightharpoonup> int \<times> ('f, 'v) handler_callback) \<Rightarrow> (int \<rightharpoonup> int \<times> ('f, 'v) handler_callback)" where
  "change_entry i f m = m(i := map_option (map_prod id f) (m i))"

primrec si_spec :: "('f, 'v) si_op \<Rightarrow> ('f, 'v) si_tables \<Rightarrow> bool \<times> ('f, 'v) si_tables" where
  "si_spec (So_Add i d) x = (if fst x i = None
     then (True, (fst x)(i \<mapsto> si_entry d),
       (snd x)(si_slot d := snd x (si_slot d) @ [(i, si_persist d)]))
     else (False, x))"
| "si_spec (So_Remove i) x = (fst x i \<noteq> None, (fst x)(i := None), snd x)"
| "si_spec (So_Update i fp) x = (fst x i \<noteq> None,
     change_entry i (setBoundOrFreeFunction (function_of_pointer fp)) (fst x), snd x)"
| "si_spec (So_Update_parameters i f args) x = (fst x i \<noteq> None,
     change_entry i (setFunction (Some f) args) (fst x), snd x)"
| "si_spec So_Clean x = (True, Map.empty, \<lambda>_. [])"

definition si_tables :: "('f, 'v) scheduler_interrupt \<Rightarrow> ('f, 'v) si_tables" where
  "si_tables s = (si_view s, \<lambda>t. queue_at (slot_of t) s)"

lemma slot_of_inj: "nat (slot_of t) = nat (slot_of t') \<longleftrightarrow> t = t'"
  by (cases t; cases t') simp_all

lemma si_entry_slot: "fst (si_entry d) = slot_of (si_slot d)"
  by (cases d) simp_all

lemma si_tables_callbacks [simp]:
  "si_tables (s\<lparr>scheduler_callbacks := m\<rparr>) = (map_of m, snd (si_tables s))"
  by (simp add: si_tables_def queue_at_def)

lemma si_tables_put:
  assumes "si_inv s"
  shows "si_tables (put_queue (slot_of t) q s) = (fst (si_tables s), (snd (si_tables s))(t := q))"
proof -
  have "nat (slot_of t) < length (scheduler_signal_queues s)"
    using assms by (simp add: si_inv_def SIGNAL_COUNT_def)
  then show ?thesis
    using slot_of_inj [of t] by (auto simp: si_tables_def si_view_def queue_at_def put_queue_def
        fun_eq_iff nth_list_update)
qed

lemma si_updates_modify:
  "si_updateRegistration i fp s =
     si_modify (\<lambda>h. Inr (setBoundOrFreeFunction (function_of_pointer fp) h)) i s"
  "si_updateRegistrationParameters i (Some f) args s =
     si_modify (\<lambda>h. Inr (setFunction (Some f) args h)) i s"
  by (simp_all add: si_updateRegistration_def si_updateSharedParameterFree_def
      si_updateRegistrationParameters_def si_updateShared_def)

lemma si_tables_modify:
  assumes "si_inv s"
  shows "\<exists>s'. si_modify (\<lambda>h. Inr (f h)) i s = Inr (si_view s i \<noteq> None, s') \<and> si_inv s' \<and>
    si_tables s' = (change_entry i f (fst (si_tables s)), snd (si_tables s))"
proof (cases "map_of (scheduler_callbacks s) i")
  case None
  then have "change_entry i f (fst (si_tables s)) = fst (si_tables s)"
    by (simp add: change_entry_def si_tables_def si_view_def fun_upd_idem)
  with None assms show ?thesis by (simp add: si_modify_eq si_view_def)
next
  case (Some x)
  obtain slot h where x: "x = (slot, h)" by (cases x)
  let ?s = "s\<lparr>scheduler_callbacks := umap_store i (slot, f h) (scheduler_callbacks s)\<rparr>"
  have run: "si_modify (\<lambda>h. Inr (f h)) i s = Inr (True, ?s)"
    using assms Some x by (simp add: si_modify_eq)
  moreover have "si_tables ?s = (change_entry i f (fst (si_tables s)), snd (si_tables s))"
    using Some x by (simp add: change_entry_def) (simp add: si_tables_def si_view_def)
  ultimately show ?thesis
    using si_modify_inv [OF assms run] Some by (simp add: si_view_def)
qed

interpretation si_queue: simulation si_inv si_tables si_step si_spec
proof unfold_locales
  fix s :: "('f, 'v) scheduler_interrupt" and op
  assume s: "si_inv s"
  have view: "fst (si_tables s) = map_of (scheduler_callbacks s)"
    by (simp add: si_tables_def si_view_def)
  show "\<exists>s'. si_step op s = Inr (fst (si_spec op (si_tables s)), s') \<and> si_inv s' \<and>
    si_tables s' = snd (si_spec op (si_tables s))"
  proof (cases op)
    case (So_Add i d)
    have "si_tables (put_queue (slot_of (si_slot d)) q (s\<lparr>scheduler_callbacks := m\<rparr>)) =
        (map_of m, (snd (si_tables s))(si_slot d := q))"
      if "si_inv (s\<lparr>scheduler_callbacks := m\<rparr>)" for q m
      using si_tables_put [OF that] by simp
    with So_Add s si_insert_inv [OF s, of i d] show ?thesis
      by (auto simp: si_add_eq si_entry_slot view) (simp_all add: si_tables_def)
  next
    case (So_Remove i)
    with s si_erase_inv [OF s, of i] show ?thesis by (simp add: si_remove_eq view)
  next
    case (So_Clean)
    have "si_inv (s\<lparr>scheduler_callbacks := [], scheduler_signal_queues := replicate SIGNAL_COUNT []\<rparr>)"
      using s by (simp add: si_inv_def)
    with So_Clean s show ?thesis
      by (simp add: si_clean_eq) (simp add: si_tables_def si_view_def queue_at_def SIGNAL_COUNT_def)
  qed (use si_tables_modify [OF s] in \<open>simp_all add: si_updates_modify si_tables_def\<close>)
qed

lemma si_tables_initial: "si_tables interrupt_initial = (Map.empty, \<lambda>_. [])"
  by (simp add: si_tables_def si_inv_initial(2)) (simp add: interrupt_initial_def
      debug_status.defs scheduler_interrupt.defs queue_at_def SIGNAL_COUNT_def)

text \<open>Claim C2.  On the members as the constructor initialises them, every sequence of registrations,
  removals, replacements of the callback and \<open>clean\<close> takes and frees every mutex, returns the flags
  of the specification and leaves exactly its table and its queues: an identifier that was free is
  entered with its slot and callback, and put once, with its persistence, behind what waits for its
  signal; a taken one changes nothing; a removed one leaves the table but not the queue.\<close>

theorem interrupt_refines_tables:
  "\<exists>s'. ops_run si_step ops interrupt_initial =
      Inr (fst (ops_spec si_spec ops (Map.empty, \<lambda>_. [])), s') \<and> si_inv s' \<and>
    map_of (scheduler_callbacks s') = fst (snd (ops_spec si_spec ops (Map.empty, \<lambda>_. []))) \<and>
    (\<forall>t. scheduler_signal_queues s' ! nat (slot_of t) =
      snd (snd (ops_spec si_spec ops (Map.empty, \<lambda>_. []))) t)"
proof -
  obtain s' where s': "ops_run si_step ops interrupt_initial =
      Inr (fst (ops_spec si_spec ops (Map.empty, \<lambda>_. [])), s')" "si_inv s'"
    "si_tables s' = snd (ops_spec si_spec ops (Map.empty, \<lambda>_. []))"
    using si_queue.run_simulates [OF si_inv_initial(1), of ops] by (auto simp: si_tables_initial)
  from this(3) [symmetric] have "fst (snd (ops_spec si_spec ops (Map.empty, \<lambda>_. []))) =
      map_of (scheduler_callbacks s')"
    and "snd (snd (ops_spec si_spec ops (Map.empty, \<lambda>_. []))) t =
      scheduler_signal_queues s' ! nat (slot_of t)" for t
    by (simp_all add: si_tables_def si_view_def queue_at_def)
  with s'(1,2) show ?thesis by auto
qed

fun si_signals ::
  "('f, 'v, ('f, 'v) scheduler_interrupt \<times> 'w) user_code \<Rightarrow> int \<Rightarrow> nat \<Rightarrow>
   ('f, 'v) scheduler_interrupt \<Rightarrow> 'w \<Rightarrow> (('f, 'v) scheduler_interrupt \<times> 'w) outcome" where
  "si_signals prog sig 0 s w = Inr (s, w)"
| "si_signals prog sig (Suc n) s w =
     bind_o (handlerUpdateAndRun prog sig s w) (\<lambda>(s1, w1). si_signals prog sig n s1 w1)"

lemma signal_offset_note [simp]: "signal_offset sig (note_signal sig s) = signal_offset sig s"
  by (simp add: signal_offset_def note_signal_def umap_subscript_def split: option.split)

lemma note_signal_idem [simp]: "note_signal sig (note_signal sig s) = note_signal sig s"
  by (simp add: note_signal_def umap_subscript_def split: option.split)

lemma queue_at_put [simp]:
  "si_inv s \<Longrightarrow> 0 \<le> i \<Longrightarrow> i < 8 \<Longrightarrow> queue_at i (put_queue i q s) = q"
  by (simp add: queue_at_def put_queue_def si_inv_def SIGNAL_COUNT_def)

lemma put_queue_fields [simp]:
  "scheduler_available_for_offload (put_queue i q s) = scheduler_available_for_offload s"
  "scheduler_callbacks (put_queue i q s) = scheduler_callbacks s"
  "signal_offset sig (put_queue i q s) = signal_offset sig s"
  by (simp_all add: put_queue_def signal_offset_def)

text \<open>Serving a persistent newest entry.\<close>

lemma handler_persistent:
  assumes "si_inv s" and "scheduler_available_for_offload s"
    and "queue_at (signal_offset sig s) s \<noteq> []"
    and "last (queue_at (signal_offset sig s) s) = (k, True)"
    and "map_of (scheduler_callbacks s) k = Some (slot, h)"
  shows "handlerUpdateAndRun (world_code prog) sig s w =
    bind_o (handler_run prog h w) (\<lambda>w'. Inr (put_queue (signal_offset sig s)
      (tl (queue_at (signal_offset sig s) s) @ [(k, True)]) (note_signal sig s), w'))"
  using assms by (simp add: handler_eq Let_def si_served_def bind_o_assoc)

text \<open>Claim C13.  The newest persistent task of a signal starves the others.  When the newest entry
  of a queue is persistent and registered, \<open>n\<close> arrivals of the signal call that callback \<open>n\<close>
  times, and every one of them drops the oldest entry, called or not, in favour of a copy of the
  newest one.\<close>

theorem newest_task_starves_older:
  assumes "si_reach prog s" and "scheduler_available_for_offload s"
    and "i = signal_offset sig s" and "queue_at i s \<noteq> []" and "last (queue_at i s) = (k, True)"
    and "map_of (scheduler_callbacks s) k = Some (slot, h)"
  shows "\<exists>s'. si_signals (world_code prog) sig n s w =
      bind_o (call_repeatedly prog h n w) (\<lambda>w'. Inr (s', w')) \<and>
    queue_at i s' = drop n (queue_at i s @ replicate n (k, True))"
proof -
  have "\<exists>s'. (\<forall>w. si_signals (world_code prog) sig n s w =
      bind_o (call_repeatedly prog h n w) (\<lambda>w'. Inr (s', w'))) \<and>
    queue_at i s' = drop n (queue_at i s @ replicate n (k, True))"
    using si_reach_inv [OF assms(1)] assms(2-6)
  proof (induction n arbitrary: s)
    case (Suc n)
    let ?s = "put_queue i (tl (queue_at i s) @ [(k, True)]) (note_signal sig s)"
    have i: "0 \<le> i" "i < 8"
      using signal_offset_range [OF Suc.prems(1)] Suc.prems(3) by simp_all
    have q: "queue_at i ?s = tl (queue_at i s) @ [(k, True)]"
      using i note_signal_inv [OF Suc.prems(1)] by simp
    have "si_inv ?s" "scheduler_available_for_offload ?s" "i = signal_offset sig ?s"
      "map_of (scheduler_callbacks ?s) k = Some (slot, h)"
      using Suc.prems note_signal_inv [OF Suc.prems(1)] by simp_all
    from Suc.IH [OF this(1,2,3) _ _ this(4)] q obtain s' where s':
      "\<And>w. si_signals (world_code prog) sig n ?s w =
         bind_o (call_repeatedly prog h n w) (\<lambda>w'. Inr (s', w'))"
      "queue_at i s' = drop n ((tl (queue_at i s) @ [(k, True)]) @ replicate n (k, True))"
      by auto
    have "handlerUpdateAndRun (world_code prog) sig s w =
        bind_o (handler_run prog h w) (\<lambda>w'. Inr (?s, w'))" for w
      using handler_persistent [OF Suc.prems(1,2) _ _ Suc.prems(6), of sig prog w] Suc.prems(3-5)
      by simp
    then have "si_signals (world_code prog) sig (Suc n) s w =
        bind_o (call_repeatedly prog h (Suc n) w) (\<lambda>w'. Inr (s', w'))" for w
      using s'(1) by (simp add: bind_o_assoc)
    moreover have "queue_at i s' = drop (Suc n) (queue_at i s @ replicate (Suc n) (k, True))"
      using s'(2) Suc.prems(4) by (cases "queue_at i s") (simp_all add: replicate_app_Cons_same)
    ultimately show ?case by blast
  qed simp
  then show ?thesis by blast
qed

text \<open>Two tasks on \<open>SIGABRT\<close>, handling switched on.\<close>

definition interrupt_log_code :: "(string, unit, string list) user_code" where
  "interrupt_log_code f args w = Inr (w @ [f])"

definition abort_tasks :: "bool \<Rightarrow> (string, unit) scheduler_interrupt" where
  "abort_tasks persist = toggleHandlerSignaling
     (put_queue 0 ([] @ [(1, True)] @ [(2, persist)]) (interrupt_initial\<lparr>scheduler_callbacks :=
        [(2, si_entry (Si_Free (Some ''newer'') Sigabrt persist)),
         (1, si_entry (Si_Free (Some ''older'') Sigabrt True))]\<rparr>))"

lemma interrupt_initial_simps [simp]:
  "scheduler_callbacks interrupt_initial = []"
  "scheduler_signal_queues interrupt_initial = replicate 8 []"
  "scheduler_available_for_offload interrupt_initial = False"
  "scheduler_signal_value_reverse_lookup interrupt_initial = initial_reverse_lookup"
  by (simp_all add: interrupt_initial_def debug_status.defs scheduler_interrupt.defs SIGNAL_COUNT_def)

lemma abort_tasks_reach: "si_reach prog (abort_tasks b)"
proof -
  let ?d1 = "Si_Free (Some ''older'') Sigabrt True" and ?d2 = "Si_Free (Some ''newer'') Sigabrt b"
  let ?s1 = "put_queue 0 [(1, True)] (interrupt_initial\<lparr>scheduler_callbacks := [(1, si_entry ?d1)]\<rparr>)"
  have 1: "si_add 1 ?d1 interrupt_initial = Inr (True, ?s1)"
    unfolding si_add_eq [OF si_inv_initial(1)] by (simp add: queue_at_def)
  have inv: "si_inv ?s1"
    by (rule si_add_inv [OF si_inv_initial(1) 1])
  have "si_add 2 ?d2 ?s1 = Inr (True, put_queue 0 [(1, True), (2, b)]
      (interrupt_initial\<lparr>scheduler_callbacks := [(2, si_entry ?d2), (1, si_entry ?d1)]\<rparr>))"
    unfolding si_add_eq [OF inv] by (simp add: put_queue_def queue_at_def)
  from si_reach.toggle [OF si_reach.register [OF si_reach.register [OF si_reach.initial 1] this]]
  show ?thesis by (simp add: abort_tasks_def)
qed

lemma abort_tasks_simps [simp]:
  "scheduler_available_for_offload (abort_tasks b)"
  "signal_offset 6 (abort_tasks b) = 0"
  "queue_at 0 (abort_tasks b) = [(1, True), (2, b)]"
  "map_of (scheduler_callbacks (abort_tasks b)) 2 =
     Some (0, setBoundOrFreeFunction (Some (Bound (Some ''newer'') [])) (handler_new None))"
  "map_of (scheduler_callbacks (abort_tasks b)) 1 =
     Some (0, setBoundOrFreeFunction (Some (Bound (Some ''older'') [])) (handler_new None))"
  by (simp_all add: abort_tasks_def toggleHandlerSignaling_def put_queue_def queue_at_def
      signal_offset_def initial_reverse_lookup_def function_of_pointer_def)

theorem newest_task_starves_older_witness:
  "\<exists>s'. si_signals (world_code interrupt_log_code) 6 2 (abort_tasks True) [] =
      Inr (s', [''newer'', ''newer'']) \<and> queue_at 0 s' = [(2, True), (2, True)]"
  using newest_task_starves_older [OF abort_tasks_reach, of True 0 6 2 0
      "setBoundOrFreeFunction (Some (Bound (Some ''newer'') [])) (handler_new None)"
      interrupt_log_code 2 "[]"]
  by (simp add: interrupt_log_code_def numeral_2_eq_2)

text \<open>A newer one-shot task makes an older task of the same signal unreachable.  The
  first arrival calls the newer task but drops the older one's queue entry; the second finds the
  newer one's identifier gone, reports code 1 under the text of an allocation failure and drops
  the last entry; the third ends the program in the report of the empty queue.  The older
  callback was never called and is still registered.\<close>

theorem one_shot_drops_older:
  assumes "si_reach prog s" and "scheduler_available_for_offload s"
    and "i = signal_offset sig s" and "queue_at i s = [(a, p), (b, False)]" and "a \<noteq> b"
    and "map_of (scheduler_callbacks s) b = Some (slot, h)"
    and "handler_run prog h w = Inr w'"
  shows "\<exists>s1 s2. handlerUpdateAndRun (world_code prog) sig s w = Inr (s1, w') \<and>
    handlerUpdateAndRun (world_code prog) sig s1 w' = Inr (s2, w') \<and>
    debug_class_return_code s2 = Some 1 \<and> debug_class_status s2 = ''Allocation failed'' \<and>
    si_view s2 = (si_view s)(b := None) \<and>
    handlerUpdateAndRun (world_code prog) sig s2 w' = Inl Assertion_Failed"
proof -
  have inv: "si_inv s" by (rule si_reach_inv [OF assms(1)])
  have i: "0 \<le> i" "i < 8"
    using signal_offset_range [OF inv] assms(3) by simp_all
  let ?e = "\<lambda>s :: ('a, 'b) scheduler_interrupt.
    s\<lparr>scheduler_callbacks := umap_erase b (scheduler_callbacks s)\<rparr>"
  let ?s1 = "put_queue i [(b, False)] (?e (note_signal sig s))"
  have inv1: "si_inv ?s1"
    using si_erase_inv [OF note_signal_inv [OF inv], of b sig] by simp
  have off1: "signal_offset sig ?s1 = i"
    using signal_offset_note [of sig s] assms(3)
    by (simp add: signal_offset_def put_queue_def)
  have 1: "handlerUpdateAndRun (world_code prog) sig s w = Inr (?s1, w')"
    using inv assms(2-7) by (simp add: handler_eq Let_def si_served_def)
  let ?r = "note_signal sig ?s1\<lparr>debug_class_return_code := Some 1,
    debug_class_status := ''Allocation failed''\<rparr>"
  let ?s2 = "put_queue i [] (?e ?r)"
  have q1: "queue_at i ?s1 = [(b, False)]"
    using i si_erase_inv [OF note_signal_inv [OF inv], of b sig] by simp
  have 2: "handlerUpdateAndRun (world_code prog) sig ?s1 w' = Inr (?s2, w')"
  proof -
    have "handlerUpdateAndRun (world_code prog) sig ?s1 w' = si_served prog i (note_signal sig ?s1) w'"
      using handler_eq [OF inv1, of prog sig w'] off1 q1 assms(2) by (simp add: Let_def)
    moreover have "si_served prog i (note_signal sig ?s1) w' = Inr (?s2, w')"
      unfolding si_served_def using q1 by (simp add: queue_at_def)
    ultimately show ?thesis by simp
  qed
  have inv2: "si_inv ?s2"
    by (rule handler_inv_step [OF inv1 2])
  have off2: "signal_offset sig ?s2 = i"
    using signal_offset_note [of sig ?s1] off1 by (simp add: signal_offset_def put_queue_def)
  have "queue_at i ?s2 = []"
    using inv2 i by simp
  with handler_eq [OF inv2, of prog sig w'] off2 assms(2)
  have 3: "handlerUpdateAndRun (world_code prog) sig ?s2 w' = Inl Assertion_Failed"
    by (simp add: Let_def put_queue_def)
  have "si_view ?s2 = (si_view s)(b := None)"
    by (simp add: si_view_def put_queue_def)
  with 1 2 3 show ?thesis
    by (intro exI [of _ ?s1] exI [of _ ?s2]) (simp add: put_queue_def)
qed

theorem one_shot_drops_older_witness:
  "\<exists>s1 s2. handlerUpdateAndRun (world_code interrupt_log_code) 6 (abort_tasks False) [] =
      Inr (s1, [''newer'']) \<and>
    handlerUpdateAndRun (world_code interrupt_log_code) 6 s1 [''newer''] = Inr (s2, [''newer'']) \<and>
    si_view s2 1 \<noteq> None"
  using one_shot_drops_older [OF abort_tasks_reach, of False 0 6 1 True 2 0
      "setBoundOrFreeFunction (Some (Bound (Some ''newer'') [])) (handler_new None)"
      interrupt_log_code "[]" "[''newer'']"]
  by (fastforce simp: interrupt_log_code_def si_view_def)

text \<open>Tasks registered for \<open>SIGINT\<close> are never served.  The reverse lookup has no entry
  for it, so its arrival is dispatched to the queue of \<open>SIGABRT\<close>; and whatever signal arrives, a
  handler that returns leaves the queue of \<open>SIGINT\<close> as it was.\<close>

theorem sigint_never_served:
  assumes "si_reach prog s"
  shows "signal_offset (signal_value Sigint) s = slot_of Sigabrt \<and>
    (\<forall>sig w s' w'. handlerUpdateAndRun (world_code prog) sig s w = Inr (s', w') \<longrightarrow>
      queue_at (slot_of Sigint) s' = queue_at (slot_of Sigint) s)"
proof (intro conjI allI impI)
  have inv: "si_inv s" by (rule si_reach_inv [OF assms])
  then show "signal_offset (signal_value Sigint) s = slot_of Sigabrt"
    by (auto simp: si_inv_def signal_offset_def split: option.split)
  fix sig w s' w'
  assume run: "handlerUpdateAndRun (world_code prog) sig s w = Inr (s', w')"
  have ne: "nat (signal_offset sig s) \<noteq> 3"
    using signal_offset_range [OF inv, of sig] by auto
  show "queue_at (slot_of Sigint) s' = queue_at (slot_of Sigint) s"
  proof (cases "scheduler_available_for_offload s")
    case True
    with run ne show ?thesis
      by (auto simp: handler_eq [OF inv True] si_served_def put_queue_def queue_at_def Let_def
          outcome_rules note_signal_def split: if_splits prod.splits option.splits)
  next
    case False
    with run show ?thesis
      by (auto simp: handlerUpdateAndRun_def umap_subscript_offset queue_at_def Let_def)
  qed
qed

theorem sigint_never_served_witness:
  "\<exists>s'. handlerUpdateAndRun (world_code interrupt_log_code) (signal_value Sigint)
      (abort_tasks True) [] = Inr (s', [''newer'']) \<and>
    queue_at (slot_of Sigint) s' = queue_at (slot_of Sigint) (abort_tasks True)"
proof -
  note abort = abort_tasks_reach [of interrupt_log_code True]
  have off: "signal_offset 2 (abort_tasks True) = 0"
    using sigint_never_served [OF abort] by simp
  let ?s = "put_queue 0 [(2, True), (2, True)] (note_signal 2 (abort_tasks True))"
  have run: "handlerUpdateAndRun (world_code interrupt_log_code) 2 (abort_tasks True) [] =
      Inr (?s, [''newer''])"
    using off handler_persistent [OF si_reach_inv [OF abort], of 2 2 0 "setBoundOrFreeFunction
        (Some (Bound (Some ''newer'') [])) (handler_new None)" interrupt_log_code "[]"]
    by (simp add: interrupt_log_code_def)
  then have "queue_at (slot_of Sigint) ?s = queue_at (slot_of Sigint) (abort_tasks True)"
    using sigint_never_served [OF abort] by blast
  with run show ?thesis by simp
qed

section \<open>Callbacks that call the scheduler\<close>

text \<open>The public operations that take the callback mutex.\<close>

datatype ('f, 'v) si_call =
    Call_register int "('f, 'v) si_payload"
  | Call_update int "'f option"
  | Call_update_parameters int "'f option" "'v list"
  | Call_remove int
  | Call_clean

primrec si_call_run ::
  "('f, 'v) si_call \<Rightarrow> ('f, 'v) scheduler_interrupt \<Rightarrow> ('f, 'v) scheduler_interrupt outcome" where
  "si_call_run (Call_register i d) s = bind_o (si_add i d s) (\<lambda>(_, s'). Inr s')"
| "si_call_run (Call_update i fp) s = bind_o (si_updateRegistration i fp s) (\<lambda>(_, s'). Inr s')"
| "si_call_run (Call_update_parameters i fp args) s =
     bind_o (si_updateShared i fp args s) (\<lambda>(_, s'). Inr s')"
| "si_call_run (Call_remove i) s = bind_o (si_removeRegistration i s) (\<lambda>(_, s'). Inr s')"
| "si_call_run Call_clean s = si_clean s"

lemma si_call_locked: "scheduler_callback_mutex s \<Longrightarrow> si_call_run c s = Inl Self_Deadlock"
proof (cases c)
  case (Call_register i d)
  assume "scheduler_callback_mutex s"
  with Call_register show ?thesis
    by (cases d) (simp_all add: si_register_defs si_registerSharedHelper_def lock_callbacks_def)
qed (simp_all add: si_updateRegistration_def si_updateSharedParameterFree_def si_updateShared_def
    si_modify_def si_updateSharedHelper_def si_removeRegistration_def si_clean_def lock_callbacks_def)

text \<open>A callback of the interrupt scheduler cannot use it.  The handler runs the
  callback while it holds the callback mutex, so a callback whose first action is to register,
  update or remove a registration, or to clean the scheduler, blocks on the mutex its own thread
  holds, and the handler never returns.\<close>

theorem reentrant_callback_deadlocks:
  assumes "si_reach prog0 s" and "scheduler_available_for_offload s"
    and "i = signal_offset sig s" and "queue_at i s \<noteq> []" and "last (queue_at i s) = (k, p)"
    and "map_of (scheduler_callbacks s) k = Some (slot, h)"
    and "handler_formatted_function h = Some (Bound (Some f) args)"
    and "\<And>s w. prog f args (s, w) = bind_o (si_call_run c s) (\<lambda>s'. rest s' w)"
  shows "handlerUpdateAndRun prog sig s w = Inl Self_Deadlock"
proof -
  have inv: "si_inv (note_signal sig s)"
    by (rule note_signal_inv [OF si_reach_inv [OF assms(1)]])
  have i: "0 \<le> i" "i < 8"
    using signal_offset_range [OF si_reach_inv [OF assms(1)]] assms(3) by simp_all
  then have len: "i < int (length (scheduler_signal_queues s))"
    using si_reach_inv [OF assms(1)] by (simp add: si_inv_def SIGNAL_COUNT_def)
  have s0: "s\<lparr>scheduler_signal_value_reverse_lookup :=
      scheduler_signal_value_reverse_lookup (note_signal sig s)\<rparr> = note_signal sig s"
    by (simp add: note_signal_def)
  have run: "handler_run prog h (s', w) = Inl Self_Deadlock" if "scheduler_callback_mutex s'" for s'
    using assms(7,8) si_call_locked [OF that, of c] by (simp add: handler_run_def call_bound_def)
  show ?thesis
    using inv i len assms(2-6) run s0
    by (simp add: si_inv_def handlerUpdateAndRun_def umap_subscript_offset Let_def lock_queue_free
        lock_callbacks_free queue_at_def)
qed

definition reentrant_code ::
  "(string, unit, (string, unit) scheduler_interrupt \<times> string list) user_code" where
  "reentrant_code f args x = (case x of (s, w) \<Rightarrow>
     bind_o (si_call_run (Call_remove 2) s) (\<lambda>s'. Inr (s', w @ [f])))"

theorem reentrant_callback_deadlocks_witness:
  "handlerUpdateAndRun reentrant_code 6 (abort_tasks True) [] = Inl Self_Deadlock"
  by (rule reentrant_callback_deadlocks [OF abort_tasks_reach [of interrupt_log_code True],
        of 0 6 2 True 0 "setBoundOrFreeFunction (Some (Bound (Some ''newer'') [])) (handler_new None)"
        "''newer''" "[]" _ "Call_remove 2" "\<lambda>s' w. Inr (s', w @ [''newer''])"])
    (simp_all add: setBoundOrFreeFunction_def reentrant_code_def)

end
