(* ===== verification/Nfs_Interleaving.thy ===== *)
theory Nfs_Interleaving
  imports Nfs_Interrupt
begin

text \<open>
  \<open>LIBS/defs_scheduler.h\<close>, class \<open>scheduler_interrupt\<close> under several threads.

  Every operation is written as a program: what the code does between two calls of a mutex is one
  atomic step (two for the \<open>emplace\<close> of a registration: the search and the insertion), and \<open>lock\<close>
  and \<open>unlock\<close> are steps of their own.  Run alone, each program is the
  operation of \<open>Nfs_Interrupt\<close> (\<open>programs_run_alone\<close>).  Run together, the steps of the threads
  interleave in any order, and a thread at a \<open>lock\<close> waits until the mutex is free.

  The functions a client registers are given as what they do (\<open>si_action\<close>): changes of a world
  \<open>'w\<close> of their own and calls of the scheduler, the next action depending on the answers.  The signal
  handler runs them as programs too, with the mutexes it holds.  A signal is handled by
  a thread that is outside the scheduler, or interrupts a thread anywhere (\<open>interrupted\<close>).
  Accesses the code leaves unlocked (the flag, the lookup of the signal, the return code) are
  taken to be atomic.
\<close>

section \<open>Programs\<close>

datatype scheduler_mutex = Callback_mutex | Queue_mutex int

datatype 's program =
    Return bool
  | Lock scheduler_mutex "'s program"
  | Unlock scheduler_mutex "'s program"
  | Atomic "'s \<Rightarrow> (fault + 's \<times> 's program)"

text \<open>A program that is followed by what depends on its answer.\<close>

primrec and_then :: "'s program \<Rightarrow> (bool \<Rightarrow> 's program) \<Rightarrow> 's program" where
  "and_then (Return b) k = k b"
| "and_then (Lock m p) k = Lock m (and_then p k)"
| "and_then (Unlock m p) k = Unlock m (and_then p k)"
| "and_then (Atomic f) k = Atomic (\<lambda>M. map_sum id (map_prod id (\<lambda>p. and_then p k)) (f M))"

text \<open>
  What the threads share: the scheduler, the world of the callbacks and, for each identifier, how
  many elements of the table have been made for it.  A mutex flag of the scheduler is used
  only by a thread that runs alone.
\<close>

record ('f, 'v, 'w) shared =
  sched :: "('f, 'v) scheduler_interrupt"
  births :: "int \<Rightarrow> nat"
  world :: 'w

text \<open>The functions of the client, as programs.\<close>

type_synonym ('f, 'v, 'w) callback_programs = "'f \<Rightarrow> 'v list \<Rightarrow> ('f, 'v, 'w) shared program"

text \<open>
  An iterator of the table: identifier and birth number name the element, and the slot is the
  one it was made with, which nothing changes.  It is valid as long as that element is in the table.
\<close>

type_synonym table_iterator = "int \<times> nat \<times> int"

definition dereference ::
  "table_iterator \<Rightarrow> ('f, 'v, 'w) shared \<Rightarrow> ('f, 'v) handler_callback outcome" where
  "dereference it M = (case it of (identifier, birth, slot) \<Rightarrow>
     (case map_of (scheduler_callbacks (sched M)) identifier of
        Some (slot', h) \<Rightarrow> if births M identifier = birth \<and> slot' = slot then Inr h
          else Inl Undefined_Behaviour
      | None \<Rightarrow> Inl Undefined_Behaviour))"

subsection \<open>The operations\<close>

definition push_section ::
  "int \<Rightarrow> signal_slot \<Rightarrow> bool \<Rightarrow> ('f, 'v, 'w) shared \<Rightarrow>
   (('f, 'v, 'w) shared \<times> ('f, 'v, 'w) shared program) outcome" where
  "push_section identifier signal_type persist M =
     bind_o (push_queue (slot_of signal_type) (identifier, persist) (sched M)) (\<lambda>s.
       Inr (M\<lparr>sched := s\<rparr>, Unlock (Queue_mutex (slot_of signal_type)) (Return True)))"

definition push_program ::
  "int \<Rightarrow> signal_slot \<Rightarrow> bool \<Rightarrow> ('f, 'v, 'w) shared program" where
  "push_program identifier signal_type persist =
     Lock (Queue_mutex (slot_of signal_type)) (Atomic (push_section identifier signal_type persist))"

text \<open>
  \<open>emplace\<close> searches for the key and then inserts the element.  These are two steps: nothing but
  the mutex keeps another thread out between them.
\<close>

definition insert_section ::
  "int \<Rightarrow> ('f, 'v) handler_callback \<Rightarrow> signal_slot \<Rightarrow> bool \<Rightarrow> ('f, 'v, 'w) shared \<Rightarrow>
   (('f, 'v, 'w) shared \<times> ('f, 'v, 'w) shared program) outcome" where
  "insert_section identifier callback_payload signal_type persist M =
     Inr (M\<lparr>sched := (sched M)\<lparr>scheduler_callbacks :=
         (identifier, slot_of signal_type, callback_payload) # scheduler_callbacks (sched M)\<rparr>,
       births := (births M)(identifier := Suc (births M identifier))\<rparr>,
       Unlock Callback_mutex (push_program identifier signal_type persist))"

definition emplace_section ::
  "int \<Rightarrow> ('f, 'v) handler_callback \<Rightarrow> signal_slot \<Rightarrow> bool \<Rightarrow> ('f, 'v, 'w) shared \<Rightarrow>
   (('f, 'v, 'w) shared \<times> ('f, 'v, 'w) shared program) outcome" where
  "emplace_section identifier callback_payload signal_type persist M =
     Inr (M, if map_of (scheduler_callbacks (sched M)) identifier = None
       then Atomic (insert_section identifier callback_payload signal_type persist)
       else Unlock Callback_mutex (Return False))"

definition register_program ::
  "int \<Rightarrow> ('f, 'v) handler_callback \<Rightarrow> signal_slot \<Rightarrow> bool \<Rightarrow> ('f, 'v, 'w) shared program" where
  "register_program identifier callback_payload signal_type persist =
     Lock Callback_mutex
       (Atomic (emplace_section identifier callback_payload signal_type persist))"

definition modify_program ::
  "(('f, 'v) handler_callback \<Rightarrow> ('f, 'v) handler_callback outcome) \<Rightarrow> table_iterator \<Rightarrow>
   ('f, 'v, 'w) shared program" where
  "modify_program f it = (case it of (identifier, birth, slot) \<Rightarrow>
     Atomic (\<lambda>M. bind_o (dereference it M) (\<lambda>_. Inr (M,
     Lock (Queue_mutex slot) (Atomic (\<lambda>M.
       bind_o (dereference it M) (\<lambda>h.
       bind_o (f h) (\<lambda>h'.
         Inr (M\<lparr>sched := (sched M)\<lparr>scheduler_callbacks :=
             umap_store identifier (slot, h') (scheduler_callbacks (sched M))\<rparr>\<rparr>,
       Atomic (\<lambda>M. bind_o (dereference it M) (\<lambda>_. Inr (M,
         Unlock (Queue_mutex slot) (Return True)))))))))))))"

definition update_program ::
  "(('f, 'v) handler_callback \<Rightarrow> ('f, 'v) handler_callback outcome) \<Rightarrow> int \<Rightarrow>
   ('f, 'v, 'w) shared program" where
  "update_program f identifier =
     Lock Callback_mutex (Atomic (\<lambda>M. Inr (M, Unlock Callback_mutex
       (case map_of (scheduler_callbacks (sched M)) identifier of
          None \<Rightarrow> Return False
        | Some (slot, h) \<Rightarrow> modify_program f (identifier, births M identifier, slot)))))"

definition remove_program :: "int \<Rightarrow> ('f, 'v, 'w) shared program" where
  "remove_program identifier =
     Lock Callback_mutex (Atomic (\<lambda>M.
       Inr (M\<lparr>sched := (sched M)\<lparr>scheduler_callbacks :=
           umap_erase identifier (scheduler_callbacks (sched M))\<rparr>\<rparr>,
         Unlock Callback_mutex
           (Return (map_of (scheduler_callbacks (sched M)) identifier \<noteq> None)))))"

definition toggle_program :: "('f, 'v, 'w) shared program" where
  "toggle_program = Atomic (\<lambda>M. Inr (M\<lparr>sched := toggleHandlerSignaling (sched M)\<rparr>, Return True))"

primrec clean_queues_program :: "nat \<Rightarrow> ('f, 'v, 'w) shared program" where
  "clean_queues_program 0 = Return True"
| "clean_queues_program (Suc n) =
     (let i = int (SIGNAL_COUNT - Suc n) in
      Lock (Queue_mutex i) (Atomic (\<lambda>M.
        bind_o (array_at i (scheduler_signal_queues (sched M))) (\<lambda>q.
          Inr (M\<lparr>sched := put_queue i (pop_front_all q) (sched M)\<rparr>,
            Unlock (Queue_mutex i) (clean_queues_program n))))))"

definition clean_program :: "('f, 'v, 'w) shared program" where
  "clean_program =
     Lock Callback_mutex (Atomic (\<lambda>M.
       Inr (M\<lparr>sched := (sched M)\<lparr>scheduler_callbacks := []\<rparr>\<rparr>,
         Unlock Callback_mutex (clean_queues_program SIGNAL_COUNT))))"

text \<open>The signal handler, from its last section to its first.\<close>

definition pop_program :: "int \<Rightarrow> ('f, 'v, 'w) shared program" where
  "pop_program offset = Atomic (\<lambda>M. bind_o (pop_queue offset (sched M)) (\<lambda>s.
     Inr (M\<lparr>sched := s\<rparr>, Unlock (Queue_mutex offset) (Return True))))"

definition requeue_program :: "int \<Rightarrow> int \<Rightarrow> ('f, 'v, 'w) shared program" where
  "requeue_program offset get_identifier = Atomic (\<lambda>M.
     bind_o (array_at offset (scheduler_signal_queues (sched M))) (\<lambda>q.
     bind_o (back_o q) (\<lambda>(_, persist).
     if persist then
       bind_o (push_queue offset (get_identifier, True) (sched M)) (\<lambda>s.
         Inr (M\<lparr>sched := s\<rparr>, pop_program offset))
     else Inr (M, Lock Callback_mutex (Atomic (\<lambda>M.
       Inr (M\<lparr>sched := (sched M)\<lparr>scheduler_callbacks :=
           umap_erase get_identifier (scheduler_callbacks (sched M))\<rparr>\<rparr>,
         Unlock Callback_mutex (pop_program offset))))))))"

text \<open>The program of the function a handler stores; the checks of \<open>run\<close> come first.\<close>

definition handler_program ::
  "('f, 'v, 'w) callback_programs \<Rightarrow> ('f, 'v) handler_callback \<Rightarrow> ('f, 'v, 'w) shared program outcome" where
  "handler_program body h = handler_run (\<lambda>f args _. Inr (body f args)) h (Return True)"

definition call_program ::
  "('f, 'v, 'w) callback_programs \<Rightarrow> int \<Rightarrow> int \<Rightarrow> ('f, 'v, 'w) shared program" where
  "call_program body offset get_identifier = Atomic (\<lambda>M.
     bind_o (case map_of (scheduler_callbacks (sched M)) get_identifier of
         Some (_, h) \<Rightarrow> bind_o (handler_program body h) (\<lambda>p. Inr (M, p))
       | None \<Rightarrow> bind_o (si_report Si_callback_dropped_prematurely (sched M))
           (\<lambda>s. Inr (M\<lparr>sched := s\<rparr>, Return True))) (\<lambda>(M1, p).
     Inr (M1, and_then p (\<lambda>_. Unlock Callback_mutex (requeue_program offset get_identifier)))))"

definition serve_program ::
  "('f, 'v, 'w) callback_programs \<Rightarrow> int \<Rightarrow> ('f, 'v, 'w) shared program" where
  "serve_program body offset =
     Lock (Queue_mutex offset) (Atomic (\<lambda>M.
       bind_o (array_at offset (scheduler_signal_queues (sched M))) (\<lambda>q.
       if q = [] then bind_o (si_report Si_queue_is_empty (sched M)) (\<lambda>s.
         Inr (M\<lparr>sched := s\<rparr>, Unlock (Queue_mutex offset) (Return True)))
       else bind_o (back_o q) (\<lambda>(get_identifier, _).
         Inr (M, Lock Callback_mutex (call_program body offset get_identifier))))))"

definition signal_program ::
  "('f, 'v, 'w) callback_programs \<Rightarrow> int \<Rightarrow> ('f, 'v, 'w) shared program" where
  "signal_program body signal = Atomic (\<lambda>M.
     let (offset, lookup) =
           umap_subscript 0 signal (scheduler_signal_value_reverse_lookup (sched M));
         s0 = (sched M)\<lparr>scheduler_signal_value_reverse_lookup := lookup\<rparr> in
     Inr (M\<lparr>sched := s0\<rparr>,
       if \<not> scheduler_available_for_offload s0 then Return True
       else serve_program body offset))"

section \<open>A program that runs alone\<close>

definition lock_alone ::
  "scheduler_mutex \<Rightarrow> ('f, 'v, 'w) shared \<Rightarrow> ('f, 'v, 'w) shared outcome" where
  "lock_alone m M = bind_o (case m of Callback_mutex \<Rightarrow> lock_callbacks (sched M)
     | Queue_mutex i \<Rightarrow> lock_queue i (sched M)) (\<lambda>s. Inr (M\<lparr>sched := s\<rparr>))"

definition unlock_alone ::
  "scheduler_mutex \<Rightarrow> ('f, 'v, 'w) shared \<Rightarrow> ('f, 'v, 'w) shared outcome" where
  "unlock_alone m M = bind_o (case m of Callback_mutex \<Rightarrow> Inr (unlock_callbacks (sched M))
     | Queue_mutex i \<Rightarrow> unlock_queue i (sched M)) (\<lambda>s. Inr (M\<lparr>sched := s\<rparr>))"

primrec alone ::
  "('f, 'v, 'w) shared program \<Rightarrow> ('f, 'v, 'w) shared \<Rightarrow> (bool \<times> ('f, 'v, 'w) shared) outcome" where
  "alone (Return b) = (\<lambda>M. Inr (b, M))"
| "alone (Lock m p) = (\<lambda>M. bind_o (lock_alone m M) (alone p))"
| "alone (Unlock m p) = (\<lambda>M. bind_o (unlock_alone m M) (alone p))"
| "alone (Atomic f) = (\<lambda>M. bind_o (map_sum id (map_prod id alone) (f M)) (\<lambda>(M', run). run M'))"

definition seen_alone ::
  "('f, 'v, 'w) shared program \<Rightarrow> ('f, 'v, 'w) shared \<Rightarrow> (bool \<times> ('f, 'v) scheduler_interrupt \<times> 'w) outcome" where
  "seen_alone p M = bind_o (alone p M) (\<lambda>(b, M'). Inr (b, sched M', world M'))"

section \<open>The calls a thread can make\<close>

datatype ('f, 'v) scheduler_call =
    Register_function int "'f option" signal_slot bool
  | Register_parameters int "'f option" "'v list" signal_slot bool
  | Update_function int "'f option"
  | Update_parameters int "'f option" "'v list"
  | Update_parameters_only int "'v list"
  | Remove_call int
  | Clean_call
  | Toggle_call
  | Signal_call int

definition update_with ::
  "'f option \<Rightarrow> 'v list \<Rightarrow> ('f, 'v) handler_callback \<Rightarrow> ('f, 'v) handler_callback outcome" where
  "update_with function_pointer args h =
     (if function_pointer = None then setParameters args h
      else Inr (setFunction function_pointer args h))"

primrec program_of ::
  "('f, 'v, 'w) callback_programs \<Rightarrow> ('f, 'v) scheduler_call \<Rightarrow> ('f, 'v, 'w) shared program" where
  "program_of body (Register_function i fp t b) =
     register_program i (setBoundOrFreeFunction (function_of_pointer fp) (handler_new None)) t b"
| "program_of body (Register_parameters i fp args t b) =
     register_program i (setFunction fp args (handler_new None)) t b"
| "program_of body (Update_function i fp) =
     update_program (\<lambda>h. Inr (setBoundOrFreeFunction (function_of_pointer fp) h)) i"
| "program_of body (Update_parameters i fp args) = update_program (update_with fp args) i"
| "program_of body (Update_parameters_only i args) = update_program (update_with None args) i"
| "program_of body (Remove_call i) = remove_program i"
| "program_of body Clean_call = clean_program"
| "program_of body Toggle_call = toggle_program"
| "program_of body (Signal_call sig) = signal_program body sig"

subsection \<open>The functions of a client\<close>

datatype ('f, 'v, 'w) si_action =
    Si_return
  | Si_act "'w \<Rightarrow> 'w outcome" "('f, 'v, 'w) si_action"
  | Si_look "'w \<Rightarrow> ('f, 'v, 'w) si_action"
  | Si_request "('f, 'v) scheduler_call" "bool \<Rightarrow> ('f, 'v, 'w) si_action"

primrec action_program ::
  "('f, 'v, 'w) callback_programs \<Rightarrow> ('f, 'v, 'w) si_action \<Rightarrow> ('f, 'v, 'w) shared program" where
  "action_program body Si_return = Return True"
| "action_program body (Si_act g a) = Atomic (\<lambda>M. bind_o (g (world M)) (\<lambda>w.
     Inr (M\<lparr>world := w\<rparr>, action_program body a)))"
| "action_program body (Si_look c) = Atomic (\<lambda>M. Inr (M, action_program body (c (world M))))"
| "action_program body (Si_request rq c) =
     and_then (program_of body rq) (\<lambda>b. action_program body (c b))"

text \<open>
  A function that raises a signal is run again by the handler it started; \<open>n\<close> calls of functions
  fit on the stack.
\<close>

primrec client_programs ::
  "nat \<Rightarrow> ('f \<Rightarrow> 'v list \<Rightarrow> ('f, 'v, 'w) si_action) \<Rightarrow> ('f, 'v, 'w) callback_programs" where
  "client_programs 0 actions f args = Atomic (\<lambda>M. Inl Stack_Exhausted)"
| "client_programs (Suc n) actions f args =
     action_program (client_programs n actions) (actions f args)"

declare client_programs.simps [simp del]

text \<open>The operation of \<open>Nfs_Interrupt\<close> a call is.\<close>

definition keep_world :: "'w \<Rightarrow> (bool \<times> 's) outcome \<Rightarrow> (bool \<times> 's \<times> 'w) outcome" where
  "keep_world w r = bind_o r (\<lambda>(b, s). Inr (b, s, w))"

primrec operation_of ::
  "('f, 'v, ('f, 'v) scheduler_interrupt \<times> 'w) user_code \<Rightarrow> ('f, 'v) scheduler_call \<Rightarrow> ('f, 'v) scheduler_interrupt \<Rightarrow> 'w \<Rightarrow>
   (bool \<times> ('f, 'v) scheduler_interrupt \<times> 'w) outcome" where
  "operation_of prog (Register_function i fp t b) s w =
     keep_world w (si_registerFunction i fp t b s)"
| "operation_of prog (Register_parameters i fp args t b) s w =
     keep_world w (si_registerFunctionParameters i fp args t b s)"
| "operation_of prog (Update_function i fp) s w = keep_world w (si_updateRegistration i fp s)"
| "operation_of prog (Update_parameters i fp args) s w =
     keep_world w (si_updateRegistrationParameters i fp args s)"
| "operation_of prog (Update_parameters_only i args) s w =
     keep_world w (si_updateRegistrationParametersOnly i args s)"
| "operation_of prog (Remove_call i) s w = keep_world w (si_removeRegistration i s)"
| "operation_of prog Clean_call s w = bind_o (si_clean s) (\<lambda>s'. Inr (True, s', w))"
| "operation_of prog Toggle_call s w = Inr (True, toggleHandlerSignaling s, w)"
| "operation_of prog (Signal_call sig) s w =
     bind_o (handlerUpdateAndRun prog sig s w) (\<lambda>(s', w'). Inr (True, s', w'))"

primrec si_perform ::
  "('f, 'v, ('f, 'v) scheduler_interrupt \<times> 'w) user_code \<Rightarrow> ('f, 'v, 'w) si_action \<Rightarrow>
   ('f, 'v) scheduler_interrupt \<Rightarrow> 'w \<Rightarrow> (('f, 'v) scheduler_interrupt \<times> 'w) outcome" where
  "si_perform prog Si_return s w = Inr (s, w)"
| "si_perform prog (Si_act g a) s w = bind_o (g w) (\<lambda>w1. si_perform prog a s w1)"
| "si_perform prog (Si_look c) s w = si_perform prog (c w) s w"
| "si_perform prog (Si_request rq c) s w =
     bind_o (operation_of prog rq s w) (\<lambda>(b, s1, w1). si_perform prog (c b) s1 w1)"

primrec si_client ::
  "nat \<Rightarrow> ('f \<Rightarrow> 'v list \<Rightarrow> ('f, 'v, 'w) si_action) \<Rightarrow>
   ('f, 'v, ('f, 'v) scheduler_interrupt \<times> 'w) user_code" where
  "si_client 0 actions f args x = Inl Stack_Exhausted"
| "si_client (Suc n) actions f args x =
     si_perform (si_client n actions) (actions f args) (fst x) (snd x)"

declare si_client.simps [simp del]

text \<open>Functions that act on the world only are \<open>world_code\<close>.\<close>

lemma si_client_world: "si_client (Suc n) (\<lambda>f args. Si_act (prog f args) Si_return) = world_code prog"
  by (intro ext) (simp add: si_client.simps world_code_def split: prod.split)

lemma map_sum_bind_o: "map_sum id h (bind_o m f) = bind_o m (\<lambda>x. map_sum id h (f x))"
  by (simp add: bind_o_def split: sum.split)

lemmas alone_defs = map_sum_bind_o bind_o_assoc seen_alone_def lock_alone_def unlock_alone_def keep_world_def

lemma alone_register:
  "seen_alone (register_program i h t b) M = keep_world (world M) (si_registerSharedHelper i h t b (sched M))"
  by (auto simp: register_program_def emplace_section_def insert_section_def push_program_def
      push_section_def alone_defs si_registerSharedHelper_def umap_emplace_def bind_o_assoc Let_def
      unlock_callbacks_def lock_callbacks_def split: prod.split bind_o_split)

lemma alone_remove:
  "seen_alone (remove_program i) M = keep_world (world M) (si_removeRegistration i (sched M))"
  by (simp add: remove_program_def alone_defs si_removeRegistration_def bind_o_assoc Let_def)

lemma lock_queue_callbacks: "lock_queue i s = Inr s' \<Longrightarrow> scheduler_callbacks s' = scheduler_callbacks s"
  by (auto simp: lock_queue_def outcome_rules split: if_splits)

lemma alone_modify:
  assumes "map_of (scheduler_callbacks (sched M)) i = Some (slot, h)"
  shows "seen_alone (modify_program f (i, births M i, slot)) M = keep_world (world M)
    (bind_o (lock_queue slot (sched M)) (\<lambda>s2. bind_o (f h) (\<lambda>h'.
     bind_o (unlock_queue slot (s2\<lparr>scheduler_callbacks :=
         umap_store i (slot, h') (scheduler_callbacks s2)\<rparr>)) (\<lambda>s3. Inr (True, s3)))))"
proof (cases "lock_queue slot (sched M)")
  case (Inr s2)
  note lock_queue_callbacks [OF Inr]
  with assms Inr show ?thesis
    by (cases "f h") (simp_all add: modify_program_def dereference_def alone_defs bind_o_assoc)
qed (use assms in \<open>simp add: modify_program_def dereference_def alone_defs\<close>)

lemma alone_update:
  "seen_alone (update_program f i) M = keep_world (world M) (si_modify f i (sched M))"
proof (cases "lock_callbacks (sched M)")
  case (Inr s1)
  let ?M = "M\<lparr>sched := unlock_callbacks s1\<rparr>"
  have same: "scheduler_callbacks s1 = scheduler_callbacks (unlock_callbacks s1)"
    by (simp add: unlock_callbacks_def)
  have "seen_alone (update_program f i) M =
      seen_alone (case map_of (scheduler_callbacks s1) i of None \<Rightarrow> Return False
        | Some (slot, h) \<Rightarrow> modify_program f (i, births M i, slot)) ?M"
    using Inr by (simp add: update_program_def alone_defs split: option.split)
  then show ?thesis
    using alone_modify [of ?M i _ _ f, simplified] Inr
    by (auto simp: si_modify_def si_updateSharedHelper_def same keep_world_def seen_alone_def
        split: option.split)
qed (simp add: update_program_def si_modify_def si_updateSharedHelper_def alone_defs)

lemma alone_clean_queues:
  "seen_alone (clean_queues_program n) M =
     bind_o (si_clean_queues n (sched M)) (\<lambda>s. Inr (True, s, world M))"
proof (induction n arbitrary: M)
  case (Suc n)
  let ?i = "int (SIGNAL_COUNT - Suc n)"
  have "alone (clean_queues_program (Suc n)) M =
      bind_o (lock_queue ?i (sched M)) (\<lambda>s1.
      bind_o (array_at ?i (scheduler_signal_queues s1)) (\<lambda>q.
      bind_o (unlock_queue ?i (put_queue ?i (pop_front_all q) s1)) (\<lambda>s2.
        alone (clean_queues_program n) (M\<lparr>sched := s2\<rparr>))))"
    by (simp add: alone_defs bind_o_assoc Let_def)
  with Suc.IH show ?case
    by (simp add: seen_alone_def bind_o_assoc Let_def)
qed (simp add: seen_alone_def)

lemma alone_clean:
  "seen_alone clean_program M = bind_o (si_clean (sched M)) (\<lambda>s. Inr (True, s, world M))"
proof -
  have "seen_alone clean_program M = bind_o (lock_callbacks (sched M)) (\<lambda>s1.
      seen_alone (clean_queues_program SIGNAL_COUNT)
        (M\<lparr>sched := unlock_callbacks (s1\<lparr>scheduler_callbacks := []\<rparr>)\<rparr>))"
    by (simp add: clean_program_def alone_defs)
  then show ?thesis by (simp add: alone_clean_queues si_clean_def bind_o_assoc)
qed

lemma alone_toggle:
  "seen_alone toggle_program M = Inr (True, toggleHandlerSignaling (sched M), world M)"
  by (simp add: toggle_program_def seen_alone_def)

lemma alone_pop:
  "seen_alone (pop_program offset) M = bind_o (pop_queue offset (sched M)) (\<lambda>s.
     bind_o (unlock_queue offset s) (\<lambda>s'. Inr (True, s', world M)))"
  by (simp add: pop_program_def alone_defs)

lemma alone_requeue:
  "seen_alone (requeue_program offset k) M =
     bind_o (array_at offset (scheduler_signal_queues (sched M))) (\<lambda>q.
     bind_o (back_o q) (\<lambda>(_, persist).
     bind_o (if persist then push_queue offset (k, True) (sched M)
       else bind_o (lock_callbacks (sched M)) (\<lambda>s. Inr (unlock_callbacks
         (s\<lparr>scheduler_callbacks := umap_erase k (scheduler_callbacks s)\<rparr>)))) (\<lambda>s1.
     seen_alone (pop_program offset) (M\<lparr>sched := s1\<rparr>))))"
proof (cases "array_at offset (scheduler_signal_queues (sched M))")
  case (Inr q)
  then show ?thesis
  proof (cases "back_o q")
    case (Inr x)
    with \<open>array_at offset (scheduler_signal_queues (sched M)) = Inr q\<close> show ?thesis
      by (cases x; cases "snd x") (simp_all add: requeue_program_def alone_defs)
  qed (simp add: requeue_program_def alone_defs)
qed (simp add: requeue_program_def alone_defs)

lemma alone_and_then: "alone (and_then p k) M = bind_o (alone p M) (\<lambda>(b, M'). alone (k b) M')"
proof (induction p arbitrary: M)
  case (Atomic f)
  show ?case
  proof (cases "f M")
    case (Inr x)
    obtain M1 p where x: "x = (M1, p)" by (cases x)
    have "alone (and_then p k) M1 = bind_o (alone p M1) (\<lambda>(b, M'). alone (k b) M')"
    proof (rule Atomic)
      show "Inr (M1, p) \<in> range f" using Inr x by (metis rangeI)
      show "(M1, p) \<in> Basic_BNFs.setr (Inr (M1, p))" by (simp add: setr.intros)
      show "p \<in> Basic_BNFs.snds (M1, p)" by (simp add: snds.intros)
    qed
    with Inr x show ?thesis by (simp add: bind_o_assoc case_prod_unfold)
  qed simp
qed (auto simp: bind_o_def split: sum.split)

lemma seen_alone_Atomic: "seen_alone (Atomic f) M = bind_o (f M) (\<lambda>(M', p). seen_alone p M')"
  by (simp add: seen_alone_def map_sum_bind_o bind_o_assoc case_prod_unfold bind_o_def split: sum.split)

lemma seen_alone_and_then:
  assumes "\<And>b M. seen_alone (k b) M = g b (sched M) (world M)"
  shows "seen_alone (and_then p k) M = bind_o (seen_alone p M) (\<lambda>(b, s, w). g b s w)"
  using assms by (simp add: seen_alone_def alone_and_then bind_o_assoc case_prod_unfold)

text \<open>What the handler does with a queue that is not empty, until it unlocks it.\<close>

definition handler_section ::
  "('f, 'v, ('f, 'v) scheduler_interrupt \<times> 'w) user_code \<Rightarrow> int \<Rightarrow> (int \<times> bool) list \<Rightarrow>
   ('f, 'v) scheduler_interrupt \<Rightarrow> 'w \<Rightarrow> (('f, 'v) scheduler_interrupt \<times> 'w) outcome" where
  "handler_section prog offset q s w =
     bind_o (back_o q) (\<lambda>(k, _).
     bind_o (lock_callbacks s) (\<lambda>s2.
     bind_o (case map_of (scheduler_callbacks s2) k of
         Some (_, h) \<Rightarrow> handler_run prog h (s2, w)
       | None \<Rightarrow> bind_o (si_report Si_callback_dropped_prematurely s2) (\<lambda>s3. Inr (s3, w)))
       (\<lambda>(s3, w3). let s4 = unlock_callbacks s3 in
     bind_o (array_at offset (scheduler_signal_queues s4)) (\<lambda>q4.
     bind_o (back_o q4) (\<lambda>(_, persist).
     bind_o (if persist then push_queue offset (k, True) s4
       else bind_o (lock_callbacks s4) (\<lambda>s5. Inr (unlock_callbacks
         (s5\<lparr>scheduler_callbacks := umap_erase k (scheduler_callbacks s5)\<rparr>)))) (\<lambda>s6.
     bind_o (pop_queue offset s6) (\<lambda>s7. Inr (s7, w3))))))))"

text \<open>What the handler does with a queue after the callback has returned, as \<open>handler_section\<close> has it.\<close>

definition requeued ::
  "int \<Rightarrow> int \<Rightarrow> ('f, 'v) scheduler_interrupt \<Rightarrow> 'w \<Rightarrow> (bool \<times> ('f, 'v) scheduler_interrupt \<times> 'w) outcome" where
  "requeued offset k s w = (let s4 = unlock_callbacks s in
     bind_o (array_at offset (scheduler_signal_queues s4)) (\<lambda>q.
     bind_o (back_o q) (\<lambda>(_, persist).
     bind_o (if persist then push_queue offset (k, True) s4
       else bind_o (lock_callbacks s4) (\<lambda>s5. Inr (unlock_callbacks
         (s5\<lparr>scheduler_callbacks := umap_erase k (scheduler_callbacks s5)\<rparr>)))) (\<lambda>s6.
     bind_o (pop_queue offset s6) (\<lambda>s7.
     bind_o (unlock_queue offset s7) (\<lambda>s8. Inr (True, s8, w)))))))"

lemma alone_requeued:
  "seen_alone (Unlock Callback_mutex (requeue_program offset k)) M = requeued offset k (sched M) (world M)"
proof -
  have "seen_alone (Unlock Callback_mutex (requeue_program offset k)) M =
      seen_alone (requeue_program offset k) (M\<lparr>sched := unlock_callbacks (sched M)\<rparr>)"
    by (simp add: alone_defs)
  then show ?thesis by (simp add: alone_requeue alone_pop requeued_def Let_def cong: if_cong)
qed

section \<open>The functions of a client that run alone\<close>

text \<open>
  The programs \<open>body\<close> of a client's functions do, run alone, what its functions \<open>prog\<close> do to the
  scheduler and the world.
\<close>

locale realised_callbacks =
  fixes body :: "('f, 'v, 'w) callback_programs"
    and prog :: "('f, 'v, ('f, 'v) scheduler_interrupt \<times> 'w) user_code"
  assumes realised: "seen_alone (body f args) M =
    bind_o (prog f args (sched M, world M)) (\<lambda>(s, w). Inr (True, s, w))"
begin

lemma handler_realised:
  "bind_o (handler_program body h) (\<lambda>p. seen_alone p M) =
   bind_o (handler_run prog h (sched M, world M)) (\<lambda>(s, w). Inr (True, s, w))"
proof (cases "handler_formatted_function h")
  case (Some c)
  then show ?thesis
    by (cases c) (simp add: handler_program_def handler_run_def call_bound_def realised bind_o_assoc)
qed (simp add: handler_program_def handler_run_def)

lemma alone_call:
  "seen_alone (call_program body offset k) M =
     bind_o (case map_of (scheduler_callbacks (sched M)) k of
         Some (_, h) \<Rightarrow> handler_run prog h (sched M, world M)
       | None \<Rightarrow> bind_o (si_report Si_callback_dropped_prematurely (sched M))
           (\<lambda>s. Inr (s, world M))) (\<lambda>(s, w). requeued offset k s w)"
proof -
  let ?q = "\<lambda>_. Unlock Callback_mutex (requeue_program offset k)"
  have after: "seen_alone (and_then p ?q) M = bind_o (seen_alone p M) (\<lambda>(b, s, w). requeued offset k s w)"
    for p and M :: "('f, 'v, 'w) shared"
    by (rule seen_alone_and_then) (rule alone_requeued)
  show ?thesis
  proof (cases "map_of (scheduler_callbacks (sched M)) k")
    case None
    have "seen_alone (Return True) M' = Inr (True, sched M', world M')" for M' :: "('f, 'v, 'w) shared"
      by (simp add: seen_alone_def)
    with None show ?thesis
      by (simp add: call_program_def seen_alone_Atomic after bind_o_assoc alone_requeued del: si_report_simps)
  next
    case (Some x)
    then have "seen_alone (call_program body offset k) M =
        bind_o (handler_program body (snd x)) (\<lambda>p. seen_alone (and_then p ?q) M)"
      by (simp add: call_program_def seen_alone_Atomic case_prod_unfold bind_o_assoc)
    also have "\<dots> = bind_o (bind_o (handler_program body (snd x)) (\<lambda>p. seen_alone p M))
        (\<lambda>(b, s, w). requeued offset k s w)"
      by (simp add: after bind_o_assoc)
    also have "\<dots> = bind_o (handler_run prog (snd x) (sched M, world M)) (\<lambda>(s, w). requeued offset k s w)"
      by (simp add: handler_realised bind_o_assoc case_prod_unfold)
    finally show ?thesis using Some by (simp add: case_prod_unfold)
  qed
qed

lemma alone_section:
  assumes "back_o q = Inr (k, b)"
  shows "seen_alone (Lock Callback_mutex (call_program body offset k)) M =
     bind_o (handler_section prog offset q (sched M) (world M)) (\<lambda>(s, w).
     bind_o (unlock_queue offset s) (\<lambda>s'. Inr (True, s', w)))"
proof -
  have "seen_alone (Lock Callback_mutex (call_program body offset k)) M =
      bind_o (lock_callbacks (sched M)) (\<lambda>s.
        seen_alone (call_program body offset k) (M\<lparr>sched := s\<rparr>))"
    by (simp add: alone_defs)
  then show ?thesis
    using assms
    by (simp add: handler_section_def alone_call requeued_def bind_o_assoc Let_def
        case_prod_unfold cong: if_cong option.case_cong)
qed

lemma alone_signal:
  "seen_alone (signal_program body sig) M =
     bind_o (handlerUpdateAndRun prog sig (sched M) (world M)) (\<lambda>(s, w). Inr (True, s, w))"
proof -
  obtain offset lookup where look:
    "umap_subscript 0 sig (scheduler_signal_value_reverse_lookup (sched M)) = (offset, lookup)"
    by fastforce
  let ?s0 = "(sched M)\<lparr>scheduler_signal_value_reverse_lookup := lookup\<rparr>"
  show ?thesis
  proof (cases "scheduler_available_for_offload (sched M)")
    case True
    have handler: "handlerUpdateAndRun prog sig (sched M) (world M) =
        bind_o (lock_queue offset ?s0) (\<lambda>s1.
        bind_o (array_at offset (scheduler_signal_queues s1)) (\<lambda>q.
        bind_o (if q = [] then bind_o (si_report Si_queue_is_empty s1) (\<lambda>s2. Inr (s2, world M))
          else handler_section prog offset q s1 (world M)) (\<lambda>(s2, w).
        bind_o (unlock_queue offset s2) (\<lambda>s3. Inr (s3, w)))))"
      unfolding handlerUpdateAndRun_def handler_section_def Let_def look prod.case using True by simp
    show ?thesis
    proof (cases "lock_queue offset ?s0")
      case locked: (Inr s1)
      show ?thesis
      proof (cases "array_at offset (scheduler_signal_queues s1)")
        case (Inr q)
        note found = Inr locked True look
        show ?thesis
        proof (cases "q = []")
          case True
          with found show ?thesis by (simp add: handler signal_program_def serve_program_def alone_defs Let_def)
        next
          case False
          then obtain k b where "back_o q = Inr (k, b)" by (cases "last q") simp
          with found False alone_section [of q k b offset "M\<lparr>sched := s1\<rparr>"] show ?thesis
            by (simp add: handler signal_program_def serve_program_def alone_defs Let_def case_prod_unfold)
        qed
      qed (use True look locked in \<open>simp add: handler signal_program_def serve_program_def alone_defs Let_def\<close>)
    qed (use True look in \<open>simp add: handler signal_program_def serve_program_def alone_defs Let_def\<close>)
  next
    case False
    with look show ?thesis
      by (simp add: signal_program_def alone_defs handlerUpdateAndRun_def Let_def)
  qed
qed

lemma alone_program:
  "seen_alone (program_of body c) M = operation_of prog c (sched M) (world M)"
  by (cases c) (simp_all add: alone_register alone_update alone_remove alone_clean alone_signal
      alone_toggle si_register_defs si_updateRegistration_def si_updateSharedParameterFree_def
      si_updateRegistrationParameters_def si_updateRegistrationParametersOnly_def
      si_updateShared_def update_with_def [abs_def])

lemma alone_action:
  "seen_alone (action_program body a) M =
     bind_o (si_perform prog a (sched M) (world M)) (\<lambda>(s, w). Inr (True, s, w))"
proof (induction a arbitrary: M)
  case Si_return
  show ?case by (simp add: seen_alone_def)
next
  case (Si_act g a)
  then show ?case by (cases "g (world M)") (simp_all add: seen_alone_def)
next
  case (Si_look c)
  from Si_look [OF rangeI] show ?case by (simp add: seen_alone_def)
next
  case (Si_request rq c)
  from seen_alone_and_then [of "\<lambda>b. action_program body (c b)", OF Si_request [OF rangeI]]
  show ?case by (simp add: alone_program bind_o_assoc case_prod_unfold)
qed

end

lemma si_client_realised: "realised_callbacks (client_programs n actions) (si_client n actions)"
proof (induction n)
  case 0
  show ?case by unfold_locales (simp add: client_programs.simps si_client.simps seen_alone_def)
next
  case (Suc n)
  from realised_callbacks.alone_action [OF this] show ?case
    by unfold_locales (simp add: client_programs.simps si_client.simps)
qed

interpretation si_clients: realised_callbacks "client_programs n actions" "si_client n actions" for n actions
  by (rule si_client_realised)

text \<open>The two descriptions of the class agree: every program is its operation, whatever functions the
  client registered, those that call the scheduler back included.  Run by one thread alone it has the result, the faults and the
  effect on scheduler and world of the method it models.\<close>

theorem programs_run_alone:
  "seen_alone (program_of (client_programs n actions) c) M =
     operation_of (si_client n actions) c (sched M) (world M)"
  by (rule si_clients.alone_program)

end
