(* ===== verification/Nfs_Threads.thy ===== *)
theory Nfs_Threads
  imports Nfs_Interleaving "HOL-Library.Multiset"
begin

text \<open>
  Any number of threads that use one \<open>scheduler_interrupt\<close> (\<open>LIBS/defs_scheduler.h\<close>): which
  states they can reach, that they never block each other for good, and the races that are left.
  A thread runs the program of one call at a time (\<open>Nfs_Interleaving\<close>).
\<close>

section \<open>Threads\<close>

record ('f, 'v, 'w) system =
  code :: "nat \<Rightarrow> ('f, 'v, 'w) shared program"
  owner :: "scheduler_mutex \<Rightarrow> nat option"
  memory :: "('f, 'v, 'w) shared"

definition mutex_exists :: "scheduler_mutex \<Rightarrow> bool" where
  "mutex_exists m = (case m of Callback_mutex \<Rightarrow> True
     | Queue_mutex i \<Rightarrow> 0 \<le> i \<and> i < int SIGNAL_COUNT)"

text \<open>
  One step of a thread: \<open>None\<close> when it has nothing to do or waits for a mutex.  Locking a mutex
  outside the array and unlocking one the thread does not own are undefined.
\<close>

definition thread_step ::
  "nat \<Rightarrow> ('f, 'v, 'w) system \<Rightarrow> ('f, 'v, 'w) system outcome option" where
  "thread_step t S = (case code S t of
     Return b \<Rightarrow> None
   | Lock m p \<Rightarrow>
       if \<not> mutex_exists m then Some (Inl Undefined_Behaviour)
       else if owner S m = None
       then Some (Inr (S\<lparr>code := (code S)(t := p), owner := (owner S)(m \<mapsto> t)\<rparr>))
       else None
   | Unlock m p \<Rightarrow>
       if owner S m = Some t
       then Some (Inr (S\<lparr>code := (code S)(t := p), owner := (owner S)(m := None)\<rparr>))
       else Some (Inl Undefined_Behaviour)
   | Atomic f \<Rightarrow> Some (bind_o (f (memory S)) (\<lambda>(M, p).
       Inr (S\<lparr>code := (code S)(t := p), memory := M\<rparr>))))"

text \<open>A schedule names the thread of each step; a thread that waits lets its turn pass.\<close>

fun run_schedule ::
  "nat list \<Rightarrow> ('f, 'v, 'w) system \<Rightarrow> ('f, 'v, 'w) system outcome" where
  "run_schedule [] S = Inr S"
| "run_schedule (t # ts) S = bind_o (case thread_step t S of None \<Rightarrow> Inr S | Some r \<Rightarrow> r)
     (run_schedule ts)"

definition idle :: "nat \<Rightarrow> ('f, 'v, 'w) system \<Rightarrow> bool" where
  "idle t S = (case code S t of Return _ \<Rightarrow> True | _ \<Rightarrow> False)"

definition start_call ::
  "('f, 'v, 'w) callback_programs \<Rightarrow> nat \<Rightarrow> ('f, 'v) scheduler_call \<Rightarrow> ('f, 'v, 'w) system \<Rightarrow>
   ('f, 'v, 'w) system" where
  "start_call body t c S = S\<lparr>code := (code S)(t := program_of body c)\<rparr>"

definition quiet_system :: "('f, 'v, 'w) shared \<Rightarrow> ('f, 'v, 'w) system" where
  "quiet_system M = \<lparr>code = \<lambda>_. Return True, owner = \<lambda>_. None, memory = M\<rparr>"

text \<open>
  The states that any threads reach that make any calls in any order, from a scheduler no thread
  is using.
\<close>

inductive reachable :: "('f, 'v, 'w) callback_programs \<Rightarrow> ('f, 'v, 'w) system \<Rightarrow> bool" for body where
  quiet: "si_inv (sched M) \<Longrightarrow> reachable body (quiet_system M)"
| call: "reachable body S \<Longrightarrow> idle t S \<Longrightarrow> reachable body (start_call body t c S)"
| step: "reachable body S \<Longrightarrow> thread_step t S = Some (Inr S') \<Longrightarrow> reachable body S'"

section \<open>The locking discipline\<close>

text \<open>
  A program that starts holding the mutexes \<open>H\<close> is disciplined if it locks mutexes that exist,
  unlocks what it holds, leaves a scheduler that satisfies its invariant, and returns holding \<open>R\<close>.
  What would follow the lock of a mutex it holds does not count, since it never gets there.  It is
  \<open>ordered\<close> if it never does that, and locks the mutex of a queue only while it holds nothing.
\<close>

inductive disciplined ::
  "bool \<Rightarrow> scheduler_mutex set \<Rightarrow> scheduler_mutex set \<Rightarrow> ('f, 'v, 'w) shared program \<Rightarrow> bool"
  for ordered R where
  ret: "disciplined ordered R R (Return b)"
| lock: "mutex_exists m \<Longrightarrow> ordered \<Longrightarrow> H = {} \<or> m = Callback_mutex \<and> Callback_mutex \<notin> H \<Longrightarrow>
    disciplined ordered R (insert m H) p \<Longrightarrow> disciplined ordered R H (Lock m p)"
| lock_any: "mutex_exists m \<Longrightarrow> \<not> ordered \<Longrightarrow> (m \<notin> H \<Longrightarrow> disciplined ordered R (insert m H) p) \<Longrightarrow>
    disciplined ordered R H (Lock m p)"
| unlock: "m \<in> H \<Longrightarrow> disciplined ordered R (H - {m}) p \<Longrightarrow> disciplined ordered R H (Unlock m p)"
| atomic: "(\<And>M M' p. si_inv (sched M) \<Longrightarrow> f M = Inr (M', p) \<Longrightarrow> si_inv (sched M')) \<Longrightarrow>
    (\<And>M M' p. si_inv (sched M) \<Longrightarrow> f M = Inr (M', p) \<Longrightarrow> disciplined ordered R H p) \<Longrightarrow>
    disciplined ordered R H (Atomic f)"

inductive_cases disciplined_cases:
  "disciplined ordered R H (Return b)" "disciplined ordered R H (Lock m p)"
  "disciplined ordered R H (Unlock m p)" "disciplined ordered R H (Atomic f)"

inductive_simps disciplined_simps [simp]:
  "disciplined ordered R H (Return b)" "disciplined ordered R H (Unlock m p)"

lemma disciplined_Lock [simp]:
  "disciplined ordered R H (Lock m p) \<longleftrightarrow> mutex_exists m \<and>
     (ordered \<longrightarrow> H = {} \<or> m = Callback_mutex \<and> Callback_mutex \<notin> H) \<and>
     (m \<notin> H \<longrightarrow> disciplined ordered R (insert m H) p)"
  by (cases ordered) (auto elim: disciplined_cases intro: disciplined.lock disciplined.lock_any)

lemma map_sum_Inr_iff: "map_sum id h m = Inr y \<longleftrightarrow> (\<exists>x. m = Inr x \<and> h x = y)"
  by (cases m) auto

lemma disciplined_and_then:
  "disciplined ordered R H p \<Longrightarrow> (\<And>b. disciplined ordered R' R (k b)) \<Longrightarrow>
   disciplined ordered R' H (and_then p k)"
proof (induction rule: disciplined.induct)
  case (atomic f H)
  then show ?case
    by (auto intro!: disciplined.atomic simp: map_sum_Inr_iff)
qed auto

text \<open>What a disciplined program does while its thread already holds other mutexes.\<close>

lemma disciplined_frame:
  "disciplined ordered R H p \<Longrightarrow> H \<inter> F = {} \<Longrightarrow> disciplined False (R \<union> F) (H \<union> F) p"
proof (induction rule: disciplined.induct)
  case (unlock m H p)
  then have "(H \<union> F) - {m} = H - {m} \<union> F" by auto
  with unlock show ?case by auto
next
  case (atomic f H)
  then show ?case by (intro disciplined.atomic) auto
qed auto

lemma queue_mutex_exists [simp]:
  "mutex_exists Callback_mutex" "mutex_exists (Queue_mutex (slot_of t))"
  by (simp_all add: mutex_exists_def SIGNAL_COUNT_def)

lemma push_queue_inv: "push_queue i x s = Inr s' \<Longrightarrow> si_inv s \<Longrightarrow> si_inv s'"
  by (auto simp: push_queue_def outcome_rules)

lemma pop_queue_inv: "pop_queue i s = Inr s' \<Longrightarrow> si_inv s \<Longrightarrow> si_inv s'"
  by (auto simp: pop_queue_def outcome_rules split: if_splits)

lemma disciplined_push: "disciplined ordered {} {} (push_program i t b)"
  by (auto simp: push_program_def push_section_def outcome_rules intro!: disciplined.atomic)
    (auto dest: push_queue_inv)

lemma si_inv_insert:
  assumes "si_inv s"
  shows "si_inv (s\<lparr>scheduler_callbacks := (i, slot_of t, h) # scheduler_callbacks s\<rparr>)"
  using assms by (intro si_inv_callbacks) (auto simp: si_inv_slots split: if_splits)

lemma disciplined_register: "disciplined ordered {} {} (register_program i h t b)"
  by (auto simp: register_program_def emplace_section_def insert_section_def disciplined_push
      si_inv_insert intro!: disciplined.atomic)

lemma disciplined_remove: "disciplined ordered {} {} (remove_program i)"
  by (auto simp: remove_program_def intro!: disciplined.atomic si_erase_inv)

lemma disciplined_toggle: "disciplined ordered {} {} toggle_program"
  by (auto simp: toggle_program_def toggleHandlerSignaling_def si_inv_def intro!: disciplined.atomic)

lemma disciplined_clean_queues: "disciplined ordered {} {} (clean_queues_program n)"
proof (induction n)
  case (Suc n)
  have "mutex_exists (Queue_mutex (int (SIGNAL_COUNT - Suc n)))"
    by (simp add: mutex_exists_def SIGNAL_COUNT_def)
  with Suc show ?case
    by (auto simp: Let_def outcome_rules intro!: disciplined.atomic)
qed simp

lemma disciplined_clean: "disciplined ordered {} {} clean_program"
  by (auto simp: clean_program_def disciplined_clean_queues intro!: disciplined.atomic si_inv_callbacks)

lemma si_inv_store:
  assumes "map_of (scheduler_callbacks s) i = Some (slot, h)" and "si_inv s"
  shows "si_inv (s\<lparr>scheduler_callbacks := umap_store i (slot, h') (scheduler_callbacks s)\<rparr>)"
  using assms by (intro si_inv_callbacks) (auto split: if_splits dest: si_inv_slots(1) si_inv_slots(2))

lemma dereference_eq_Inr_iff:
  "dereference (i, n, slot) M = Inr h \<longleftrightarrow>
   map_of (scheduler_callbacks (sched M)) i = Some (slot, h) \<and> births M i = n"
  by (auto simp: dereference_def split: option.splits)

lemma disciplined_modify:
  assumes "0 \<le> slot" and "slot < 8"
  shows "disciplined ordered {} {} (modify_program f (i, n, slot))"
  using assms
  by (auto simp: modify_program_def outcome_rules dereference_eq_Inr_iff mutex_exists_def
      SIGNAL_COUNT_def intro!: disciplined.atomic)
    (auto dest: si_inv_store)

lemma disciplined_update: "disciplined ordered {} {} (update_program f i)"
  by (auto simp: update_program_def intro!: disciplined.atomic disciplined_modify
      split: option.split dest: si_inv_slots)

lemma disciplined_pop: "disciplined ordered {} {Queue_mutex i} (pop_program i)"
  by (auto simp: pop_program_def outcome_rules intro!: disciplined.atomic)
    (auto dest: pop_queue_inv)

lemma disciplined_requeue: "disciplined ordered {} {Queue_mutex i} (requeue_program i k)"
  by (auto simp: requeue_program_def outcome_rules disciplined_pop intro!: disciplined.atomic
      si_erase_inv split: if_splits prod.splits)
    (auto dest: push_queue_inv)

lemma si_inv_status [simp]:
  "si_inv (s\<lparr>debug_class_return_code := c, debug_class_status := txt\<rparr>) \<longleftrightarrow> si_inv s"
  by (simp add: si_inv_def)

lemma si_inv_report: "si_report e s = Inr s' \<Longrightarrow> si_inv s \<Longrightarrow> si_inv s'"
  using si_inv_status by (cases e) auto

lemma si_inv_note:
  assumes "umap_subscript 0 sig (scheduler_signal_value_reverse_lookup s) = (i, lookup)" and "si_inv s"
  shows "si_inv (s\<lparr>scheduler_signal_value_reverse_lookup := lookup\<rparr>)" "0 \<le> i" "i < 8"
proof -
  have "s\<lparr>scheduler_signal_value_reverse_lookup := lookup\<rparr> = note_signal sig s"
    using assms(1) by (simp add: note_signal_def)
  then show "si_inv (s\<lparr>scheduler_signal_value_reverse_lookup := lookup\<rparr>)"
    using note_signal_inv [OF assms(2)] by simp
  have "i = signal_offset sig s" using assms(1) by (simp add: umap_subscript_offset)
  then show "0 \<le> i" "i < 8" using signal_offset_range [OF assms(2)] by simp_all
qed

text \<open>
  The signal handler runs the functions of the client with its two mutexes held.  The contract of
  the functions: they return holding both.
\<close>

locale disciplined_callbacks =
  fixes ordered :: bool and body :: "('f, 'v, 'w) callback_programs"
  assumes body: "disciplined ordered {Callback_mutex, Queue_mutex i} {Callback_mutex, Queue_mutex i}
    (body f args)"
begin

lemma disciplined_handler:
  assumes "handler_program body h = Inr p"
  shows "disciplined ordered {Callback_mutex, Queue_mutex i} {Callback_mutex, Queue_mutex i} p"
proof -
  from assms obtain c where "call_bound (\<lambda>f args _. Inr (body f args)) c (Return True) = Inr p"
    by (auto simp: handler_program_def handler_run_def outcome_rules)
  then show ?thesis by (cases c) (auto simp: call_bound_def outcome_rules body)
qed

lemma disciplined_call: "disciplined ordered {} {Callback_mutex, Queue_mutex i} (call_program body i k)"
proof -
  have "disciplined ordered {} {Callback_mutex, Queue_mutex i}
      (and_then p (\<lambda>_. Unlock Callback_mutex (requeue_program i k)))"
    if "handler_program body h = Inr p" for h p
    using disciplined_handler [OF that] by (rule disciplined_and_then) (simp add: disciplined_requeue)
  then show ?thesis
    by (auto simp: call_program_def outcome_rules disciplined_requeue intro!: disciplined.atomic
        split: option.splits prod.splits)
qed

lemma disciplined_serve:
  assumes "0 \<le> i" and "i < 8"
  shows "disciplined ordered {} {} (serve_program body i)"
proof -
  have "mutex_exists (Queue_mutex i)" using assms by (simp add: mutex_exists_def SIGNAL_COUNT_def)
  moreover have "insert Callback_mutex {Queue_mutex i} = {Callback_mutex, Queue_mutex i}" by simp
  ultimately show ?thesis
    unfolding serve_program_def
    by (auto simp: outcome_rules disciplined_call intro!: disciplined.atomic split: if_splits prod.splits)
qed

lemma disciplined_signal: "disciplined ordered {} {} (signal_program body sig)"
  unfolding signal_program_def
proof (rule disciplined.atomic)
  fix M M' :: "('f, 'v, 'w) shared" and p
  assume inv: "si_inv (sched M)" and eq: "(let (offset, lookup) =
        umap_subscript 0 sig (scheduler_signal_value_reverse_lookup (sched M));
      s0 = (sched M)\<lparr>scheduler_signal_value_reverse_lookup := lookup\<rparr> in
    Inr (M\<lparr>sched := s0\<rparr>, if \<not> scheduler_available_for_offload s0 then Return True
      else serve_program body offset)) = Inr (M', p)"
  obtain i lookup where
    look: "umap_subscript 0 sig (scheduler_signal_value_reverse_lookup (sched M)) = (i, lookup)"
    by fastforce
  from eq si_inv_note [OF look inv] show "si_inv (sched M')" "disciplined ordered {} {} p"
    by (auto simp: look Let_def disciplined_serve split: if_splits)
qed

lemma disciplined_program_of: "disciplined ordered {} {} (program_of body c)"
  by (cases c) (simp_all add: disciplined_register disciplined_update disciplined_remove
      disciplined_clean disciplined_toggle disciplined_signal)

text \<open>A call made while its thread holds other mutexes, and the actions of a function.\<close>

lemma disciplined_nested: "disciplined False H H (program_of body c)"
  using disciplined_frame [OF disciplined_program_of, of H c] by simp

lemma disciplined_action: "disciplined False H H (action_program body a)"
proof (induction a)
  case (Si_act g a)
  then show ?case by (auto intro!: disciplined.atomic simp: outcome_rules)
next
  case (Si_look c)
  from Si_look [OF rangeI] show ?case by (auto intro!: disciplined.atomic)
next
  case (Si_request rq c)
  from disciplined_and_then [OF disciplined_nested Si_request [OF rangeI]] show ?case by simp
qed simp

end

lemma client_disciplined: "disciplined_callbacks False (client_programs n actions)"
proof (induction n)
  case 0
  show ?case by unfold_locales (auto simp: client_programs.simps intro: disciplined.atomic)
next
  case (Suc n)
  from disciplined_callbacks.disciplined_action [OF this] show ?case
    by unfold_locales (simp add: client_programs.simps)
qed

interpretation clients: disciplined_callbacks False "client_programs n actions" for n actions
  by (rule client_disciplined)

text \<open>Functions that never ask for a mutex: they act on the world and toggle the handling.\<close>

inductive keeps_out :: "('f, 'v, 'w) si_action \<Rightarrow> bool" where
  returns: "keeps_out Si_return"
| acts: "keeps_out a \<Longrightarrow> keeps_out (Si_act g a)"
| looks: "(\<And>w. keeps_out (c w)) \<Longrightarrow> keeps_out (Si_look c)"
| toggles: "(\<And>b. keeps_out (c b)) \<Longrightarrow> keeps_out (Si_request Toggle_call c)"

lemma keeps_out_ordered: "keeps_out a \<Longrightarrow> disciplined ordered H H (action_program body a)"
proof (induction rule: keeps_out.induct)
  case (toggles c)
  then show ?case
    by (auto simp: toggle_program_def toggleHandlerSignaling_def si_inv_def intro!: disciplined.atomic)
qed (auto intro!: disciplined.atomic simp: outcome_rules)

locale keeping_out =
  fixes actions :: "'f \<Rightarrow> 'v list \<Rightarrow> ('f, 'v, 'w) si_action"
  assumes keeps_out: "keeps_out (actions f args)"

sublocale keeping_out \<subseteq> ordered: disciplined_callbacks True "client_programs n actions" for n
proof
  show "disciplined True {Callback_mutex, Queue_mutex i} {Callback_mutex, Queue_mutex i}
      (client_programs n actions f args)" for i f args
    by (cases n) (auto simp: client_programs.simps keeps_out_ordered keeps_out intro: disciplined.atomic)
qed

interpretation world_functions: keeping_out "\<lambda>f args. Si_act (prog f args) Si_return" for prog
  by unfold_locales (intro keeps_out.intros)

section \<open>What every reachable state satisfies\<close>

definition held :: "nat \<Rightarrow> ('f, 'v, 'w) system \<Rightarrow> scheduler_mutex set" where
  "held t S = {m. owner S m = Some t}"

definition system_inv :: "bool \<Rightarrow> ('f, 'v, 'w) system \<Rightarrow> bool" where
  "system_inv ordered S \<longleftrightarrow> si_inv (sched (memory S)) \<and>
     (\<forall>t. disciplined ordered {} (held t S) (code S t)) \<and>
     finite {t. \<not> idle t S}"

lemma idle_iff: "idle t S \<longleftrightarrow> (\<exists>b. code S t = Return b)"
  by (auto simp: idle_def split: program.split)

lemma thread_step_inv:
  assumes "system_inv ordered S" and "thread_step t S = Some (Inr S')"
  shows "system_inv ordered S'"
proof -
  note inv = assms(1) [unfolded system_inv_def]
  have others: "held u S' = held u S" "code S' u = code S u" if "u \<noteq> t" for u
    using assms(2) that
    by (auto simp: thread_step_def held_def outcome_rules split: program.splits if_splits)
  have own: "disciplined ordered {} (held t S') (code S' t) \<and> si_inv (sched (memory S'))"
  proof (cases "code S t")
    case (Lock m p)
    with assms(2) have S': "owner S m = None"
      "S' = S\<lparr>code := (code S)(t := p), owner := (owner S)(m \<mapsto> t)\<rparr>"
      by (auto simp: thread_step_def split: if_splits)
    then have "held t S' = insert m (held t S)" by (auto simp: held_def)
    moreover have "disciplined ordered {} (held t S) (Lock m p)" using inv Lock by metis
    moreover have "m \<notin> held t S" using S' by (simp add: held_def)
    ultimately show ?thesis using inv S' by simp
  next
    case (Unlock m p)
    with assms(2) have S': "owner S m = Some t"
      "S' = S\<lparr>code := (code S)(t := p), owner := (owner S)(m := None)\<rparr>"
      by (auto simp: thread_step_def split: if_splits)
    then have "held t S' = held t S - {m}" by (auto simp: held_def)
    moreover have "disciplined ordered {} (held t S) (Unlock m p)" using inv Unlock by metis
    ultimately show ?thesis using inv S' by simp
  next
    case (Atomic f)
    with assms(2) obtain M p where S': "f (memory S) = Inr (M, p)"
      "S' = S\<lparr>code := (code S)(t := p), memory := M\<rparr>"
      by (auto simp: thread_step_def outcome_rules)
    then have "held t S' = held t S" by (simp add: held_def)
    moreover have "disciplined ordered {} (held t S) (Atomic f)" using inv Atomic by metis
    ultimately show ?thesis using inv S' by (auto elim: disciplined_cases)
  qed (use assms(2) in \<open>simp add: thread_step_def\<close>)
  have "{u. \<not> idle u S'} \<subseteq> insert t {u. \<not> idle u S}"
    using others by (auto simp: idle_def)
  with inv have "finite {u. \<not> idle u S'}" by (meson finite_insert finite_subset)
  with own inv others show ?thesis unfolding system_inv_def by metis
qed

lemma quiet_system_inv: "si_inv (sched M) \<Longrightarrow> system_inv ordered (quiet_system M)"
  by (simp add: system_inv_def quiet_system_def held_def idle_def)

context disciplined_callbacks
begin

lemma start_call_inv:
  assumes "system_inv ordered S" and "idle t S"
  shows "system_inv ordered (start_call body t c S)"
proof -
  have "disciplined ordered {} (held t S) (code S t)" using assms(1) by (simp add: system_inv_def)
  then have "held t S = {}" using assms(2) by (auto simp: idle_iff)
  moreover have "{u. \<not> idle u (start_call body t c S)} \<subseteq> insert t {u. \<not> idle u S}"
    by (auto simp: idle_def start_call_def)
  ultimately show ?thesis
    using assms(1) disciplined_program_of [of c]
    by (auto simp: system_inv_def start_call_def held_def intro: finite_subset)
qed

lemma reachable_inv: "reachable body S \<Longrightarrow> system_inv ordered S"
  by (induction rule: reachable.induct) (auto intro: quiet_system_inv start_call_inv thread_step_inv)

end

context keeping_out
begin

lemma reachable_ordered: "reachable (client_programs n actions) S \<Longrightarrow> system_inv True S"
  by (rule ordered.reachable_inv)

end

text \<open>Callbacks that do nothing, and a scheduler nobody has used.\<close>

definition quiet_actions :: "nat \<Rightarrow> nat list \<Rightarrow> (nat, nat, nat) si_action" where
  "quiet_actions f args = Si_return"

abbreviation quiet_programs :: "(nat, nat, nat) callback_programs" where
  "quiet_programs \<equiv> client_programs 1 quiet_actions"

lemma quiet_keeps_out: "keeps_out (quiet_actions f args)"
  by (simp add: quiet_actions_def keeps_out.returns)

definition fresh_shared :: "(nat, nat, nat) shared" where
  "fresh_shared = \<lparr>sched = interrupt_initial\<lparr>scheduler_available_for_offload := True\<rparr>,
     births = \<lambda>_. 0, world = 0\<rparr>"

lemma fresh_shared_inv: "si_inv (sched fresh_shared)"
  using si_inv_initial(1) by (simp add: fresh_shared_def si_inv_def)

lemma reachable_first_call:
  "reachable quiet_programs (start_call quiet_programs 0 c (quiet_system fresh_shared))"
  by (intro reachable.call reachable.quiet fresh_shared_inv) (simp add: idle_def quiet_system_def)

text \<open>Claim C18.  Whatever the threads do and whatever the registered functions call, the scheduler is well formed in every state they reach (the
  arrays have their length, the registered slots and the offsets of the signals are slots), and a
  thread outside a call owns no mutex.\<close>

theorem scheduler_inv_reachable:
  assumes "reachable (client_programs n actions) S"
  shows "si_inv (sched (memory S)) \<and> (\<forall>t m. idle t S \<longrightarrow> owner S m \<noteq> Some t)"
proof -
  note inv = clients.reachable_inv [OF assms, unfolded system_inv_def]
  have "owner S m \<noteq> Some t" if "idle t S" for t m
  proof -
    from inv have "disciplined False {} (held t S) (code S t)" by blast
    with that have "held t S = {}" by (auto simp: idle_iff)
    then show ?thesis by (auto simp: held_def)
  qed
  with inv show ?thesis by blast
qed

theorem scheduler_inv_reachable_witness:
  "si_inv (sched (memory (start_call quiet_programs 0 Clean_call (quiet_system fresh_shared))))"
  using scheduler_inv_reachable [OF reachable_first_call, of Clean_call] by blast

section \<open>No deadlock\<close>

lemma callback_owner_steps:
  assumes "system_inv True S" and "owner S Callback_mutex = Some v"
  shows "thread_step v S \<noteq> None"
proof -
  have "disciplined True {} (held v S) (code S v)" "Callback_mutex \<in> held v S"
    using assms by (simp_all add: system_inv_def held_def)
  then show ?thesis by (cases "code S v") (auto simp: thread_step_def)
qed

lemma waits_for:
  assumes "\<not> idle t S" and "thread_step t S = None"
  obtains m p v where "code S t = Lock m p" and "owner S m = Some v"
  using assms by (auto simp: thread_step_def idle_def split: program.splits if_splits)

lemma some_thread_steps:
  assumes inv: "system_inv True S" and "\<not> idle t S"
  shows "\<exists>u. thread_step u S \<noteq> None"
proof (rule ccontr)
  assume stuck: "\<nexists>u. thread_step u S \<noteq> None"
  from stuck assms(2) obtain m p v where m: "code S t = Lock m p" "owner S m = Some v"
    by (metis waits_for)
  with inv stuck have "m \<noteq> Callback_mutex" using callback_owner_steps by metis
  have v: "disciplined True {} (held v S) (code S v)" "m \<in> held v S"
    using inv m(2) by (simp_all add: system_inv_def held_def)
  then have "\<not> idle v S" by (auto simp: idle_iff)
  with stuck obtain m' p' v' where m': "code S v = Lock m' p'" "owner S m' = Some v'"
    by (metis waits_for)
  with v have "m' = Callback_mutex" by auto
  with inv m'(2) stuck show False using callback_owner_steps by metis
qed

text \<open>Claim C3.  Calls never deadlock: in every state that threads reach, if a thread is inside a
  call then some thread can take a step (which may be the fault that ends the program), because
  the mutex of a queue is always locked before the one of the table.  The registered functions may
  do what they like as long as they do not call the methods that lock a mutex.\<close>

theorem calls_never_deadlock:
  assumes "\<And>f args. keeps_out (actions f args)"
    and "reachable (client_programs n actions) S" and "\<not> idle t S"
  shows "\<exists>u. thread_step u S \<noteq> None"
  using keeping_out.reachable_ordered [OF keeping_out.intro [OF assms(1)] assms(2)] assms(3)
  by (rule some_thread_steps)

theorem calls_never_deadlock_witness:
  "\<exists>u. thread_step u (start_call quiet_programs 0 (Remove_call 1) (quiet_system fresh_shared)) \<noteq> None"
  by (rule calls_never_deadlock [OF quiet_keeps_out reachable_first_call, of 0])
    (simp add: idle_def start_call_def remove_program_def)

section \<open>Every call ends\<close>

definition next_program :: "('s program \<times> 's program) set" where
  "next_program = {(q, p). (\<exists>m. p = Lock m q) \<or> (\<exists>m. p = Unlock m q) \<or>
     (\<exists>f M M'. p = Atomic f \<and> f M = Inr (M', q))}"

lemma wf_next_program: "wf next_program"
proof (rule wfUNIVI)
  fix P :: "'s program \<Rightarrow> bool" and p
  assume step: "\<forall>p. (\<forall>q. (q, p) \<in> next_program \<longrightarrow> P q) \<longrightarrow> P p"
  show "P p"
  proof (induction p)
    case (Atomic f)
    have "P q" if "f M = Inr (M', q)" for M M' q
    proof (rule Atomic)
      show "Inr (M', q) \<in> range f" using that by (metis rangeI)
      show "(M', q) \<in> Basic_BNFs.setr (Inr (M', q))" by (simp add: setr.intros)
      show "q \<in> Basic_BNFs.snds (M', q)" by (simp add: snds.intros)
    qed
    then show ?case by - (rule step [rule_format], auto simp: next_program_def)
  next
    case (Return b)
    show ?case by (rule step [rule_format]) (auto simp: next_program_def)
  next
    case (Lock m p)
    then show ?case by - (rule step [rule_format], auto simp: next_program_def)
  next
    case (Unlock m p)
    then show ?case by - (rule step [rule_format], auto simp: next_program_def)
  qed
qed

definition work_left :: "nat set \<Rightarrow> ('f, 'v, 'w) system \<Rightarrow> ('f, 'v, 'w) shared program multiset" where
  "work_left T S = image_mset (code S) (mset_set T)"

lemma step_next_program:
  assumes "thread_step t S = Some (Inr S')"
  shows "(code S' t, code S t) \<in> next_program" and "u \<noteq> t \<Longrightarrow> code S' u = code S u"
  using assms
  by (auto simp: thread_step_def next_program_def outcome_rules split: program.splits if_splits) blast

lemma step_work_left:
  assumes "finite T" and "t \<in> T" and "thread_step t S = Some (Inr S')"
  shows "(work_left T S', work_left T S) \<in> mult next_program"
proof -
  have T: "mset_set T = add_mset t (mset_set (T - {t}))"
    using assms(1,2) by (simp add: mset_set.remove)
  have "image_mset (code S') (mset_set (T - {t})) = image_mset (code S) (mset_set (T - {t}))"
    using assms(1) step_next_program(2) [OF assms(3)] by (intro image_mset_cong) auto
  then show ?thesis
    using step_next_program(1) [OF assms(3)]
      one_step_implies_mult [of "{#code S t#}" "{#code S' t#}" next_program
        "image_mset (code S) (mset_set (T - {t}))"]
    by (simp add: work_left_def T)
qed

text \<open>Calls cannot keep each other busy: finitely many threads that start no new call take
  only finitely many steps.\<close>

theorem calls_terminate:
  fixes run :: "nat \<Rightarrow> ('f, 'v, 'w) system"
  shows "finite T \<Longrightarrow> \<exists>i. \<forall>t\<in>T. thread_step t (run i) \<noteq> Some (Inr (run (Suc i)))"
proof (rule ccontr)
  assume T: "finite T" and "\<nexists>i. \<forall>t\<in>T. thread_step t (run i) \<noteq> Some (Inr (run (Suc i)))"
  then have "(work_left T (run (Suc i)), work_left T (run i)) \<in> mult next_program" for i
    using step_work_left [OF T] by metis
  then have "\<exists>f :: nat \<Rightarrow> ('f, 'v, 'w) shared program multiset. \<forall>i. (f (Suc i), f i) \<in> mult next_program"
    by (intro exI [of _ "\<lambda>i. work_left T (run i)"]) simp
  with wf_iff_no_infinite_down_chain [THEN iffD1, OF wf_mult [OF wf_next_program]] show False
    by (rule notE)
qed

lemma system_completes:
  assumes "system_inv True S"
  shows "\<exists>ts. case run_schedule ts S of Inl e \<Rightarrow> True | Inr S' \<Rightarrow> \<forall>t. idle t S'"
proof -
  let ?T = "{t. \<not> idle t S}"
  have T: "finite ?T" using assms by (simp add: system_inv_def)
  have "system_inv True S \<Longrightarrow> {t. \<not> idle t S} \<subseteq> ?T \<Longrightarrow>
      \<exists>ts. case run_schedule ts S of Inl e \<Rightarrow> True | Inr S' \<Rightarrow> \<forall>t. idle t S'" for S
  proof (induction "work_left ?T S" arbitrary: S rule: wf_induct_rule [OF wf_mult [OF wf_next_program]])
    case (1 S)
    show ?case
    proof (cases "\<forall>t. idle t S")
      case True
      then show ?thesis by (intro exI [of _ "[]"]) simp
    next
      case False
      with some_thread_steps [OF 1(2)] obtain u r where u: "thread_step u S = Some r" by blast
      show ?thesis
      proof (cases r)
        case (Inl e)
        with u show ?thesis by (intro exI [of _ "[u]"]) simp
      next
        case (Inr S')
        with u have step: "thread_step u S = Some (Inr S')" by simp
        then have "\<not> idle u S" by (auto simp: thread_step_def idle_def split: program.splits)
        with 1(3) have "u \<in> ?T" by blast
        moreover have "{t. \<not> idle t S'} \<subseteq> insert u {t. \<not> idle t S}"
          using step_next_program(2) [OF step] by (auto simp: idle_def)
        ultimately have "{t. \<not> idle t S'} \<subseteq> ?T" using 1(3) by blast
        with 1(1) [OF step_work_left [OF T \<open>u \<in> ?T\<close> step]] thread_step_inv [OF 1(2) step]
        obtain ts where "case run_schedule ts S' of Inl e \<Rightarrow> True | Inr S' \<Rightarrow> \<forall>t. idle t S'" by blast
        then show ?thesis using step by (intro exI [of _ "u # ts"]) simp
      qed
    qed
  qed
  with assms show ?thesis by blast
qed

text \<open>Claim C17.  Every pending call can be completed: from every state that threads reach some schedule
  leads to a state in which every call has returned, or to the fault that ends the program, as long
  as the registered functions do not call the methods that lock a mutex.\<close>

theorem pending_calls_complete:
  assumes "\<And>f args. keeps_out (actions f args)" and "reachable (client_programs n actions) S"
  shows "\<exists>ts. case run_schedule ts S of Inl e \<Rightarrow> True | Inr S' \<Rightarrow> \<forall>t. idle t S'"
  by (rule system_completes [OF keeping_out.reachable_ordered [OF keeping_out.intro [OF assms(1)] assms(2)]])

theorem pending_calls_complete_witness:
  "\<exists>ts. case run_schedule ts (start_call quiet_programs 0 (Signal_call 15) (quiet_system fresh_shared)) of
     Inl e \<Rightarrow> True | Inr S' \<Rightarrow> \<forall>t. idle t S'"
  by (rule pending_calls_complete [OF quiet_keeps_out reachable_first_call])

section \<open>Registering the same identifier\<close>

text \<open>The points of a registration, and what is left of its program at each.\<close>

datatype registration_point =
    Starting | Searching | Inserting | Inserted | Queueing | Pushing | Pushed | Registered
  | Refusing | Refused

primrec program_at ::
  "int \<Rightarrow> ('f, 'v) handler_callback \<Rightarrow> signal_slot \<Rightarrow> bool \<Rightarrow> registration_point \<Rightarrow>
   ('f, 'v, 'w) shared program" where
  "program_at i h t b Starting = register_program i h t b"
| "program_at i h t b Searching = Atomic (emplace_section i h t b)"
| "program_at i h t b Inserting = Atomic (insert_section i h t b)"
| "program_at i h t b Inserted = Unlock Callback_mutex (push_program i t b)"
| "program_at i h t b Queueing = push_program i t b"
| "program_at i h t b Pushing = Atomic (push_section i t b)"
| "program_at i h t b Pushed = Unlock (Queue_mutex (slot_of t)) (Return True)"
| "program_at i h t b Registered = Return True"
| "program_at i h t b Refusing = Unlock Callback_mutex (Return False)"
| "program_at i h t b Refused = Return False"

definition registering ::
  "int \<Rightarrow> (nat \<Rightarrow> ('f, 'v) handler_callback) \<Rightarrow> (nat \<Rightarrow> signal_slot) \<Rightarrow> (nat \<Rightarrow> bool) \<Rightarrow> nat \<Rightarrow>
   ('f, 'v, 'w) shared \<Rightarrow> ('f, 'v, 'w) system" where
  "registering i h slot b n M =
     \<lparr>code = \<lambda>t. if t < n then register_program i (h t) (slot t) (b t) else Return True,
      owner = \<lambda>_. None, memory = M\<rparr>"

text \<open>
  Every thread is at some point of its registration.  At most one, the winner, is past its
  insertion, and only if the identifier was free; the others have not inserted anything, and those
  that have been refused have seen the identifier taken.  Between its search and its insertion a
  thread owns the mutex of the table and the identifier is free.
\<close>

definition race_inv ::
  "int \<Rightarrow> (nat \<Rightarrow> ('f, 'v) handler_callback) \<Rightarrow> (nat \<Rightarrow> signal_slot) \<Rightarrow> (nat \<Rightarrow> bool) \<Rightarrow> nat \<Rightarrow>
   ('f, 'v) scheduler_interrupt \<Rightarrow> nat option \<Rightarrow> (nat \<Rightarrow> registration_point) \<Rightarrow>
   ('f, 'v, 'w) system \<Rightarrow> bool" where
  "race_inv i h slot b n s0 winner at S \<longleftrightarrow>
     (\<forall>t. code S t = (if t < n then program_at i (h t) (slot t) (b t) (at t) else Return True)) \<and>
     (\<forall>t < n. at t \<in> {Searching, Inserting, Inserted, Refusing} \<longrightarrow> owner S Callback_mutex = Some t) \<and>
     (\<forall>t < n. (winner = Some t) = (at t \<in> {Inserted, Queueing, Pushing, Pushed, Registered})) \<and>
     (\<forall>t < n. at t \<in> {Refusing, Refused} \<longrightarrow> map_of (scheduler_callbacks (sched (memory S))) i \<noteq> None) \<and>
     (\<forall>t < n. at t = Inserting \<longrightarrow> map_of (scheduler_callbacks (sched (memory S))) i = None) \<and>
     map_of (scheduler_callbacks (sched (memory S))) i = (case winner of
       None \<Rightarrow> map_of (scheduler_callbacks s0) i | Some w \<Rightarrow> Some (slot_of (slot w), h w)) \<and>
     (\<forall>w. winner = Some w \<longrightarrow> w < n \<and> map_of (scheduler_callbacks s0) i = None) \<and>
     scheduler_signal_queues (sched (memory S)) = (case winner of
       None \<Rightarrow> scheduler_signal_queues s0
     | Some w \<Rightarrow> if at w \<in> {Pushed, Registered} then (scheduler_signal_queues s0)
           [nat (slot_of (slot w)) := queue_at (slot_of (slot w)) s0 @ [(i, b w)]]
         else scheduler_signal_queues s0)"

abbreviation at_table :: "registration_point set" where
  "at_table \<equiv> {Searching, Inserting, Inserted, Refusing}"

abbreviation inserted :: "registration_point set" where
  "inserted \<equiv> {Inserted, Queueing, Pushing, Pushed, Registered}"

lemma race_invD:
  assumes "race_inv i h slot b n s0 winner at S"
  shows "code S t = (if t < n then program_at i (h t) (slot t) (b t) (at t) else Return True)"
    and "t < n \<Longrightarrow> at t \<in> at_table \<Longrightarrow> owner S Callback_mutex = Some t"
    and "t < n \<Longrightarrow> (winner = Some t) = (at t \<in> inserted)"
    and "t < n \<Longrightarrow> at t \<in> {Refusing, Refused} \<Longrightarrow>
      map_of (scheduler_callbacks (sched (memory S))) i \<noteq> None"
    and "t < n \<Longrightarrow> at t = Inserting \<Longrightarrow> map_of (scheduler_callbacks (sched (memory S))) i = None"
    and "map_of (scheduler_callbacks (sched (memory S))) i = (case winner of
      None \<Rightarrow> map_of (scheduler_callbacks s0) i | Some w \<Rightarrow> Some (slot_of (slot w), h w))"
    and "winner = Some w \<Longrightarrow> w < n \<and> map_of (scheduler_callbacks s0) i = None"
    and "scheduler_signal_queues (sched (memory S)) = (case winner of
       None \<Rightarrow> scheduler_signal_queues s0
     | Some w \<Rightarrow> if at w \<in> {Pushed, Registered} then (scheduler_signal_queues s0)
           [nat (slot_of (slot w)) := queue_at (slot_of (slot w)) s0 @ [(i, b w)]]
         else scheduler_signal_queues s0)"
  using assms unfolding race_inv_def by blast+

text \<open>A step of thread \<open>t\<close> that inserts nothing takes it to the point \<open>p\<close>.\<close>

lemma race_move:
  assumes inv: "race_inv i h slot b n s0 winner at S" and t: "t < n"
    and code: "code S' = (code S)(t := program_at i (h t) (slot t) (b t) p)"
    and entry: "map_of (scheduler_callbacks (sched (memory S'))) i =
      map_of (scheduler_callbacks (sched (memory S))) i"
    and others: "\<And>u. u < n \<Longrightarrow> u \<noteq> t \<Longrightarrow> at u \<in> at_table \<Longrightarrow> owner S' Callback_mutex = Some u"
    and own: "p \<in> at_table \<Longrightarrow> owner S' Callback_mutex = Some t"
    and won: "(p \<in> inserted) = (at t \<in> inserted)"
    and refused: "p \<in> {Refusing, Refused} \<Longrightarrow>
      map_of (scheduler_callbacks (sched (memory S))) i \<noteq> None"
    and free: "p = Inserting \<Longrightarrow> map_of (scheduler_callbacks (sched (memory S))) i = None"
    and queues: "scheduler_signal_queues (sched (memory S')) =
      (if p = Pushed then (scheduler_signal_queues s0)
         [nat (slot_of (slot t)) := queue_at (slot_of (slot t)) s0 @ [(i, b t)]]
       else scheduler_signal_queues (sched (memory S)))"
    and pushed: "p \<noteq> Pushed \<Longrightarrow> (p = Registered) = (at t \<in> {Pushed, Registered})"
  shows "race_inv i h slot b n s0 winner (at(t := p)) S'"
proof -
  note D = race_invD [OF inv]
  have "scheduler_signal_queues (sched (memory S')) = (case winner of
      None \<Rightarrow> scheduler_signal_queues s0
    | Some w \<Rightarrow> if (at(t := p)) w \<in> {Pushed, Registered} then (scheduler_signal_queues s0)
          [nat (slot_of (slot w)) := queue_at (slot_of (slot w)) s0 @ [(i, b w)]]
        else scheduler_signal_queues s0)"
  proof (cases "winner = Some t")
    case True
    with queues D(8) pushed show ?thesis by (cases "p = Pushed") simp_all
  next
    case False
    then have "p \<noteq> Pushed" using D(3) [OF t] won by auto
    with False queues D(8) show ?thesis by (simp split: option.split)
  qed
  moreover have "\<forall>u. code S' u = (if u < n then program_at i (h u) (slot u) (b u) ((at(t := p)) u)
      else Return True)"
    using D(1) code t by simp
  moreover have "\<forall>u < n. (at(t := p)) u \<in> at_table \<longrightarrow> owner S' Callback_mutex = Some u"
    using others own by simp
  moreover have "\<forall>u < n. (winner = Some u) = ((at(t := p)) u \<in> inserted)"
    using D(3) won by simp
  moreover have "\<forall>u < n. (at(t := p)) u \<in> {Refusing, Refused} \<longrightarrow>
      map_of (scheduler_callbacks (sched (memory S'))) i \<noteq> None"
    using D(4) refused unfolding entry by simp
  moreover have "\<forall>u < n. (at(t := p)) u = Inserting \<longrightarrow>
      map_of (scheduler_callbacks (sched (memory S'))) i = None"
    using D(5) free unfolding entry by simp
  ultimately show ?thesis
    using D(6,7) unfolding race_inv_def entry by blast
qed

lemma race_step:
  assumes inv: "race_inv i h slot b n s0 winner at S" and step: "thread_step t S = Some (Inr S')"
  shows "\<exists>winner at. race_inv i h slot b n s0 winner at S'"
proof -
  note D = race_invD [OF inv]
  have t: "t < n"
  proof (rule ccontr)
    assume "\<not> t < n"
    then have "code S t = Return True" using D(1) [of t] by simp
    with step show False by (simp add: thread_step_def)
  qed
  have code: "code S t = program_at i (h t) (slot t) (b t) (at t)"
    using D(1) [of t] t by simp
  have owns: "owner S Callback_mutex = Some t" and alone: "\<And>u. u < n \<Longrightarrow> u \<noteq> t \<Longrightarrow> at u \<notin> at_table"
    if "at t \<in> at_table"
    using D(2) [OF t that] D(2) by (blast, metis option.inject)
  note move = race_move [OF inv t, of S']
  show ?thesis
  proof (cases "at t")
    case Starting
    with code step have S': "S' = S\<lparr>code := (code S)(t := Atomic (emplace_section i (h t) (slot t) (b t))),
        owner := (owner S)(Callback_mutex \<mapsto> t)\<rparr>" and none: "owner S Callback_mutex = None"
      by (auto simp: thread_step_def register_program_def split: if_splits)
    have "at u \<notin> at_table" if "u < n" for u
      using D(2) [OF that] none by auto
    then have "race_inv i h slot b n s0 winner (at(t := Searching)) S'"
      by (intro move) (simp_all add: S' Starting)
    then show ?thesis by blast
  next
    case Searching
    show ?thesis
    proof (cases "map_of (scheduler_callbacks (sched (memory S))) i")
      case None
      with Searching code step have S': "S' = S\<lparr>code := (code S)(t :=
          Atomic (insert_section i (h t) (slot t) (b t)))\<rparr>"
        by (auto simp: thread_step_def emplace_section_def)
      have "race_inv i h slot b n s0 winner (at(t := Inserting)) S'"
        using owns alone None by (intro move) (simp_all add: S' Searching)
      then show ?thesis by blast
    next
      case (Some x)
      with Searching code step have S': "S' = S\<lparr>code := (code S)(t :=
          Unlock Callback_mutex (Return False))\<rparr>"
        by (auto simp: thread_step_def emplace_section_def)
      have "race_inv i h slot b n s0 winner (at(t := Refusing)) S'"
        using owns alone Some by (intro move) (simp_all add: S' Searching)
      then show ?thesis by blast
    qed
  next
    case Inserting
    have free: "map_of (scheduler_callbacks (sched (memory S))) i = None"
      by (rule D(5) [OF t Inserting])
    have none: "winner = None" "map_of (scheduler_callbacks s0) i = None"
      using D(6) free by (auto split: option.splits)
    have S': "code S' = (code S)(t := Unlock Callback_mutex (push_program i (slot t) (b t)))"
      "owner S' = owner S" "scheduler_callbacks (sched (memory S')) =
         (i, slot_of (slot t), h t) # scheduler_callbacks (sched (memory S))"
      "scheduler_signal_queues (sched (memory S')) = scheduler_signal_queues (sched (memory S))"
      using Inserting code step by (auto simp: thread_step_def insert_section_def)
    have "at u \<notin> inserted \<and> at u \<noteq> Inserting" if "u < n" "u \<noteq> t" for u
      using D(3) [OF that(1)] none alone [OF _ that] Inserting by auto
    then have "race_inv i h slot b n s0 (Some t) (at(t := Inserted)) S'"
      using D(1,8) none owns alone Inserting t unfolding race_inv_def S' by auto
    then show ?thesis by blast
  next
    case Inserted
    with code step have S': "S' = S\<lparr>code := (code S)(t := push_program i (slot t) (b t)),
        owner := (owner S)(Callback_mutex := None)\<rparr>"
      by (auto simp: thread_step_def split: if_splits)
    have "race_inv i h slot b n s0 winner (at(t := Queueing)) S'"
      using alone by (intro move) (simp_all add: S' Inserted)
    then show ?thesis by blast
  next
    case Queueing
    with code step have S': "S' = S\<lparr>code := (code S)(t := Atomic (push_section i (slot t) (b t))),
        owner := (owner S)(Queue_mutex (slot_of (slot t)) \<mapsto> t)\<rparr>"
      by (auto simp: thread_step_def push_program_def split: if_splits)
    have "race_inv i h slot b n s0 winner (at(t := Pushing)) S'"
      using D(2) by (intro move) (simp_all add: S' Queueing)
    then show ?thesis by blast
  next
    case Pushing
    have "winner = Some t" using D(3) [OF t] Pushing by simp
    with D(8) Pushing have q: "scheduler_signal_queues (sched (memory S)) = scheduler_signal_queues s0"
      by simp
    have S': "code S' = (code S)(t := Unlock (Queue_mutex (slot_of (slot t))) (Return True))"
      "owner S' = owner S"
      "scheduler_callbacks (sched (memory S')) = scheduler_callbacks (sched (memory S))"
      "scheduler_signal_queues (sched (memory S')) = (scheduler_signal_queues s0)
         [nat (slot_of (slot t)) := queue_at (slot_of (slot t)) s0 @ [(i, b t)]]"
      using Pushing code step q by (auto simp: thread_step_def push_section_def push_queue_def
          put_queue_def array_at_def queue_at_def bind_o_eq_Inr_iff split: if_splits)
    have "race_inv i h slot b n s0 winner (at(t := Pushed)) S'"
      using D(2) by (intro move) (simp_all add: S' Pushing)
    then show ?thesis by blast
  next
    case Pushed
    with code step have S': "S' = S\<lparr>code := (code S)(t := Return True),
        owner := (owner S)(Queue_mutex (slot_of (slot t)) := None)\<rparr>"
      by (auto simp: thread_step_def split: if_splits)
    have "race_inv i h slot b n s0 winner (at(t := Registered)) S'"
      using D(2) by (intro move) (simp_all add: S' Pushed)
    then show ?thesis by blast
  next
    case Refusing
    with code step have S': "S' = S\<lparr>code := (code S)(t := Return False),
        owner := (owner S)(Callback_mutex := None)\<rparr>"
      by (auto simp: thread_step_def split: if_splits)
    have "race_inv i h slot b n s0 winner (at(t := Refused)) S'"
      using alone D(4) [OF t] by (intro move) (simp_all add: S' Refusing)
    then show ?thesis by blast
  qed (use code step in \<open>simp_all add: thread_step_def\<close>)
qed

lemma race_schedule:
  "race_inv i h slot b n s0 winner at S \<Longrightarrow> run_schedule ts S = Inr S' \<Longrightarrow>
   \<exists>winner at. race_inv i h slot b n s0 winner at S'"
proof (induction ts arbitrary: S winner at)
  case (Cons t ts)
  show ?case
  proof (cases "thread_step t S")
    case None
    with Cons show ?thesis by simp
  next
    case (Some r)
    with Cons.prems(2) obtain S1 where "r = Inr S1" "run_schedule ts S1 = Inr S'"
      by (auto simp: bind_o_eq_Inr_iff)
    with race_step [OF Cons.prems(1)] Some Cons.IH show ?thesis by blast
  qed
qed auto

text \<open>Claim C6.  Threads that register the same identifier at the same time, when all have returned,
  in every interleaving: if the identifier was free, exactly one is told that it registered, the
  table has that thread's callback and slot, and the queue of its signal has its entry once, with
  its persistence, behind what was there, the other queues being as they were; if the identifier was
  taken, all are refused, and the entry and the queues stay.  The search and the insertion of
  \<open>emplace\<close> are separate steps, which only the mutex of the table keeps together.\<close>

theorem one_registration_wins:
  assumes "0 < n" and "run_schedule ts (registering i h slot b n M) = Inr S" and "\<And>t. idle t S"
  shows "if map_of (scheduler_callbacks (sched M)) i = None
    then \<exists>w<n. code S w = Return True \<and> (\<forall>t<n. t \<noteq> w \<longrightarrow> code S t = Return False) \<and>
      map_of (scheduler_callbacks (sched (memory S))) i = Some (slot_of (slot w), h w) \<and>
      scheduler_signal_queues (sched (memory S)) = (scheduler_signal_queues (sched M))
        [nat (slot_of (slot w)) := queue_at (slot_of (slot w)) (sched M) @ [(i, b w)]]
    else (\<forall>t<n. code S t = Return False) \<and>
      map_of (scheduler_callbacks (sched (memory S))) i = map_of (scheduler_callbacks (sched M)) i \<and>
      scheduler_signal_queues (sched (memory S)) = scheduler_signal_queues (sched M)"
proof -
  have "race_inv i h slot b n (sched M) None (\<lambda>_. Starting) (registering i h slot b n M)"
    by (simp add: race_inv_def registering_def)
  from race_schedule [OF this assms(2)] obtain winner at where
    inv: "race_inv i h slot b n (sched M) winner at S" by blast
  have ended: "at t = Registered \<or> at t = Refused" if "t < n" for t
  proof -
    have "code S t = program_at i (h t) (slot t) (b t) (at t)"
      using inv that by (simp add: race_inv_def)
    with assms(3) [of t] show ?thesis
      by (cases "at t") (auto simp: idle_iff register_program_def push_program_def)
  qed
  have code: "code S t = Return (winner = Some t)" if "t < n" for t
    using inv that ended [OF that] by (auto simp: race_inv_def)
  show ?thesis
  proof (cases winner)
    case None
    with inv ended [OF assms(1)] assms(1) have "map_of (scheduler_callbacks (sched M)) i \<noteq> None"
      by (auto simp: race_inv_def)
    with inv None code show ?thesis by (simp add: race_inv_def)
  next
    case (Some w)
    then have "w < n" and free: "map_of (scheduler_callbacks (sched M)) i = None"
      using inv by (auto simp: race_inv_def)
    moreover have "at w = Registered"
      using ended [OF \<open>w < n\<close>] inv Some \<open>w < n\<close> by (auto simp: race_inv_def)
    ultimately show ?thesis
      using inv Some code by (auto simp: race_inv_def intro!: exI [of _ w])
  qed
qed

theorem one_registration_wins_witness:
  "\<exists>S w. run_schedule [0, 0, 1, 0, 0, 1, 1, 1, 0, 0, 0] (registering 7 (\<lambda>t. handler_new None)
       (\<lambda>t. if t = 0 then Sigterm else Sigusr1) (\<lambda>t. True) 2 fresh_shared) = Inr S \<and>
     w < 2 \<and> code S w = Return True"
proof -
  let ?S = "registering 7 (\<lambda>t. handler_new None) (\<lambda>t. if t = 0 then Sigterm else Sigusr1) (\<lambda>t. True) 2
    fresh_shared"
  have none: "map_of (scheduler_callbacks (sched fresh_shared)) 7 = None"
    using si_inv_initial(2) by (simp add: fresh_shared_def si_view_def fun_eq_iff)
  have "length (scheduler_signal_queues (sched fresh_shared)) = SIGNAL_COUNT"
    using fresh_shared_inv by (simp add: si_inv_def)
  with none have "\<exists>S. run_schedule [0, 0, 1, 0, 0, 1, 1, 1, 0, 0, 0] ?S = Inr S \<and> (\<forall>t. idle t S)"
    by (simp add: registering_def thread_step_def register_program_def emplace_section_def
        insert_section_def push_program_def push_section_def push_queue_def idle_def SIGNAL_COUNT_def
        mutex_exists_def)
  then obtain S where "run_schedule [0, 0, 1, 0, 0, 1, 1, 1, 0, 0, 0] ?S = Inr S" "\<And>t. idle t S" by blast
  with one_registration_wins [OF _ this] none show ?thesis by auto
qed

section \<open>The races that are left\<close>

subsection \<open>Updating while removing\<close>

text \<open>Two threads of which the first makes one call and the second another.\<close>

definition two_calls ::
  "('f, 'v, 'w) callback_programs \<Rightarrow> ('f, 'v) scheduler_call \<Rightarrow> ('f, 'v) scheduler_call \<Rightarrow>
   ('f, 'v, 'w) shared \<Rightarrow> ('f, 'v, 'w) system" where
  "two_calls body c d M = start_call body 1 d (start_call body 0 c (quiet_system M))"

primrec is_update :: "int \<Rightarrow> ('f, 'v) scheduler_call \<Rightarrow> bool" where
  "is_update i (Register_function j fp t b) \<longleftrightarrow> False"
| "is_update i (Register_parameters j fp args t b) \<longleftrightarrow> False"
| "is_update i (Update_function j fp) \<longleftrightarrow> i = j"
| "is_update i (Update_parameters j fp args) \<longleftrightarrow> i = j"
| "is_update i (Update_parameters_only j args) \<longleftrightarrow> i = j"
| "is_update i (Remove_call j) \<longleftrightarrow> False"
| "is_update i Clean_call \<longleftrightarrow> False"
| "is_update i Toggle_call \<longleftrightarrow> False"
| "is_update i (Signal_call sig) \<longleftrightarrow> False"

lemma is_update_program: "is_update i c \<Longrightarrow> \<exists>f. program_of body c = update_program f i"
  by (cases c) auto

text \<open>Claim C19.  An update races with a removal: for every registered identifier there is an order
  in which the update finds the element, the removal destroys it, and the update goes on through
  its dangling iterator, before it has locked anything.\<close>

theorem update_races_remove:
  assumes "map_of (scheduler_callbacks (sched M)) i \<noteq> None" and "is_update i c"
  shows "run_schedule [0, 0, 0, 1, 1, 1, 0] (two_calls body c (Remove_call i) M) =
    Inl Undefined_Behaviour"
proof -
  obtain f where f: "program_of body c = update_program f i" using is_update_program assms(2) by metis
  obtain slot h where "map_of (scheduler_callbacks (sched M)) i = Some (slot, h)" using assms(1) by auto
  with f show ?thesis
    by (simp add: two_calls_def start_call_def quiet_system_def thread_step_def update_program_def
        remove_program_def modify_program_def dereference_def)
qed

theorem update_races_remove_witness:
  "run_schedule [0, 0, 0, 1, 1, 1, 0]
    (two_calls quiet_programs (Update_function 5 (Some 1)) (Remove_call 5)
      (fresh_shared\<lparr>sched := (sched fresh_shared)\<lparr>scheduler_callbacks :=
        [(5, 0, handler_new None)]\<rparr>\<rparr>)) = Inl Undefined_Behaviour"
  by (rule update_races_remove) simp_all

subsection \<open>Cleaning while registering\<close>

lemma run_schedule_append:
  "run_schedule (ts @ us) S = bind_o (run_schedule ts S) (run_schedule us)"
  by (induction ts arbitrary: S) (auto simp: bind_o_def split: option.split sum.split)

lemma run_schedule_then:
  "run_schedule ts S = Inr S1 \<Longrightarrow> run_schedule us S1 = r \<Longrightarrow> run_schedule (ts @ us) S = r"
  by (simp add: run_schedule_append)

lemma release_mutex [simp]: "(\<lambda>_. None)(m := None) = (\<lambda>_. None)"
  by auto

lemma run_clean_queues:
  assumes "code S t = clean_queues_program n" and "owner S = (\<lambda>_. None)" and "n \<le> SIGNAL_COUNT"
    and "length (scheduler_signal_queues (sched (memory S))) = SIGNAL_COUNT"
  shows "run_schedule (replicate (3 * n) t) S = Inr (S\<lparr>code := (code S)(t := Return True),
    memory := (memory S)\<lparr>sched := (sched (memory S))\<lparr>scheduler_signal_queues :=
      take (SIGNAL_COUNT - n) (scheduler_signal_queues (sched (memory S))) @ replicate n []\<rparr>\<rparr>\<rparr>)"
  using assms
proof (induction n arbitrary: S)
  case 0
  then have "(code S)(t := Return True) = code S" by auto
  with 0 show ?case by simp
next
  case (Suc n)
  define k where "k = SIGNAL_COUNT - Suc n"
  let ?s = "sched (memory S)"
  let ?S = "S\<lparr>code := (code S)(t := clean_queues_program n), memory := (memory S)\<lparr>sched :=
    ?s\<lparr>scheduler_signal_queues := (scheduler_signal_queues ?s)[k := []]\<rparr>\<rparr>\<rparr>"
  have k: "k < SIGNAL_COUNT" "k < length (scheduler_signal_queues ?s)" "SIGNAL_COUNT - n = Suc k"
    using Suc.prems(3,4) by (auto simp: k_def SIGNAL_COUNT_def)
  have "code S t = Lock (Queue_mutex (int k)) (Atomic (\<lambda>M.
        bind_o (array_at (int k) (scheduler_signal_queues (sched M))) (\<lambda>q.
          Inr (M\<lparr>sched := put_queue (int k) (pop_front_all q) (sched M)\<rparr>,
            Unlock (Queue_mutex (int k)) (clean_queues_program n)))))"
    using Suc.prems(1) by (simp add: Let_def k_def)
  then have "run_schedule [t, t, t] S = Inr ?S"
    using Suc.prems(2,4) k by (simp add: thread_step_def mutex_exists_def put_queue_def)
  then have "run_schedule (replicate (3 * Suc n) t) S = run_schedule (replicate (3 * n) t) ?S"
    using run_schedule_append [of "[t, t, t]" "replicate (3 * n) t" S]
    by (simp add: numeral_3_eq_3 del: run_schedule.simps)
  also have "\<dots> = Inr (?S\<lparr>code := (code ?S)(t := Return True), memory := (memory ?S)\<lparr>sched :=
      (sched (memory ?S))\<lparr>scheduler_signal_queues := take (SIGNAL_COUNT - n)
        (scheduler_signal_queues (sched (memory ?S))) @ replicate n []\<rparr>\<rparr>\<rparr>)"
    by (rule Suc.IH) (use Suc.prems(2-4) in simp_all)
  finally show ?case
    using k by (simp add: take_Suc_conv_app_nth k_def [symmetric] replicate_app_Cons_same fun_upd_def cong: if_cong)
qed

text \<open>Claim C20.  A registration races with \<open>clean\<close>, in both directions.  If \<open>clean\<close> runs between the
  two sections of the registration, the caller is told it registered but its queue entry leads to no
  callback.  If the registration runs between the two parts of \<open>clean\<close>, the callback stays in the
  table without any queue entry: it is never called, and its identifier stays taken.\<close>

theorem register_races_clean:
  fixes M :: "('f, 'v, 'w) shared"
  assumes "si_inv (sched M)" and "map_of (scheduler_callbacks (sched M)) i = None"
  shows "(\<exists>S. run_schedule ([0, 0, 0, 0] @ [1, 1, 1] @ replicate (3 * SIGNAL_COUNT) 1 @ [0, 0, 0])
      (two_calls body (Register_function i fp slot b) Clean_call M) = Inr S \<and>
      (\<forall>u. code S u = Return True) \<and> scheduler_callbacks (sched (memory S)) = [] \<and>
      queue_at (slot_of slot) (sched (memory S)) = [(i, b)]) \<and>
    (\<exists>S. run_schedule ([1, 1, 1] @ replicate 7 0 @ replicate (3 * SIGNAL_COUNT) 1)
      (two_calls body (Register_function i fp slot b) Clean_call M) = Inr S \<and>
      (\<forall>u. code S u = Return True) \<and>
      map_of (scheduler_callbacks (sched (memory S))) i \<noteq> None \<and>
      scheduler_signal_queues (sched (memory S)) = replicate SIGNAL_COUNT [])"
proof
  let ?S = "two_calls body (Register_function i fp slot b) Clean_call M"
  let ?h = "setBoundOrFreeFunction (function_of_pointer fp) (handler_new None)"
  have len: "length (scheduler_signal_queues (sched M)) = SIGNAL_COUNT"
    using assms(1) by (simp add: si_inv_def)
  let ?b = "(births M)(i := Suc (births M i))"
  let ?cleared = "\<lambda>M. M\<lparr>sched := (sched M)\<lparr>scheduler_signal_queues := replicate SIGNAL_COUNT []\<rparr>\<rparr>"
  note unfold = two_calls_def start_call_def quiet_system_def thread_step_def register_program_def
    emplace_section_def insert_section_def clean_program_def assms(2) fun_upd_twist
  note pushing = push_program_def push_section_def push_queue_def put_queue_def array_at_def
  let ?M1 = "M\<lparr>sched := (sched M)\<lparr>scheduler_callbacks := []\<rparr>, births := ?b\<rparr>"
  let ?S1 = "\<lparr>code = (\<lambda>_. Return True)(0 := push_program i slot b,
    1 := clean_queues_program SIGNAL_COUNT), owner = \<lambda>_. None, memory = ?M1\<rparr>"
  let ?S2 = "\<lparr>code = (\<lambda>_. Return True)(0 := push_program i slot b, 1 := Return True),
    owner = \<lambda>_. None, memory = ?cleared ?M1\<rparr>"
  have "run_schedule ([0, 0, 0, 0] @ [1, 1, 1]) ?S = Inr ?S1" by (simp add: unfold)
  moreover have "run_schedule (replicate (3 * SIGNAL_COUNT) 1) ?S1 = Inr ?S2"
    using run_clean_queues [of ?S1 1 SIGNAL_COUNT] len by (simp add: fun_upd_def cong: if_cong)
  ultimately have run: "run_schedule (([0, 0, 0, 0] @ [1, 1, 1]) @ replicate (3 * SIGNAL_COUNT) 1) ?S = Inr ?S2"
    by (rule run_schedule_then)
  have "\<exists>S. run_schedule [0, 0, 0] ?S2 = Inr S \<and>
      (\<forall>u. code S u = Return True) \<and> scheduler_callbacks (sched (memory S)) = [] \<and>
      queue_at (slot_of slot) (sched (memory S)) = [(i, b)]"
    by (simp add: thread_step_def pushing queue_at_def) (simp add: SIGNAL_COUNT_def)
  with run_schedule_then [OF run, of "[0, 0, 0]"]
  show "\<exists>S. run_schedule ([0, 0, 0, 0] @ [1, 1, 1] @ replicate (3 * SIGNAL_COUNT) 1 @ [0, 0, 0]) ?S = Inr S \<and>
      (\<forall>u. code S u = Return True) \<and> scheduler_callbacks (sched (memory S)) = [] \<and>
      queue_at (slot_of slot) (sched (memory S)) = [(i, b)]"
    unfolding append_assoc by metis
  let ?M3 = "M\<lparr>sched := put_queue (slot_of slot) (queue_at (slot_of slot) (sched M) @ [(i, b)])
    ((sched M)\<lparr>scheduler_callbacks := [(i, slot_of slot, ?h)]\<rparr>), births := ?b\<rparr>"
  let ?S3 = "\<lparr>code = (\<lambda>_. Return True)(0 := Return True, 1 := clean_queues_program SIGNAL_COUNT), owner = \<lambda>_. None,
    memory = ?M3\<rparr>"
  have "run_schedule ([1, 1, 1] @ replicate 7 0) ?S = Inr ?S3"
    using len by (simp add: unfold pushing eval_nat_numeral queue_at_def) (simp add: SIGNAL_COUNT_def)
  moreover have "run_schedule (replicate (3 * SIGNAL_COUNT) 1) ?S3 = Inr \<lparr>code = \<lambda>_. Return True,
      owner = \<lambda>_. None, memory = ?cleared ?M3\<rparr>"
    using run_clean_queues [of ?S3 1 SIGNAL_COUNT] len by (simp add: fun_upd_def put_queue_def cong: if_cong)
  ultimately have "run_schedule (([1, 1, 1] @ replicate 7 0) @ replicate (3 * SIGNAL_COUNT) 1) ?S =
      Inr \<lparr>code = \<lambda>_. Return True, owner = \<lambda>_. None, memory = ?cleared ?M3\<rparr>"
    by (rule run_schedule_then)
  then show "\<exists>S. run_schedule ([1, 1, 1] @ replicate 7 0 @ replicate (3 * SIGNAL_COUNT) 1) ?S = Inr S \<and>
      (\<forall>u. code S u = Return True) \<and>
      map_of (scheduler_callbacks (sched (memory S))) i \<noteq> None \<and>
      scheduler_signal_queues (sched (memory S)) = replicate SIGNAL_COUNT []"
    unfolding append_assoc by (simp add: put_queue_def del: run_schedule.simps append.simps)
qed

theorem register_races_clean_witness:
  "\<exists>S. run_schedule ([1, 1, 1] @ replicate 7 0 @ replicate (3 * SIGNAL_COUNT) 1)
     (two_calls quiet_programs (Register_function 7 None Sigterm True) Clean_call fresh_shared) = Inr S \<and>
     map_of (scheduler_callbacks (sched (memory S))) 7 \<noteq> None \<and>
     scheduler_signal_queues (sched (memory S)) = replicate SIGNAL_COUNT []"
proof -
  have "map_of (scheduler_callbacks (sched fresh_shared)) 7 = None"
    using si_inv_initial(2) by (simp add: fresh_shared_def si_view_def fun_eq_iff)
  from register_races_clean [OF fresh_shared_inv this, of quiet_programs None Sigterm True]
  show ?thesis by blast
qed

subsection \<open>Signals\<close>

text \<open>A thread that a signal interrupts runs the handler and then goes on.\<close>

definition interrupted ::
  "('f, 'v, 'w) callback_programs \<Rightarrow> nat \<Rightarrow> int \<Rightarrow> ('f, 'v, 'w) system \<Rightarrow> ('f, 'v, 'w) system" where
  "interrupted body t sig S =
     S\<lparr>code := (code S)(t := and_then (signal_program body sig) (\<lambda>_. code S t))\<rparr>"

lemma signal_offset_callbacks [simp]:
  "signal_offset sig (s\<lparr>scheduler_callbacks := m\<rparr>) = signal_offset sig s"
  by (simp add: signal_offset_def)

lemma waits_for_itself:
  assumes "code S t = Lock m p" and "owner S m = Some t" and "mutex_exists m"
    and "run_schedule ts S = Inr S'"
  shows "code S' t = Lock m p \<and> owner S' m = Some t"
  using assms
proof (induction ts arbitrary: S)
  case (Cons u ts)
  show ?case
  proof (cases "thread_step u S")
    case None
    with Cons show ?thesis by simp
  next
    case (Some r)
    with Cons.prems(4) obtain S1 where S1: "thread_step u S = Some (Inr S1)" "run_schedule ts S1 = Inr S'"
      by (auto simp: bind_o_eq_Inr_iff)
    then have "u \<noteq> t" using Cons.prems(1-3) by (auto simp: thread_step_def)
    with S1(1) Cons.prems(1,2) have "code S1 t = Lock m p" "owner S1 m = Some t"
      by (auto simp: thread_step_def bind_o_eq_Inr_iff split: program.splits if_splits)
    with Cons.IH [OF _ _ Cons.prems(3) S1(2)] show ?thesis by simp
  qed
qed simp

text \<open>Claim C21.  A thread that is interrupted inside the section of a queue by the signal of that
  queue, while handling is on, is stuck for ever: whatever the other threads do, it waits for the
  mutex it holds itself and never releases it.\<close>

theorem interrupted_holder_is_stuck:
  assumes "si_inv (sched (memory S))" and "scheduler_available_for_offload (sched (memory S))"
    and "owner S (Queue_mutex (signal_offset sig (sched (memory S)))) = Some t"
    and "run_schedule (t # ts) (interrupted body t sig S) = Inr S'"
  shows "\<not> idle t S' \<and> owner S' (Queue_mutex (signal_offset sig (sched (memory S)))) = Some t"
proof -
  let ?i = "signal_offset sig (sched (memory S))"
  have i: "mutex_exists (Queue_mutex ?i)"
    using signal_offset_range [OF assms(1)] by (simp add: mutex_exists_def SIGNAL_COUNT_def)
  have "\<exists>S1 p. thread_step t (interrupted body t sig S) = Some (Inr S1) \<and>
      code S1 t = Lock (Queue_mutex ?i) p \<and> owner S1 (Queue_mutex ?i) = Some t"
    using assms(2,3)
    by (simp add: interrupted_def thread_step_def signal_program_def serve_program_def
        umap_subscript_offset Let_def)
  then obtain S1 p where S1: "thread_step t (interrupted body t sig S) = Some (Inr S1)"
    "code S1 t = Lock (Queue_mutex ?i) p" "owner S1 (Queue_mutex ?i) = Some t" by blast
  with assms(4) have "run_schedule ts S1 = Inr S'" by simp
  from waits_for_itself [OF S1(2,3) i this] show ?thesis by (simp add: idle_def)
qed

theorem interrupted_holder_is_stuck_witness:
  "\<exists>S S'. run_schedule [0, 0, 0, 0, 0] (start_call quiet_programs 0 (Register_function 7 None Sigterm True)
      (quiet_system fresh_shared)) = Inr S \<and>
    run_schedule [0, 1, 0] (interrupted quiet_programs 0 15 S) = Inr S' \<and> \<not> idle 0 S'"
proof -
  have offset: "signal_offset 15 (sched fresh_shared) = 5"
    by (simp add: signal_offset_def fresh_shared_def interrupt_initial_def debug_status.defs
        scheduler_interrupt.defs initial_reverse_lookup_def)
  let ?h = "setBoundOrFreeFunction None (handler_new None)"
  let ?S = "\<lparr>code = (\<lambda>_. Return True)(0 := Atomic (push_section 7 Sigterm True)),
    owner = (\<lambda>_. None)(Queue_mutex 5 \<mapsto> 0), memory = fresh_shared\<lparr>sched :=
      (sched fresh_shared)\<lparr>scheduler_callbacks := [(7, 5, ?h)]\<rparr>, births := (\<lambda>_. 0)(7 := 1)\<rparr>\<rparr>"
  have empty: "scheduler_callbacks (sched fresh_shared) = []"
    by (simp add: fresh_shared_def interrupt_initial_def debug_status.defs scheduler_interrupt.defs)
  have S: "run_schedule [0, 0, 0, 0, 0] (start_call quiet_programs 0 (Register_function 7 None Sigterm True)
      (quiet_system fresh_shared)) = Inr ?S"
    by (simp add: start_call_def quiet_system_def thread_step_def register_program_def
        emplace_section_def insert_section_def push_program_def empty function_of_pointer_def
        mutex_exists_def SIGNAL_COUNT_def)
      (simp add: fresh_shared_def)
  have inv: "si_inv (sched (memory ?S))"
    using fresh_shared_inv by (auto simp: intro!: si_inv_callbacks split: if_splits)
  have "\<exists>S'. run_schedule [0, 1, 0] (interrupted quiet_programs 0 15 ?S) = Inr S'"
    by (simp add: interrupted_def thread_step_def signal_program_def serve_program_def
        umap_subscript_offset offset mutex_exists_def SIGNAL_COUNT_def)
      (simp add: fresh_shared_def)
  then obtain S' where S': "run_schedule [0, 1, 0] (interrupted quiet_programs 0 15 ?S) = Inr S'" ..
  have "signal_offset 15 (sched (memory ?S)) = 5" using offset by (simp add: signal_offset_def)
  then have "\<not> idle 0 S'"
    using interrupted_holder_is_stuck [OF inv _ _ S', of] by (simp add: fresh_shared_def)
  with S S' show ?thesis by blast
qed

end
