(* ===== verification/Nfs_Callbacks.thy ===== *)
theory Nfs_Callbacks
  imports Nfs_Threads
begin

text \<open>
  Functions registered at a \<open>scheduler_interrupt\<close> (\<open>LIBS/defs_scheduler.h\<close>) that call it back.
  The signal handler runs them with the mutex of the table locked.  Most methods lock that mutex, and
  it is not recursive: what this does to one thread, and to all the others.
\<close>

section \<open>How many calls of functions fit on the stack\<close>

lemma handler_run_cong:
  "(\<And>f args. prog f args x = prog' f args x) \<Longrightarrow> handler_run prog h x = handler_run prog' h x"
  by (auto simp: handler_run_def call_bound_def split: callable.split intro!: bind_o_cong)

lemma lock_callbacks_held: "scheduler_callback_mutex s \<Longrightarrow> lock_callbacks s = Inl Self_Deadlock"
  by (simp add: lock_callbacks_def)

lemma lock_queue_callback_mutex:
  "lock_queue i s = Inr s' \<Longrightarrow> scheduler_callback_mutex s' = scheduler_callback_mutex s"
  by (auto simp: lock_queue_def outcome_rules split: if_splits)

text \<open>The handler while its own thread holds the mutex of the table.\<close>

lemma handler_held:
  assumes "scheduler_callback_mutex s"
  shows "handlerUpdateAndRun prog sig s w = handlerUpdateAndRun prog' sig s w"
    and "handlerUpdateAndRun prog sig s w = Inr (s', w') \<Longrightarrow> scheduler_callback_mutex s'"
proof -
  obtain offset lookup where look:
    "umap_subscript 0 sig (scheduler_signal_value_reverse_lookup s) = (offset, lookup)"
    by fastforce
  let ?s0 = "s\<lparr>scheduler_signal_value_reverse_lookup := lookup\<rparr>"
  have "handlerUpdateAndRun prog sig s w = (if \<not> scheduler_available_for_offload s then Inr (?s0, w)
      else bind_o (lock_queue offset ?s0) (\<lambda>s1.
        bind_o (array_at offset (scheduler_signal_queues s1)) (\<lambda>q. Inl
          (if q = [] then Assertion_Failed else Self_Deadlock))))" for prog
    using assms by (auto simp: handlerUpdateAndRun_def look Let_def lock_callbacks_held
        case_prod_unfold dest!: lock_queue_callback_mutex intro!: bind_o_cong)
  with assms show "handlerUpdateAndRun prog sig s w = handlerUpdateAndRun prog' sig s w"
    and "handlerUpdateAndRun prog sig s w = Inr (s', w') \<Longrightarrow> scheduler_callback_mutex s'"
    by (auto simp: outcome_rules split: if_splits)
qed

text \<open>The calls that lock the mutex of the table first thing.\<close>

primrec needs_table :: "('f, 'v) scheduler_call \<Rightarrow> bool" where
  "needs_table (Register_function i fp t b) \<longleftrightarrow> True"
| "needs_table (Register_parameters i fp args t b) \<longleftrightarrow> True"
| "needs_table (Update_function i fp) \<longleftrightarrow> True"
| "needs_table (Update_parameters i fp args) \<longleftrightarrow> True"
| "needs_table (Update_parameters_only i args) \<longleftrightarrow> True"
| "needs_table (Remove_call i) \<longleftrightarrow> True"
| "needs_table Clean_call \<longleftrightarrow> True"
| "needs_table Toggle_call \<longleftrightarrow> False"
| "needs_table (Signal_call sig) \<longleftrightarrow> False"

lemma table_call_held:
  "needs_table c \<Longrightarrow> scheduler_callback_mutex s \<Longrightarrow> operation_of prog c s w = Inl Self_Deadlock"
  by (cases c) (simp_all add: keep_world_def si_register_defs si_registerSharedHelper_def
      si_updateRegistration_def si_updateSharedParameterFree_def si_updateRegistrationParameters_def
      si_updateRegistrationParametersOnly_def si_updateShared_def si_modify_def si_updateSharedHelper_def
      si_removeRegistration_def si_clean_def lock_callbacks_held)

lemma operation_held:
  assumes "scheduler_callback_mutex s"
  shows "operation_of prog c s w = operation_of prog' c s w"
    and "operation_of prog c s w = Inr (b, s', w') \<Longrightarrow> scheduler_callback_mutex s'"
proof -
  show "operation_of prog c s w = operation_of prog' c s w"
    using assms table_call_held [of c s] handler_held(1) [of s prog _ w prog'] by (cases c) auto
  show "operation_of prog c s w = Inr (b, s', w') \<Longrightarrow> scheduler_callback_mutex s'"
    using assms table_call_held [of c s prog w] handler_held(2) [of s prog _ w]
    by (cases c) (auto simp: toggleHandlerSignaling_def outcome_rules)
qed

lemma perform_held:
  "scheduler_callback_mutex s \<Longrightarrow> si_perform prog a s w = si_perform prog' a s w"
proof (induction a arbitrary: s w)
  case (Si_look c)
  from Si_look(1) [OF rangeI Si_look(2)] show ?case by simp
next
  case (Si_request rq c)
  have "bind_o (operation_of prog' rq s w) (\<lambda>(b, s1, w1). si_perform prog (c b) s1 w1) =
      bind_o (operation_of prog' rq s w) (\<lambda>(b, s1, w1). si_perform prog' (c b) s1 w1)"
  proof (intro bind_o_cong refl)
    fix x assume "operation_of prog' rq s w = Inr x"
    then have "scheduler_callback_mutex (fst (snd x))"
      using operation_held(2) [OF Si_request(2), of prog' rq w "fst x" _ "snd (snd x)"] by simp
    from Si_request(1) [OF rangeI this]
    show "(case x of (b, s1, w1) \<Rightarrow> si_perform prog (c b) s1 w1) =
        (case x of (b, s1, w1) \<Rightarrow> si_perform prog' (c b) s1 w1)"
      by (simp add: case_prod_unfold)
  qed
  then show ?case using operation_held(1) [OF Si_request(2), of prog rq w prog'] by simp
qed (auto intro: bind_o_cong)

lemma si_client_held:
  "scheduler_callback_mutex s \<Longrightarrow> si_client (Suc n) actions f args (s, w) = si_client (Suc m) actions f args (s, w)"
  by (simp add: si_client.simps perform_held [of s "si_client n actions" _ w "si_client m actions"])

text \<open>One call on the stack is enough: no function the handler runs is ever run on top of another one,
  so every method has the same result however many more would fit.\<close>

theorem one_level_is_enough:
  "operation_of (si_client (Suc n) actions) c s w = operation_of (si_client (Suc m) actions) c s w"
proof (cases c)
  case (Signal_call sig)
  have run: "handler_run (si_client (Suc n) actions) h (s2, w) = handler_run (si_client (Suc m) actions) h (s2, w)"
    if "lock_callbacks s1 = Inr s2" for s1 s2 h
    using that by (intro handler_run_cong si_client_held) (auto simp: lock_callbacks_def split: if_splits)
  have "handlerUpdateAndRun (si_client (Suc n) actions) sig s w = handlerUpdateAndRun (si_client (Suc m) actions) sig s w"
    unfolding handlerUpdateAndRun_def Let_def
    by (auto simp: run cong: if_cong option.case_cong intro!: bind_o_cong split: prod.split option.split)
  with Signal_call show ?thesis by simp
qed simp_all

section \<open>Threads that wait for ever\<close>

text \<open>
  A program stalls if every way through it comes to the lock of the table before it has unlocked
  anything.
\<close>

inductive stalls :: "'s program \<Rightarrow> bool" where
  table: "stalls (Lock Callback_mutex p)"
| queue: "stalls p \<Longrightarrow> stalls (Lock m p)"
| atomic: "(\<And>M M' p. f M = Inr (M', p) \<Longrightarrow> stalls p) \<Longrightarrow> stalls (Atomic f)"

inductive_cases stalls_cases: "stalls (Lock m p)" "stalls (Atomic f)"

inductive_simps stalls_simps [simp]: "stalls (Return b)" "stalls (Unlock m p)"

lemma stalls_and_then: "stalls p \<Longrightarrow> stalls (and_then p k)"
proof (induction rule: stalls.induct)
  case (atomic f)
  then show ?case by (auto intro!: stalls.atomic simp: map_sum_Inr_iff)
qed (auto intro: stalls.intros)

lemma table_call_lock: "needs_table c \<Longrightarrow> \<exists>p. program_of body c = Lock Callback_mutex p"
  by (cases c) (simp_all add: register_program_def update_program_def remove_program_def clean_program_def)

lemma table_call_stalls: "needs_table c \<Longrightarrow> stalls (program_of body c)"
  using table_call_lock [of c body] by (auto intro: stalls.table)

lemma serve_stalls: "stalls (serve_program body i)"
  unfolding serve_program_def
  by (intro stalls.queue stalls.atomic) (auto simp: outcome_rules intro: stalls.table split: if_splits)

text \<open>Functions that call one of those methods before they return.\<close>

inductive calls_back :: "('f, 'v, 'w) si_action \<Rightarrow> bool" where
  request: "needs_table rq \<Longrightarrow> calls_back (Si_request rq c)"
| toggle: "(\<And>b. calls_back (c b)) \<Longrightarrow> calls_back (Si_request Toggle_call c)"
| act: "calls_back a \<Longrightarrow> calls_back (Si_act g a)"
| look: "(\<And>w. calls_back (c w)) \<Longrightarrow> calls_back (Si_look c)"

lemma calls_back_stalls: "calls_back a \<Longrightarrow> stalls (action_program body a)"
proof (induction rule: calls_back.induct)
  case (request rq c)
  from stalls_and_then [OF table_call_stalls [OF this]] show ?case by simp
next
  case (toggle c)
  then show ?case by (auto simp: toggle_program_def intro: stalls.atomic)
qed (auto simp: outcome_rules intro!: stalls.atomic)

text \<open>What any steps and any new calls of the threads can make of a state.\<close>

inductive evolves ::
  "('f, 'v, 'w) callback_programs \<Rightarrow> ('f, 'v, 'w) system \<Rightarrow> ('f, 'v, 'w) system \<Rightarrow> bool"
  for body S where
  start: "evolves body S S"
| call: "evolves body S S' \<Longrightarrow> idle t S' \<Longrightarrow> evolves body S (start_call body t c S')"
| step: "evolves body S S' \<Longrightarrow> thread_step t S' = Some (Inr S'') \<Longrightarrow> evolves body S S''"

definition stalled :: "nat \<Rightarrow> ('f, 'v, 'w) system \<Rightarrow> bool" where
  "stalled t S \<longleftrightarrow> owner S Callback_mutex = Some t \<and> stalls (code S t)"

lemma stalled_busy: "stalled t S \<Longrightarrow> \<not> idle t S"
  by (auto simp: stalled_def idle_iff)

text \<open>The threads keep what they hold, or wait for, while one of them is stalled.\<close>

lemma stalled_step:
  assumes "stalled t S" and "thread_step u S = Some (Inr S')"
  shows "stalled t S'" and "held t S \<subseteq> held t S'"
    and "code S v = Lock Callback_mutex p \<Longrightarrow> code S' v = Lock Callback_mutex p"
  using assms
  by (auto simp: stalled_def held_def thread_step_def outcome_rules elim!: stalls_cases
      split: program.splits if_splits)

lemma stalled_evolves:
  "evolves body S S' \<Longrightarrow> stalled t S \<Longrightarrow> stalled t S' \<and> held t S \<subseteq> held t S' \<and>
     (\<forall>u p. code S u = Lock Callback_mutex p \<longrightarrow> code S' u = Lock Callback_mutex p)"
proof (induction rule: evolves.induct)
  case (call S' u c)
  then have "u \<noteq> t" using stalled_busy by blast
  with call show ?case
    by (auto simp: start_call_def stalled_def held_def idle_def)
next
  case (step S' u S'')
  then have "stalled t S'" by blast
  note stalled_step [OF this step(2)]
  with step show ?case by blast
qed simp

section \<open>A function that calls back\<close>

text \<open>The signal handler on its way to the function.\<close>

lemma signal_reaches_callback:
  fixes S :: "('f, 'v, 'w) system"
  assumes "si_inv (sched (memory S))" and "scheduler_available_for_offload (sched (memory S))"
    and "i = signal_offset sig (sched (memory S))" and "queue_at i (sched (memory S)) \<noteq> []"
    and "last (queue_at i (sched (memory S))) = (k, b)"
    and "map_of (scheduler_callbacks (sched (memory S))) k = Some (slot, h)"
    and "handler_formatted_function h = Some (Bound (Some f) args)"
    and "owner S (Queue_mutex i) = None" and "owner S Callback_mutex = None"
  shows "run_schedule (replicate 5 t) (start_call body t (Signal_call sig) S) = Inr
    (S\<lparr>code := (code S)(t := and_then (body f args) (\<lambda>_. Unlock Callback_mutex (requeue_program i k))),
       owner := (owner S)(Queue_mutex i \<mapsto> t, Callback_mutex \<mapsto> t),
       memory := (memory S)\<lparr>sched := note_signal sig (sched (memory S))\<rparr>\<rparr>)"
proof -
  have i: "0 \<le> i" "i < 8" using signal_offset_range [OF assms(1)] assms(3) by simp_all
  then have exists: "mutex_exists (Queue_mutex i)" by (simp add: mutex_exists_def SIGNAL_COUNT_def)
  have len: "i < int (length (scheduler_signal_queues (sched (memory S))))"
    using assms(1) i by (simp add: si_inv_def SIGNAL_COUNT_def)
  have noted: "(sched (memory S))\<lparr>scheduler_signal_value_reverse_lookup :=
      scheduler_signal_value_reverse_lookup (note_signal sig (sched (memory S)))\<rparr> =
      note_signal sig (sched (memory S))"
    by (simp add: note_signal_def)
  have handler: "handler_program body h = Inr (body f args)"
    using assms(7) by (simp add: handler_program_def handler_run_def call_bound_def)
  note unfold = start_call_def thread_step_def signal_program_def serve_program_def call_program_def
    umap_subscript_offset Let_def exists [unfolded assms(3)] handler
  show ?thesis
    using assms(2-6,8,9) i len
    by (simp add: eval_nat_numeral unfold noted queue_at_def)
qed

text \<open>Claim C16.  A registered function that calls the scheduler back stops the program for good.  When a
  signal is served by a function that comes to register, update or remove anything, or to clean, its
  thread waits for ever for the mutex of the table, which it holds itself, and keeps it together
  with the one of the queue.  Every thread that makes such a call from then on waits for ever too,
  whatever the threads do and however many calls they start.\<close>

theorem calling_back_blocks_all:
  fixes actions :: "'f \<Rightarrow> 'v list \<Rightarrow> ('f, 'v, 'w) si_action"
  assumes "reachable (client_programs (Suc n) actions) S"
    and "scheduler_available_for_offload (sched (memory S))"
    and "i = signal_offset sig (sched (memory S))" and "queue_at i (sched (memory S)) \<noteq> []"
    and "last (queue_at i (sched (memory S))) = (k, b)"
    and "map_of (scheduler_callbacks (sched (memory S))) k = Some (slot, h)"
    and "handler_formatted_function h = Some (Bound (Some f) args)"
    and "calls_back (actions f args)"
    and "owner S (Queue_mutex i) = None" and "owner S Callback_mutex = None"
  shows "\<exists>S1. run_schedule (replicate 5 t)
      (start_call (client_programs (Suc n) actions) t (Signal_call sig) S) = Inr S1 \<and>
    (\<forall>S2. evolves (client_programs (Suc n) actions) S1 S2 \<longrightarrow>
      \<not> idle t S2 \<and> owner S2 Callback_mutex = Some t \<and> owner S2 (Queue_mutex i) = Some t \<and>
      (\<forall>u c S3. needs_table c \<longrightarrow> code S2 u = program_of (client_programs (Suc n) actions) c \<longrightarrow>
        evolves (client_programs (Suc n) actions) S2 S3 \<longrightarrow> \<not> idle u S3))"
proof -
  let ?body = "client_programs (Suc n) actions"
  have inv: "si_inv (sched (memory S))"
    using clients.reachable_inv [OF assms(1)] by (simp add: system_inv_def)
  let ?S1 = "S\<lparr>code := (code S)(t := and_then (?body f args)
      (\<lambda>_. Unlock Callback_mutex (requeue_program i k))),
    owner := (owner S)(Queue_mutex i \<mapsto> t, Callback_mutex \<mapsto> t),
    memory := (memory S)\<lparr>sched := note_signal sig (sched (memory S))\<rparr>\<rparr>"
  have stalled: "stalled t ?S1"
    using stalls_and_then [OF calls_back_stalls [OF assms(8)]]
    by (simp add: stalled_def client_programs.simps)
  have held: "{Queue_mutex i, Callback_mutex} \<subseteq> held t ?S1" by (simp add: held_def)
  have "\<not> idle t S2 \<and> owner S2 Callback_mutex = Some t \<and> owner S2 (Queue_mutex i) = Some t \<and>
      (\<forall>u c S3. needs_table c \<longrightarrow> code S2 u = program_of ?body c \<longrightarrow> evolves ?body S2 S3 \<longrightarrow> \<not> idle u S3)"
    if "evolves ?body ?S1 S2" for S2
  proof -
    note later = stalled_evolves [OF that stalled]
    have "\<not> idle u S3" if call: "needs_table c" "code S2 u = program_of ?body c" "evolves ?body S2 S3" for u c S3
    proof -
      obtain p where "code S2 u = Lock Callback_mutex p"
        using table_call_lock [OF call(1), of ?body] call(2) by auto
      with stalled_evolves [OF call(3)] later have "code S3 u = Lock Callback_mutex p" by blast
      then show ?thesis by (simp add: idle_def)
    qed
    moreover have "owner S2 Callback_mutex = Some t" "owner S2 (Queue_mutex i) = Some t"
      using later held by (auto simp: held_def)
    ultimately show ?thesis using later stalled_busy by blast
  qed
  with signal_reaches_callback [OF inv assms(2-7,9,10), of t ?body] show ?thesis by blast
qed

text \<open>A function that removes a registration, and a scheduler that serves a signal by it.\<close>

definition removing_actions :: "nat \<Rightarrow> nat list \<Rightarrow> (nat, nat, nat) si_action" where
  "removing_actions f args = Si_request (Remove_call 7) (\<lambda>_. Si_return)"

definition served_shared :: "(nat, nat, nat) shared" where
  "served_shared = fresh_shared\<lparr>sched := (sched fresh_shared)\<lparr>
     scheduler_callbacks := [(7, 5, setBoundOrFreeFunction (Some (Bound (Some 1) [])) (handler_new None))],
     scheduler_signal_queues := (scheduler_signal_queues (sched fresh_shared))[5 := [(7, True)]]\<rparr>\<rparr>"

lemma served_shared_inv: "si_inv (sched served_shared)"
  using fresh_shared_inv
  by (auto simp: si_inv_def served_shared_def split: if_splits)

lemma served_shared_offset: "signal_offset 15 (sched served_shared) = 5"
  by (simp add: signal_offset_def served_shared_def fresh_shared_def interrupt_initial_def debug_status.defs
      scheduler_interrupt.defs initial_reverse_lookup_def)

theorem calling_back_blocks_all_witness:
  "\<exists>S1. run_schedule [3, 3, 3, 3, 3]
      (start_call (client_programs 1 removing_actions) 3 (Signal_call 15) (quiet_system served_shared)) =
      Inr S1 \<and> owner S1 Callback_mutex = Some 3"
proof -
  have len: "5 < length (scheduler_signal_queues (sched fresh_shared))"
    using fresh_shared_inv by (simp add: si_inv_def SIGNAL_COUNT_def)
  let ?S = "quiet_system served_shared"
  have "reachable (client_programs (Suc 0) removing_actions) ?S"
    by (rule reachable.quiet [OF served_shared_inv])
  moreover have "scheduler_available_for_offload (sched (memory ?S))"
    by (simp add: quiet_system_def served_shared_def fresh_shared_def)
  moreover have "queue_at 5 (sched (memory ?S)) = [(7, True)]"
    using len by (simp add: quiet_system_def served_shared_def queue_at_def)
  moreover have "map_of (scheduler_callbacks (sched (memory ?S))) 7 =
      Some (5, setBoundOrFreeFunction (Some (Bound (Some 1) [])) (handler_new None))"
    by (simp add: quiet_system_def served_shared_def)
  moreover have "5 = signal_offset 15 (sched (memory ?S))"
    by (simp add: quiet_system_def served_shared_offset)
  moreover have "calls_back (removing_actions 1 [])"
    by (simp add: removing_actions_def calls_back.request)
  ultimately obtain S1 where "run_schedule (replicate 5 3)
      (start_call (client_programs (Suc 0) removing_actions) 3 (Signal_call 15) ?S) = Inr S1"
    "owner S1 Callback_mutex = Some 3"
    using calling_back_blocks_all [of 0 removing_actions ?S 5 15 7 True 5 _ 1 "[]" 3]
      evolves.start [of "client_programs (Suc 0) removing_actions"]
    by (auto simp: setBoundOrFreeFunction_def quiet_system_def)
  then show ?thesis by (simp add: eval_nat_numeral)
qed

text \<open>A function that raises a signal while handling is on has the same fate, or ends the program.\<close>

theorem raising_a_signal_blocks:
  assumes "owner S Callback_mutex = Some t" and "code S t = and_then (signal_program body sig) k"
    and "scheduler_available_for_offload (sched (memory S))"
  shows "\<exists>S1. thread_step t S = Some (Inr S1) \<and> stalled t S1"
  using assms stalls_and_then [OF serve_stalls]
  by (simp add: thread_step_def signal_program_def umap_subscript_offset Let_def stalled_def)

end
