(* ===== verification/Nfs_Filesystem.thy ===== *)
theory Nfs_Filesystem
  imports Nfs_Debug
begin

text \<open>
  \<open>LIBS/defs_filesystem.h\<close>: \<open>filesystem_head\<close>, the class that walks and changes the file system.

  The system calls it stores as \<open>function\<close> members are the record parameter \<open>posix\<close>: they act on
  a disk of the caller's choice (the file names, their resolution in the working directory, and
  whatever else the instance keeps).  A path reaches them as a C string, cut at its first NUL.
  \<open>stat\<close> either fails and leaves the buffer alone or stores the mode bits; the buffer is
  \<open>None\<close> until the first call that succeeds.
\<close>

unbundle bit_operations_syntax

section \<open>The system calls\<close>

record 'd posix =
  px_chdir :: "string \<Rightarrow> 'd \<Rightarrow> int \<times> 'd"
  px_stat :: "string \<Rightarrow> 'd \<Rightarrow> 32 word option"
  px_mkdir :: "string \<Rightarrow> 32 word \<Rightarrow> 'd \<Rightarrow> int \<times> 'd"
  px_rmdir :: "string \<Rightarrow> 'd \<Rightarrow> int \<times> 'd"
  px_unlink :: "string \<Rightarrow> 'd \<Rightarrow> int \<times> 'd"
  px_readdir :: "string \<Rightarrow> 'd \<Rightarrow> string list option"

definition c_path :: "string \<Rightarrow> string" where
  "c_path s = takeWhile (\<lambda>c. c \<noteq> nul) s"

definition S_IFMT :: "32 word" where
  "S_IFMT = 0xF000"

definition S_IFREG :: "32 word" where
  "S_IFREG = 0x8000"

definition S_IFDIR :: "32 word" where
  "S_IFDIR = 0x4000"

definition S_ISREG :: "32 word \<Rightarrow> bool" where
  "S_ISREG m \<longleftrightarrow> (m AND S_IFMT) = S_IFREG"

definition S_ISDIR :: "32 word \<Rightarrow> bool" where
  "S_ISDIR m \<longleftrightarrow> (m AND S_IFMT) = S_IFDIR"

text \<open>\<open>S_IRWXU | S_IRWXG | S_IROTH | S_IXOTH\<close>\<close>

definition DIRECTORY_RIGHTS :: "32 word" where
  "DIRECTORY_RIGHTS = 0x1C0 OR 0x38 OR 0x4 OR 0x1"

section \<open>State\<close>

datatype filesystem_error =
    Fs_cannot_change_directory
  | Fs_cannot_update_directory
  | Fs_cannot_open_directory
  | Fs_cannot_create_directory
  | Fs_cannot_remove_directory

primrec filesystem_error_code :: "filesystem_error \<Rightarrow> int" where
  "filesystem_error_code Fs_cannot_change_directory = 0"
| "filesystem_error_code Fs_cannot_update_directory = 1"
| "filesystem_error_code Fs_cannot_open_directory = 2"
| "filesystem_error_code Fs_cannot_create_directory = 3"
| "filesystem_error_code Fs_cannot_remove_directory = 4"

definition filesystem_local_errors :: "string list" where
  "filesystem_local_errors =
     [''Cannot change directory'', ''Cannot update directory'', ''Cannot open directory'',
      ''Cannot create directory'', ''Cannot create directory'']"

definition NODE_DELIMETER :: char where
  "NODE_DELIMETER = CHR ''/''"

record filesystem_head = debug_status +
  filesystem_directory_known :: bool
  filesystem_node_delimeter :: char
  filesystem_current_directory :: string
  filesystem_status_mode :: "32 word option"

definition FILESYSTEM_ERROR_COUNT :: int where
  "FILESYSTEM_ERROR_COUNT = 5"

definition fs_new :: "string \<Rightarrow> filesystem_head" where
  "fs_new set_current_directory = debug_status.extend
     (debug_status_new filesystem_local_errors (getMinClassError + FILESYSTEM_ERROR_COUNT - 1))
     (filesystem_head.fields (set_current_directory \<noteq> []) NODE_DELIMETER set_current_directory None)"

definition fs_report :: "filesystem_error \<Rightarrow> filesystem_head \<Rightarrow> filesystem_head outcome" where
  "fs_report e fs = setReturnCode (filesystem_error_code e) fs"

definition getDelimeter :: "filesystem_head \<Rightarrow> char" where
  "getDelimeter fs = filesystem_node_delimeter fs"

section \<open>Existence\<close>

definition fs_status :: "'d posix \<Rightarrow> string \<Rightarrow> 'd \<Rightarrow> filesystem_head \<Rightarrow> filesystem_head" where
  "fs_status px path d fs = (case px_stat px (c_path path) d of
     None \<Rightarrow> fs | Some m \<Rightarrow> fs\<lparr>filesystem_status_mode := Some m\<rparr>)"

definition fileExists ::
  "'d posix \<Rightarrow> string \<Rightarrow> 'd \<Rightarrow> filesystem_head \<Rightarrow> (bool \<times> filesystem_head) outcome" where
  "fileExists px file_path d fs =
     (let fs1 = fs_status px file_path d fs in
      bind_o (defined_o (filesystem_status_mode fs1)) (\<lambda>m. Inr (S_ISREG m, fs1)))"

definition directoryExists ::
  "'d posix \<Rightarrow> string \<Rightarrow> 'd \<Rightarrow> filesystem_head \<Rightarrow> (bool \<times> filesystem_head) outcome" where
  "directoryExists px directory_path d fs =
     (let fs1 = fs_status px directory_path d fs in
      bind_o (defined_o (filesystem_status_mode fs1)) (\<lambda>m. Inr (S_ISDIR m, fs1)))"

section \<open>Moving\<close>

text \<open>
  \<open>chdir\<close> is stored in a \<open>function<bool(char*)>\<close>, so its \<open>int\<close> result is converted to
  \<open>bool\<close>: it is true exactly when the call failed.
\<close>

definition fs_chdir :: "'d posix \<Rightarrow> string \<Rightarrow> 'd \<Rightarrow> bool \<times> 'd" where
  "fs_chdir px path d = (let (r, d') = px_chdir px (c_path path) d in (r \<noteq> 0, d'))"

definition fs_setRoot ::
  "'d posix \<Rightarrow> string \<Rightarrow> filesystem_head \<Rightarrow> 'd \<Rightarrow> bool \<times> filesystem_head \<times> 'd" where
  "fs_setRoot px root fs d =
     (let fs1 = fs\<lparr>filesystem_current_directory := root, filesystem_directory_known := True\<rparr> in
      if filesystem_current_directory fs1 \<noteq> [] \<and>
         last (filesystem_current_directory fs1) = filesystem_node_delimeter fs1
      then let fs2 = fs1\<lparr>filesystem_current_directory :=
                  butlast (filesystem_current_directory fs1)\<rparr>;
               (r, d') = fs_chdir px (filesystem_current_directory fs2) d
           in (r, fs2, d')
      else (False, fs1, d))"

definition fs_changeDirectory ::
  "'d posix \<Rightarrow> string \<Rightarrow> filesystem_head \<Rightarrow> 'd \<Rightarrow> (bool \<times> filesystem_head \<times> 'd) outcome" where
  "fs_changeDirectory px directory fs d =
     bind_o (assert_o (filesystem_directory_known fs)) (\<lambda>_.
     bind_o (back_o directory) (\<lambda>final.
     let complete_directory =
           filesystem_current_directory fs @ [filesystem_node_delimeter fs] @
           (if final \<noteq> filesystem_node_delimeter fs then directory else butlast directory);
         (result, d1) = fs_chdir px complete_directory d in
     if result then Inr (True, fs\<lparr>filesystem_current_directory := complete_directory\<rparr>, d1)
     else bind_o (fs_report Fs_cannot_change_directory fs) (\<lambda>fs1. Inr (False, fs1, d1))))"

text \<open>
  The loop of \<open>stepBackDirectory\<close>.  The last argument is \<open>string_index + 1\<close>; at 0 the unsigned
  index has wrapped around, the test \<open>string_index >= 0\<close> still holds and the access is outside
  the string.
\<close>

fun step_back_scan ::
  "char \<Rightarrow> string \<Rightarrow> int \<Rightarrow> int \<Rightarrow> nat \<Rightarrow> (int \<times> nat) outcome" where
  "step_back_scan node_delimeter str steps matched 0 =
     (if matched < steps then Inl Undefined_Behaviour else Inr (matched, 0))"
| "step_back_scan node_delimeter str steps matched (Suc k) =
     (if matched < steps
      then step_back_scan node_delimeter str steps
             (matched + of_bool (str ! k = node_delimeter)) k
      else Inr (matched, Suc k))"

definition fs_stepBackDirectory ::
  "'d posix \<Rightarrow> int \<Rightarrow> filesystem_head \<Rightarrow> 'd \<Rightarrow> (bool \<times> filesystem_head \<times> 'd) outcome" where
  "fs_stepBackDirectory px steps_backward fs d =
     bind_o (assert_o (filesystem_directory_known fs)) (\<lambda>_.
     let parent_directory = filesystem_current_directory fs in
     bind_o (step_back_scan (filesystem_node_delimeter fs) parent_directory steps_backward 0
               (length parent_directory)) (\<lambda>(matched_delimeters, n).
     if matched_delimeters = steps_backward then
       let parent = take n parent_directory in
       bind_o (fs_changeDirectory px parent fs d) (\<lambda>(result, fs1, d1).
         Inr (result, fs1\<lparr>filesystem_current_directory := parent\<rparr>, d1))
     else Inr (False, fs, d)))"

definition fs_stepForwardDirectory ::
  "'d posix \<Rightarrow> string \<Rightarrow> filesystem_head \<Rightarrow> 'd \<Rightarrow> (bool \<times> filesystem_head \<times> 'd) outcome" where
  "fs_stepForwardDirectory px target_node fs d =
     bind_o (assert_o (filesystem_directory_known fs)) (\<lambda>_.
       fs_changeDirectory px target_node fs d)"

definition manuallyRectifyDirectory :: "string \<Rightarrow> filesystem_head \<Rightarrow> filesystem_head" where
  "manuallyRectifyDirectory directory fs =
     fs\<lparr>filesystem_directory_known := True, filesystem_current_directory := directory\<rparr>"

section \<open>Listing\<close>

text \<open>The loop over \<open>readdir\<close>: an entry is kept when it is a directory or a regular file.\<close>

fun fs_list_entries ::
  "'d posix \<Rightarrow> string \<Rightarrow> string list \<Rightarrow> 'd \<Rightarrow> filesystem_head \<Rightarrow>
   ((string \<times> bool) list \<times> filesystem_head) outcome" where
  "fs_list_entries px current_directory [] d fs = Inr ([], fs)"
| "fs_list_entries px current_directory (name # names) d fs =
     (let target_node = current_directory @ name in
      bind_o (directoryExists px target_node d fs) (\<lambda>(is_dir, fs1).
      bind_o (if is_dir then Inr (False, fs1) else fileExists px target_node d fs1)
        (\<lambda>(type_is_file, fs2).
      bind_o (fs_list_entries px current_directory names d fs2) (\<lambda>(rest, fs3).
        Inr (if is_dir \<or> type_is_file then (name, type_is_file) # rest else rest, fs3)))))"

definition fs_listCurrentDirectory ::
  "'d posix \<Rightarrow> string \<Rightarrow> 'd \<Rightarrow> filesystem_head \<Rightarrow>
   ((string \<times> bool) list option \<times> filesystem_head) outcome" where
  "fs_listCurrentDirectory px directory d fs =
     bind_o (assert_o (filesystem_directory_known fs)) (\<lambda>_.
     let current_directory =
           (if directory = [] then ''.'' @ [filesystem_node_delimeter fs]
            else if last directory \<noteq> filesystem_node_delimeter fs
            then directory @ [filesystem_node_delimeter fs] else directory) in
     bind_o (case px_readdir px (c_path current_directory) d of
               Some names \<Rightarrow> fs_list_entries px current_directory names d fs
             | None \<Rightarrow> bind_o (fs_report Fs_cannot_open_directory fs) (\<lambda>fs1. Inr ([], fs1)))
       (\<lambda>(files_and_directories, fs2).
         Inr (if files_and_directories \<noteq> [] then Some files_and_directories else None, fs2)))"

section \<open>Directories and files\<close>

definition fs_makeDirectory ::
  "'d posix \<Rightarrow> string \<Rightarrow> filesystem_head \<Rightarrow> 'd \<Rightarrow> (bool \<times> filesystem_head \<times> 'd) outcome" where
  "fs_makeDirectory px directory fs d =
     bind_o (assert_o (filesystem_directory_known fs)) (\<lambda>_.
     let (r, d1) = px_mkdir px (c_path directory) DIRECTORY_RIGHTS d in
     if r = 0 then Inr (True, fs, d1)
     else bind_o (fs_report Fs_cannot_create_directory fs) (\<lambda>fs1. Inr (False, fs1, d1)))"

definition fs_removeDirectory ::
  "'d posix \<Rightarrow> string \<Rightarrow> filesystem_head \<Rightarrow> 'd \<Rightarrow> (bool \<times> filesystem_head \<times> 'd) outcome" where
  "fs_removeDirectory px directory fs d =
     bind_o (assert_o (filesystem_directory_known fs)) (\<lambda>_.
     let (r, d1) = px_rmdir px (c_path directory) d in
     if r = 0 then Inr (True, fs, d1)
     else bind_o (fs_report Fs_cannot_remove_directory fs) (\<lambda>fs1. Inr (False, fs1, d1)))"

text \<open>
  \<open>shared_ptr<char>\<close> content is an array or null (\<open>None\<close>).  The mode is computed as
  \<open>(file_mode_e)((int)in + (int)is_binary_file)\<close>.
\<close>

definition create_mode :: "bool \<Rightarrow> file_mode_e" where
  "create_mode is_binary_file = (if is_binary_file then Mode_binary else Mode_in)"

definition fs_createFile ::
  "string \<Rightarrow> cell list option \<Rightarrow> bool \<Rightarrow> int \<Rightarrow> filesystem_head \<Rightarrow> 'x disk_scheme \<Rightarrow>
   (bool \<times> 'x disk_scheme) outcome" where
  "fs_createFile name content is_binary_file sz fs d =
     bind_o (file_new name (create_mode is_binary_file) d) (\<lambda>(file_to_write, d1).
     bind_o (assert_o (filesystem_directory_known fs)) (\<lambda>_.
     bind_o (if sz = - 1
             then bind_o (defined_o content) (\<lambda>cs. bind_o (c_string cs) (\<lambda>s.
                    write_file cs (int (length s)) file_to_write d1))
             else write_file (case content of None \<Rightarrow> [] | Some cs \<Rightarrow> cs) sz file_to_write d1)
       (\<lambda>(file_to_write', d2). Inr (True, file_destroy file_to_write' d2))))"

definition fs_getFile ::
  "string \<Rightarrow> filesystem_head \<Rightarrow> 'x disk_scheme \<Rightarrow> (int \<times> cell list \<times> 'x disk_scheme) outcome" where
  "fs_getFile name fs d =
     (let complete_path =
            filesystem_current_directory fs @ [filesystem_node_delimeter fs] @ name in
      bind_o (file_new complete_path Mode_binary d) (\<lambda>(target_file, d1).
      bind_o (assert_o (filesystem_directory_known fs)) (\<lambda>_.
      bind_o (read_file_binary target_file d1) (\<lambda>(sz, data, target_file', d2).
        Inr (sz, data, file_destroy target_file' d2)))))"

definition fs_deleteFile ::
  "'d posix \<Rightarrow> string \<Rightarrow> filesystem_head \<Rightarrow> 'd \<Rightarrow> (bool \<times> 'd) outcome" where
  "fs_deleteFile px name fs d =
     bind_o (assert_o (filesystem_directory_known fs)) (\<lambda>_.
     let (r, d1) = px_unlink px (c_path name) d in Inr (r = 0, d1))"

section \<open>Reports\<close>

interpretation fs_errors: class_errors filesystem_error_code filesystem_local_errors
proof unfold_locales
  fix e
  show "0 \<le> filesystem_error_code e \<and>
      filesystem_error_code e < int (length filesystem_local_errors)"
    by (cases e) (simp_all add: filesystem_local_errors_def)
qed (simp add: filesystem_local_errors_def)

text \<open>
  Three of the five errors are refused by \<open>setReturnCode\<close>, so a failing \<open>opendir\<close>, \<open>mkdir\<close> or
  \<open>rmdir\<close> ends the program; the first one is stored under the text \<open>OK\<close>.
\<close>

lemma fs_report_simps [simp]:
  "fs_report Fs_cannot_change_directory fs =
     Inr (fs\<lparr>debug_class_return_code := Some 0, debug_class_status := ''OK''\<rparr>)"
  "fs_report Fs_cannot_open_directory fs = Inl Assertion_Failed"
  "fs_report Fs_cannot_create_directory fs = Inl Assertion_Failed"
  "fs_report Fs_cannot_remove_directory fs = Inl Assertion_Failed"
  using fs_errors.report_cases [of Fs_cannot_change_directory fs]
    fs_errors.report_cases [of Fs_cannot_open_directory fs]
    fs_errors.report_cases [of Fs_cannot_create_directory fs]
    fs_errors.report_cases [of Fs_cannot_remove_directory fs]
  by (simp_all add: fs_report_def)

section \<open>Moving: properties\<close>

text \<open>The path \<open>changeDirectory\<close> hands to the system.\<close>

definition change_target :: "filesystem_head \<Rightarrow> string \<Rightarrow> string" where
  "change_target fs directory = filesystem_current_directory fs @ filesystem_node_delimeter fs #
     (if last directory = filesystem_node_delimeter fs then butlast directory else directory)"

lemma fs_changeDirectory_eq:
  assumes "filesystem_directory_known fs" and "directory \<noteq> []"
    and "px_chdir px (c_path (change_target fs directory)) d = (r, d')"
  shows "fs_changeDirectory px directory fs d =
    (if r = 0
     then Inr (False, fs\<lparr>debug_class_return_code := Some 0, debug_class_status := ''OK''\<rparr>, d')
     else Inr (True, fs\<lparr>filesystem_current_directory := change_target fs directory\<rparr>, d'))"
  using assms by (cases "last directory = filesystem_node_delimeter fs")
    (simp_all add: fs_changeDirectory_def fs_chdir_def change_target_def)

lemma fs_changeDirectory_empty:
  "filesystem_directory_known fs \<Longrightarrow> fs_changeDirectory px [] fs d = Inl Undefined_Behaviour"
  by (simp add: fs_changeDirectory_def)

text \<open>Claim C14.  The result of \<open>changeDirectory\<close> is inverted.  It asks the system for
  \<open>current/directory\<close>, without a final delimiter.  When the system moves the process there, the
  call returns false, reports code 0 under the text \<open>OK\<close> and keeps the head's directory, so head
  and process disagree; when the system refuses, it returns true and the head claims to be in the
  directory.\<close>

theorem changeDirectory_result_inverted:
  assumes "filesystem_directory_known fs" and "directory \<noteq> []"
    and "px_chdir px (c_path (change_target fs directory)) d = (r, d')"
  shows "\<exists>fs'. fs_changeDirectory px directory fs d = Inr (r \<noteq> 0, fs', d') \<and>
    filesystem_current_directory fs' =
      (if r = 0 then filesystem_current_directory fs else change_target fs directory) \<and>
    (r = 0 \<longrightarrow> debug_class_return_code fs' = Some 0 \<and> debug_class_status fs' = ''OK'')"
  using fs_changeDirectory_eq [OF assms] by auto

text \<open>A system with one directory \<open>/srv/data\<close>, holding one file.\<close>

definition small_system :: "disk posix" where
  "small_system = \<lparr>
     px_chdir = (\<lambda>p d. (if p = ''/srv/data'' then 0 else - 1, d)),
     px_stat = (\<lambda>p d. if p = ''/srv/data'' \<or> p = ''./.'' then Some 0x41ED
                      else if p = ''./a'' then Some 0x81A4 else None),
     px_mkdir = (\<lambda>p m d. (- 1, d)), px_rmdir = (\<lambda>p d. (- 1, d)),
     px_unlink = (\<lambda>p d. (- 1, d)),
     px_readdir = (\<lambda>p d. if p = ''./'' then Some [''.'', ''a''] else None)\<rparr>"

definition system_disk :: disk where
  "system_disk = \<lparr>dk_files = [''/srv/a'' \<mapsto> ''data''], dk_resolve = (\<lambda>n. n),
     dk_denied = (\<lambda>_. False), dk_spills = (\<lambda>waiting new. 8191 \<le> waiting + new)\<rparr>"

lemma fs_new_simps [simp]:
  "filesystem_directory_known (fs_new dir) \<longleftrightarrow> dir \<noteq> []"
  "filesystem_node_delimeter (fs_new dir) = CHR ''/''"
  "filesystem_current_directory (fs_new dir) = dir"
  by (simp_all add: fs_new_def debug_status.defs filesystem_head.defs NODE_DELIMETER_def)

theorem changeDirectory_result_inverted_witness:
  "\<exists>fs'. fs_changeDirectory small_system ''data/'' (fs_new ''/srv'') system_disk =
      Inr (False, fs', system_disk) \<and> filesystem_current_directory fs' = ''/srv''"
  using changeDirectory_result_inverted [of "fs_new ''/srv''" "''data/''" small_system system_disk
      0 system_disk]
  by (auto simp: change_target_def c_path_def nul_def small_system_def)

subsection \<open>Stepping back\<close>

lemma step_back_scan_done:
  "steps \<le> matched \<Longrightarrow> step_back_scan c str steps matched k = Inr (matched, k)"
  by (cases k) simp_all

lemma step_back_scan_plain:
  "matched < steps \<Longrightarrow> c \<notin> set leaf \<Longrightarrow>
   step_back_scan c (pre @ leaf @ post) steps matched (length pre + length leaf) =
     step_back_scan c (pre @ leaf @ post) steps matched (length pre)"
proof (induction leaf arbitrary: post rule: rev_induct)
  case (snoc x leaf)
  then have "x \<noteq> c" by auto
  with snoc.prems have "step_back_scan c (pre @ (leaf @ [x]) @ post) steps matched
      (length pre + length (leaf @ [x])) =
      step_back_scan c (pre @ leaf @ [x] @ post) steps matched (length pre + length leaf)"
    by (simp add: nth_append)
  with snoc show ?case by simp
qed simp

definition node_path :: "char \<Rightarrow> string \<Rightarrow> string list \<Rightarrow> string" where
  "node_path c root leaves = root @ concat (map (\<lambda>leaf. c # leaf) leaves)"

text \<open>Scanning back over as many delimiters as the path has leaves ends at its root.\<close>

lemma step_back_scan_leaves:
  "\<forall>leaf \<in> set leaves. c \<notin> set leaf \<Longrightarrow> steps = matched + int (length leaves) \<Longrightarrow>
   step_back_scan c (node_path c root leaves @ post) steps matched
     (length (node_path c root leaves)) = Inr (steps, length root)"
proof (induction leaves arbitrary: matched post rule: rev_induct)
  case Nil
  then show ?case by (simp add: node_path_def step_back_scan_done)
next
  case (snoc leaf leaves)
  let ?p = "node_path c root leaves"
  have split: "node_path c root (leaves @ [leaf]) = (?p @ [c]) @ leaf"
    by (simp add: node_path_def)
  have "step_back_scan c ((?p @ [c]) @ leaf @ post) steps matched
      (length (?p @ [c]) + length leaf) =
      step_back_scan c ((?p @ [c]) @ leaf @ post) steps matched (length (?p @ [c]))"
    using snoc.prems by (intro step_back_scan_plain) auto
  also have "\<dots> = step_back_scan c (?p @ (c # leaf @ post)) steps (matched + 1) (length ?p)"
    using snoc.prems by (simp add: nth_append)
  also have "\<dots> = Inr (steps, length root)"
    using snoc.prems by (intro snoc.IH) auto
  finally show ?case
    by (simp add: split)
qed

text \<open>Stepping back \<open>n\<close> nodes from \<open>parent/l1/.../ln\<close>: the head asks the system to
  change to \<open>parent/l1/.../ln/parent\<close>, since \<open>changeDirectory\<close> prepends the current directory,
  records \<open>parent\<close> as its directory whether or not that succeeded, and returns true exactly when
  the system refused.  From a path whose \<open>n\<close> nodes start at an empty parent (\<open>/l1/.../ln\<close>) the
  call is undefined.\<close>

theorem stepBack_targets_child:
  assumes "filesystem_directory_known fs" and "filesystem_node_delimeter fs = c"
    and "filesystem_current_directory fs = node_path c parent leaves"
    and "\<forall>leaf \<in> set leaves. c \<notin> set leaf"
    and "px_chdir px (c_path (change_target fs parent)) d = (r, d')"
  shows "if parent = []
    then fs_stepBackDirectory px (int (length leaves)) fs d = Inl Undefined_Behaviour
    else \<exists>fs'. fs_stepBackDirectory px (int (length leaves)) fs d = Inr (r \<noteq> 0, fs', d') \<and>
      filesystem_current_directory fs' = parent"
proof -
  have scan: "step_back_scan c (node_path c parent leaves) (int (length leaves)) 0
      (length (node_path c parent leaves)) = Inr (int (length leaves), length parent)"
    using step_back_scan_leaves [of leaves c "int (length leaves)" 0 parent "[]"] assms(4) by simp
  have take: "take (length parent) (node_path c parent leaves) = parent"
    by (simp add: node_path_def)
  have step: "fs_stepBackDirectory px (int (length leaves)) fs d =
      bind_o (fs_changeDirectory px parent fs d) (\<lambda>(result, fs1, d1).
        Inr (result, fs1\<lparr>filesystem_current_directory := parent\<rparr>, d1))"
    using assms(1-3) scan take by (simp add: fs_stepBackDirectory_def Let_def)
  show ?thesis
  proof (cases "parent = []")
    case True
    with step fs_changeDirectory_empty [OF assms(1), of px d] show ?thesis by simp
  next
    case False
    with step fs_changeDirectory_eq [OF assms(1) False assms(5)] show ?thesis by auto
  qed
qed

theorem stepBack_targets_child_witness:
  "\<exists>fs'. fs_stepBackDirectory small_system 1 (fs_new ''/srv/data'') system_disk =
      Inr (True, fs', system_disk) \<and> filesystem_current_directory fs' = ''/srv''"
  using stepBack_targets_child [of "fs_new ''/srv/data''" "CHR ''/''" "''/srv''" "[''data'']"
      small_system system_disk "- 1" system_disk]
  by (auto simp: change_target_def c_path_def nul_def small_system_def node_path_def)

section \<open>Listing: properties\<close>

lemma S_ISDIR_not_REG: "S_ISDIR m \<Longrightarrow> \<not> S_ISREG m"
  by (auto simp: S_ISDIR_def S_ISREG_def S_IFREG_def S_IFDIR_def)

definition directory_prefix :: "filesystem_head \<Rightarrow> string \<Rightarrow> string" where
  "directory_prefix fs directory =
     (if directory = [] then ''.'' @ [filesystem_node_delimeter fs]
      else if last directory \<noteq> filesystem_node_delimeter fs
      then directory @ [filesystem_node_delimeter fs] else directory)"

text \<open>
  The entries a listing should hold: each name with the mode bits it is judged by.  \<open>stat\<close> fills the
  one status buffer of the head, and leaves it as it is when it fails, so a name is judged by the
  latest call that succeeded, which may have been for another name, or before the listing.
\<close>

definition listing_of :: "(string \<times> 32 word) list \<Rightarrow> (string \<times> bool) list" where
  "listing_of xs = map (\<lambda>(n, m). (n, S_ISREG m)) (filter (\<lambda>(n, m). S_ISDIR m \<or> S_ISREG m) xs)"

definition latest :: "'a option list \<Rightarrow> 'a option" where
  "latest ms = (let known = filter (\<lambda>m. m \<noteq> None) ms in if known = [] then None else last known)"

definition judged_by ::
  "(string \<Rightarrow> 32 word option) \<Rightarrow> 32 word option \<Rightarrow> string list \<Rightarrow> 32 word option list" where
  "judged_by status before names =
     map (\<lambda>i. latest (before # map status (take (Suc i) names))) [0..<length names]"

lemma latest_simps [simp]:
  "latest [m] = m" "latest (m # Some k # ms) = latest (Some k # ms)"
  "latest (m # None # ms) = latest (m # ms)"
  by (auto simp: latest_def Let_def)

lemma judged_by_Cons:
  "judged_by status before (n # names) =
     (let m = (case status n of None \<Rightarrow> before | Some k \<Rightarrow> Some k) in
      m # judged_by status m names)"
proof -
  have "latest (before # status n # ms) =
      latest ((case status n of None \<Rightarrow> before | Some k \<Rightarrow> Some k) # ms)" for ms
    by (cases "status n") simp_all
  from this [of "[]"] this show ?thesis
    by (simp add: judged_by_def Let_def upt_conv_Cons map_Suc_upt [symmetric]
        del: upt_Suc map_Suc_upt latest_simps(2,3))
qed

lemma judged_by_known:
  "None \<notin> set (judged_by status (Some k) names)"
proof (induction names arbitrary: k)
  case (Cons n names)
  then show ?case by (cases "status n") (simp_all add: judged_by_Cons Let_def)
qed (simp add: judged_by_def)

text \<open>A name is judged twice by the same bits, for being a directory and for being a file.\<close>

lemma exists_judged:
  assumes "(case px_stat px (c_path path) d of None \<Rightarrow> filesystem_status_mode fs | Some k \<Rightarrow> Some k) = Some m"
  shows "directoryExists px path d fs = Inr (S_ISDIR m, fs\<lparr>filesystem_status_mode := Some m\<rparr>)"
    and "fileExists px path d fs = Inr (S_ISREG m, fs\<lparr>filesystem_status_mode := Some m\<rparr>)"
proof -
  have "fs_status px path d fs = fs\<lparr>filesystem_status_mode := Some m\<rparr>"
    using assms by (cases "px_stat px (c_path path) d") (auto simp: fs_status_def)
  then show "directoryExists px path d fs = Inr (S_ISDIR m, fs\<lparr>filesystem_status_mode := Some m\<rparr>)"
    and "fileExists px path d fs = Inr (S_ISREG m, fs\<lparr>filesystem_status_mode := Some m\<rparr>)"
    by (simp_all add: directoryExists_def fileExists_def)
qed

lemma fs_list_entries_judged:
  assumes "modes = judged_by (\<lambda>n. px_stat px (c_path (pre @ n)) d) (filesystem_status_mode fs) names"
  shows "fs_list_entries px pre names d fs = (if None \<in> set modes then Inl Undefined_Behaviour
    else Inr (listing_of (zip names (map the modes)),
      fs\<lparr>filesystem_status_mode := last (filesystem_status_mode fs # modes)\<rparr>))"
  using assms
proof (induction names arbitrary: fs modes)
  case Nil
  then show ?case by (simp add: judged_by_def listing_of_def)
next
  case (Cons n names)
  let ?status = "\<lambda>n. px_stat px (c_path (pre @ n)) d"
  let ?m = "case ?status n of None \<Rightarrow> filesystem_status_mode fs | Some k \<Rightarrow> Some k"
  have modes: "modes = ?m # judged_by ?status ?m names"
    using Cons.prems by (simp add: judged_by_Cons Let_def)
  show ?case
  proof (cases ?m)
    case None
    then have "px_stat px (c_path (pre @ n)) d = None" "filesystem_status_mode fs = None"
      by (auto split: option.splits)
    then have "directoryExists px (pre @ n) d fs = Inl Undefined_Behaviour"
      by (simp add: directoryExists_def fs_status_def)
    with None modes show ?thesis by simp
  next
    case (Some m)
    let ?fs = "fs\<lparr>filesystem_status_mode := Some m\<rparr>"
    have again: "(case ?status n of None \<Rightarrow> filesystem_status_mode ?fs | Some k \<Rightarrow> Some k) = Some m"
      using Some by (auto split: option.splits)
    have tail: "modes = Some m # judged_by ?status (Some m) names"
      using modes Some by simp
    from Cons.IH [of "judged_by ?status (Some m) names" ?fs]
    have "fs_list_entries px pre names d ?fs =
        Inr (listing_of (zip names (map the (judged_by ?status (Some m) names))),
          fs\<lparr>filesystem_status_mode := last (Some m # judged_by ?status (Some m) names)\<rparr>)"
      by (simp add: judged_by_known)
    with exists_judged [OF Some] exists_judged [OF again] S_ISDIR_not_REG [of m] tail
    show ?thesis
      by (auto simp: listing_of_def Let_def judged_by_known)
  qed
qed

text \<open>Claim C39.  What a listing holds, in every case.  Without a known directory, or when the
  directory cannot be opened, the call aborts.  Otherwise the list has, in the order of \<open>readdir\<close>,
  the names that are judged to be directories or regular files, flagged \<open>true\<close> for files, and it is
  null when there is none.  A name is judged by its own \<open>stat\<close> if that succeeds; a name whose \<open>stat\<close>
  fails, such as a dangling link, is judged by the latest one that succeeded, and the call is
  undefined when there has been none.  The head itself only keeps the last status.\<close>

theorem listing_is_exact:
  "fs_listCurrentDirectory px directory d fs =
    (if \<not> filesystem_directory_known fs then Inl Assertion_Failed
     else case px_readdir px (c_path (directory_prefix fs directory)) d of
       None \<Rightarrow> Inl Assertion_Failed
     | Some names \<Rightarrow>
         (let modes = judged_by (\<lambda>n. px_stat px (c_path (directory_prefix fs directory @ n)) d)
                (filesystem_status_mode fs) names;
              entries = listing_of (zip names (map the modes)) in
          if None \<in> set modes then Inl Undefined_Behaviour
          else Inr (if entries = [] then None else Some entries,
            fs\<lparr>filesystem_status_mode := last (filesystem_status_mode fs # modes)\<rparr>)))"
  by (simp add: fs_listCurrentDirectory_def directory_prefix_def fs_list_entries_judged [OF refl]
      Let_def split: option.split)

text \<open>A link that leads nowhere takes the kind of the entry before it, and is undefined as the first.\<close>

lemma dangling_link_misjudged:
  assumes "px_stat px (c_path (pre @ ''link'')) d = None"
    and "px_stat px (c_path (pre @ ''a'')) d = Some 0x81A4"
  shows "fs_list_entries px pre [''a'', ''link''] d fs =
      Inr ([(''a'', True), (''link'', True)], fs\<lparr>filesystem_status_mode := Some 0x81A4\<rparr>)"
    and "filesystem_status_mode fs = None \<Longrightarrow>
      fs_list_entries px pre [''link'', ''a''] d fs = Inl Undefined_Behaviour"
  using assms by (simp_all add: fs_list_entries_judged [OF refl] judged_by_Cons judged_by_def
      listing_of_def S_ISDIR_def S_ISREG_def S_IFMT_def S_IFREG_def S_IFDIR_def)

section \<open>Files: properties\<close>

text \<open>\<open>createFile\<close> always succeeds and never writes.  It opens the file in one of the
  two reading modes, so for every name, content and size it returns true and leaves the disk as
  it was: no file is created and no content changes.\<close>

theorem createFile_never_writes:
  assumes "filesystem_directory_known fs" and "name \<noteq> []"
    and "sz = - 1 \<and> content = Some cs \<and> c_string cs = Inr s \<or> 0 \<le> sz"
  shows "fs_createFile name content is_binary sz fs d = Inr (True, d)"
proof -
  have "\<exists>st. fstream_open (mode_flags (create_mode is_binary)) name d fstream_new = (st, d) \<and>
      (str_failed st \<and> str_handle st = None \<or>
       (\<exists>h. str_handle st = Some h \<and> \<not> sh_writable h \<and> sh_pending h = []))"
    by (cases is_binary) (auto simp: create_mode_def fstream_open_def fstream_new_def Let_def
        split: option.split)
  then obtain st where st: "fstream_open (mode_flags (create_mode is_binary)) name d fstream_new =
      (st, d)" "str_failed st \<and> str_handle st = None \<or>
        (\<exists>h. str_handle st = Some h \<and> \<not> sh_writable h \<and> sh_pending h = [])"
    by blast
  obtain fd where fd: "file_new name (create_mode is_binary) d = Inr (fd, d)" "file_instance fd = st"
    using assms(2) st(1) by (simp add: file_new_def getFileDescriptor_def)
  have "\<exists>fd'. write_file cs' n fd d = Inr (fd', d) \<and> file_destroy fd' d = d" if "0 \<le> n" for cs' n
    using that st(2) fd(2) by (auto simp: write_file_def fstream_write_def file_destroy_def
        fstream_close_def split: option.split)
  note writes = this
  from assms(3) show ?thesis
  proof
    assume c: "sz = - 1 \<and> content = Some cs \<and> c_string cs = Inr s"
    obtain fd' where "write_file cs (int (length s)) fd d = Inr (fd', d)" "file_destroy fd' d = d"
      using writes [of "int (length s)" cs] by auto
    with c fd(1) assms(1) show ?thesis by (simp add: fs_createFile_def)
  next
    assume "0 \<le> sz"
    with writes [OF this, of "case content of None \<Rightarrow> [] | Some cs \<Rightarrow> cs"] fd(1) assms(1)
    show ?thesis by (auto simp: fs_createFile_def)
  qed
qed

theorem createFile_never_writes_witness:
  "fs_createFile ''/srv/new'' (Some (c_str ''text'')) False (- 1) (fs_new ''/srv'') system_disk =
    Inr (True, system_disk)"
  by (rule createFile_never_writes [of _ _ _ _ "c_str ''text''" "''text''"])
    (simp_all add: nul_def)

text \<open>\<open>getFile\<close> returns exactly the bytes of \<open>current/name\<close> when the system can open it
  (sizes from \<open>2 ^ 31\<close> on are excluded by the code's \<open>(int)\<close> cast); when the file does not
  exist, or may not be opened, it asks for an array of -1 characters and throws.\<close>

theorem getFile_reads_or_throws:
  assumes "filesystem_directory_known fs"
    and "p = dk_resolve d (filesystem_current_directory fs @ filesystem_node_delimeter fs # name)"
    and "\<forall>c. dk_files d p = Some c \<longrightarrow> int (length c) < 2 ^ 31"
  shows "fs_getFile name fs d =
    (case dk_files d p of
       Some c \<Rightarrow> if dk_denied d p then Inl Bad_Array_Length
                 else Inr (int (length c), map Some c, d)
     | None \<Rightarrow> Inl Bad_Array_Length)"
proof -
  let ?path = "filesystem_current_directory fs @ filesystem_node_delimeter fs # name"
  show ?thesis
  proof (cases "dk_denied d p \<or> dk_files d p = None")
    case True
    then have "fstream_open [Ios_in, Ios_binary] ?path d fstream_new =
        (fstream_new\<lparr>str_failed := True\<rparr>, d)"
      using assms(2) by (auto simp: fstream_open_def Let_def)
    then obtain fd where fd: "file_new ?path Mode_binary d = Inr (fd, d)" "\<not> is_write fd"
      "str_failed (file_instance fd)"
      by (simp add: file_new_def getFileDescriptor_def)
    with True read_file_binary_failed [OF fd(2,3), of d] assms(1) show ?thesis
      by (auto simp: fs_getFile_def split: option.split)
  next
    case False
    then obtain c where c: "dk_files d p = Some c" "\<not> dk_denied d p" by auto
    obtain fd where fd: "file_new ?path Mode_binary d = Inr (fd, d)" "\<not> is_write fd"
      "file_instance fd = \<lparr>str_handle = Some \<lparr>sh_path = p, sh_readable = True,
        sh_writable = False, sh_append = False, sh_pos = 0, sh_pending = []\<rparr>, str_failed = False\<rparr>"
      using file_new_binary [of ?path d c] c assms(2) by auto
    obtain fd' where "read_file_binary fd d = Inr (int (length c), map Some c, fd', d)"
      "file_destroy fd' d = d"
      using read_file_binary_content [OF fd(2), of _ d c] fd(3) c(1) assms(3) by auto
    with fd(1) c assms(1) show ?thesis
      by (simp add: fs_getFile_def)
  qed
qed

theorem getFile_reads_or_throws_witness:
  "fs_getFile ''a'' (fs_new ''/srv'') system_disk = Inr (4, map Some ''data'', system_disk) \<and>
   fs_getFile ''b'' (fs_new ''/srv'') system_disk = Inl Bad_Array_Length"
  using getFile_reads_or_throws [of "fs_new ''/srv''" "''/srv/a''" system_disk "''a''"]
    getFile_reads_or_throws [of "fs_new ''/srv''" "''/srv/b''" system_disk "''b''"]
  by (simp add: system_disk_def)

end
