(* ===== verification/Nfs_Tree.thy ===== *)
theory Nfs_Tree
  imports Nfs_Prelude
begin

text \<open>
  \<open>LIBS/defs_internal.h\<close>, \<open>internal_unbalanced_tree\<close>: a tree of nodes with a cursor.

  A node owns the vector of its children; the tree owns its head.  A pointer to a node is its
  address in that ownership: \<open>At p\<close> follows the child indices \<open>p\<close> from the head, \<open>At []\<close> being
  the head itself.  \<open>Dangling\<close> is the address of an object that no longer lives.  A node's data
  extends \<open>internal_unbalanced_tree_node_parent\<close>; a \<open>bool\<close> member is \<open>None\<close> until it is set.
\<close>

section \<open>State\<close>

record internal_unbalanced_tree_node_parent =
  is_directory :: "bool option"
  node_name :: string

datatype node_pointer = Null | At "nat list" | Dangling

datatype 'd tree_node =
  Node (node_parent: node_pointer) (node_children: "'d tree_node list") (node_element: 'd)

record 'd internal_unbalanced_tree =
  internal_head :: "'d tree_node"
  internal_heap_pointer :: node_pointer
  internal_bfs_stack :: "node_pointer list"

text \<open>The constructor of a node sets only the parent.\<close>

definition node_new :: "'d \<Rightarrow> 'd tree_node" where
  "node_new element = Node Null [] element"

definition tree_new :: "'d \<Rightarrow> 'd internal_unbalanced_tree" where
  "tree_new element = \<lparr>internal_head = node_new element, internal_heap_pointer = At [],
     internal_bfs_stack = []\<rparr>"

section \<open>Access through a pointer\<close>

fun node_at :: "nat list \<Rightarrow> 'd tree_node \<Rightarrow> 'd tree_node option" where
  "node_at [] n = Some n"
| "node_at (i # p) (Node par cs e) = (if i < length cs then node_at p (cs ! i) else None)"

fun update_node :: "nat list \<Rightarrow> ('d tree_node \<Rightarrow> 'd tree_node) \<Rightarrow> 'd tree_node \<Rightarrow> 'd tree_node" where
  "update_node [] f n = f n"
| "update_node (i # p) f (Node par cs e) =
     (if i < length cs then Node par (cs[i := update_node p f (cs ! i)]) e else Node par cs e)"

definition deref :: "'d internal_unbalanced_tree \<Rightarrow> node_pointer \<Rightarrow> 'd tree_node outcome" where
  "deref t ptr = (case ptr of At p \<Rightarrow> defined_o (node_at p (internal_head t))
     | _ \<Rightarrow> Inl Undefined_Behaviour)"

definition set_children ::
  "'d tree_node list \<Rightarrow> 'd tree_node \<Rightarrow> 'd tree_node" where
  "set_children cs n = Node (node_parent n) cs (node_element n)"

definition write_children ::
  "node_pointer \<Rightarrow> 'd tree_node list \<Rightarrow> 'd internal_unbalanced_tree \<Rightarrow>
   'd internal_unbalanced_tree outcome" where
  "write_children ptr cs t = (case ptr of
     At p \<Rightarrow> if node_at p (internal_head t) = None then Inl Undefined_Behaviour
            else Inr (t\<lparr>internal_head := update_node p (set_children cs) (internal_head t)\<rparr>)
   | _ \<Rightarrow> Inl Undefined_Behaviour)"

text \<open>The position of the first child with a name.\<close>

definition find_child ::
  "string \<Rightarrow> 'z internal_unbalanced_tree_node_parent_scheme tree_node list \<Rightarrow> nat option" where
  "find_child nm cs = find_pos (\<lambda>child. node_name (node_element child) = nm) cs"

section \<open>Operations\<close>

text \<open>
  The breadth first loops push the address of the loop variable, a copy of the child that dies at
  the end of its iteration.
\<close>

definition push_loop_copies :: "'d tree_node list \<Rightarrow> node_pointer list \<Rightarrow> node_pointer list" where
  "push_loop_copies cs stk = map (\<lambda>_. Dangling) cs @ stk"

definition bfsStep ::
  "'d internal_unbalanced_tree \<Rightarrow> (node_pointer \<times> 'd internal_unbalanced_tree) outcome" where
  "bfsStep t = (case internal_bfs_stack t of
     get_top # stk \<Rightarrow>
       bind_o (deref t get_top) (\<lambda>n.
         Inr (get_top, t\<lparr>internal_bfs_stack :=
           (if node_children n \<noteq> [] then push_loop_copies (node_children n) stk else stk)\<rparr>))
   | [] \<Rightarrow>
       bind_o (deref t (internal_heap_pointer t)) (\<lambda>n.
         Inr (internal_heap_pointer t,
              t\<lparr>internal_bfs_stack := push_loop_copies (node_children n) []\<rparr>)))"

definition bfsClear :: "'d internal_unbalanced_tree \<Rightarrow> 'd internal_unbalanced_tree" where
  "bfsClear t = t\<lparr>internal_bfs_stack := pop_front_all (internal_bfs_stack t)\<rparr>"

definition addNode ::
  "'d tree_node \<Rightarrow> 'd internal_unbalanced_tree \<Rightarrow> (bool \<times> 'd internal_unbalanced_tree) outcome" where
  "addNode child t =
     bind_o (deref t (internal_heap_pointer t)) (\<lambda>n.
     bind_o (write_children (internal_heap_pointer t) (node_children n @ [child]) t) (\<lambda>t1.
       Inr (True, t1)))"

definition removeNode ::
  "string \<Rightarrow> 'z internal_unbalanced_tree_node_parent_scheme internal_unbalanced_tree \<Rightarrow>
   (bool \<times> 'z internal_unbalanced_tree_node_parent_scheme internal_unbalanced_tree) outcome" where
  "removeNode nm t =
     bind_o (deref t (internal_heap_pointer t)) (\<lambda>n.
     if nm \<noteq> [] then
       (let get_iterator = find_child nm (node_children n) in
        if get_iterator \<noteq> None then
          bind_o (erase_at get_iterator (node_children n)) (\<lambda>cs.
          bind_o (write_children (internal_heap_pointer t) cs t) (\<lambda>t1. Inr (True, t1)))
        else Inr (False, t))
     else
       bind_o (if node_children n \<noteq> [] then write_children (internal_heap_pointer t) [] t
               else Inr t) (\<lambda>t1.
       if internal_heap_pointer t1 \<noteq> At [] then
         (let get_pointer = internal_heap_pointer t1 in
          bind_o (deref t1 get_pointer) (\<lambda>me.
          let t2 = t1\<lparr>internal_heap_pointer := node_parent me\<rparr> in
          bind_o (deref t2 (internal_heap_pointer t2)) (\<lambda>up.
          bind_o (erase_at (find_child (node_name (node_element me)) (node_children up))
                    (node_children up)) (\<lambda>cs.
          bind_o (write_children (internal_heap_pointer t2) cs t2) (\<lambda>t3. Inr (True, t3))))))
       else Inr (True, t1)))"

definition getNode ::
  "string \<Rightarrow> 'z internal_unbalanced_tree_node_parent_scheme internal_unbalanced_tree \<Rightarrow>
   'z internal_unbalanced_tree_node_parent_scheme option outcome" where
  "getNode nm t =
     bind_o (deref t (internal_heap_pointer t)) (\<lambda>n.
     if nm = [] then Inr (Some (node_element n))
     else case find_child nm (node_children n) of
         None \<Rightarrow> Inr None
       | Some i \<Rightarrow> Inr (Some (node_element (node_children n ! i))))"

definition moveUp :: "'d internal_unbalanced_tree \<Rightarrow> (bool \<times> 'd internal_unbalanced_tree) outcome" where
  "moveUp t =
     bind_o (deref t (internal_heap_pointer t)) (\<lambda>n.
       if node_parent n \<noteq> Null
       then Inr (True, t\<lparr>internal_heap_pointer := node_parent n\<rparr>) else Inr (False, t))"

text \<open>The address of child \<open>i\<close> of the node a pointer leads to.\<close>

definition child_address :: "node_pointer \<Rightarrow> nat \<Rightarrow> node_pointer" where
  "child_address ptr i = (case ptr of At p \<Rightarrow> At (p @ [i]) | _ \<Rightarrow> Dangling)"

definition moveDown ::
  "string \<Rightarrow> 'z internal_unbalanced_tree_node_parent_scheme internal_unbalanced_tree \<Rightarrow>
   (bool \<times> 'z internal_unbalanced_tree_node_parent_scheme internal_unbalanced_tree) outcome" where
  "moveDown nm t =
     bind_o (deref t (internal_heap_pointer t)) (\<lambda>n.
     case find_child nm (node_children n) of
       None \<Rightarrow> Inr (False, t)
     | Some i \<Rightarrow> Inr (True, t\<lparr>internal_heap_pointer := child_address (internal_heap_pointer t) i\<rparr>))"

text \<open>
  \<open>clean\<close>.  Every pointer the loop takes from the stack is dereferenced, and every pointer it
  pushes is dangling, so the pointers on the stack that lead to a node become fewer.
\<close>

definition tree_clean_step ::
  "'d internal_unbalanced_tree \<Rightarrow> 'd internal_unbalanced_tree outcome" where
  "tree_clean_step t = bind_o (bfsStep t) (\<lambda>(get_current, t1). write_children get_current [] t1)"

definition live_pointers :: "node_pointer list \<Rightarrow> nat" where
  "live_pointers stk = length (filter (\<lambda>ptr. \<exists>p. ptr = At p) stk)"

lemma live_pointers_simps [simp]:
  "live_pointers [] = 0"
  "live_pointers (push_loop_copies cs stk) = live_pointers stk"
  "live_pointers (At p # stk) = Suc (live_pointers stk)"
  by (auto simp: live_pointers_def push_loop_copies_def)

lemma deref_At: "deref t ptr = Inr n \<Longrightarrow> \<exists>p. ptr = At p \<and> node_at p (internal_head t) = Some n"
  by (auto simp: deref_def split: node_pointer.splits)

lemma write_children_stack:
  "write_children ptr cs t = Inr t' \<Longrightarrow> internal_bfs_stack t' = internal_bfs_stack t"
  by (auto simp: write_children_def split: node_pointer.splits if_splits)

lemma tree_clean_step_live:
  assumes "tree_clean_step t = Inr t'" and "internal_bfs_stack t \<noteq> []"
  shows "live_pointers (internal_bfs_stack t') < live_pointers (internal_bfs_stack t)"
  using assms
  by (auto simp: tree_clean_step_def bfsStep_def outcome_rules neq_Nil_conv split: if_splits
      dest!: deref_At write_children_stack)

function tree_clean_loop ::
  "'d internal_unbalanced_tree \<Rightarrow> 'd internal_unbalanced_tree outcome" where
  "tree_clean_loop t =
     (if internal_bfs_stack t = [] then Inr t
      else bind_o (tree_clean_step t) tree_clean_loop)"
  by pat_completeness auto
termination
  by (relation "measure (\<lambda>t. live_pointers (internal_bfs_stack t))")
    (auto intro: tree_clean_step_live)

declare tree_clean_loop.simps [simp del]

definition tree_clean :: "'d internal_unbalanced_tree \<Rightarrow> 'd internal_unbalanced_tree outcome" where
  "tree_clean t = bind_o (tree_clean_step t) tree_clean_loop"

text \<open>\<open>while(moveUp());\<close>, which need not end on a cyclic chain of parents.\<close>

partial_function (option) move_up_all ::
  "'d internal_unbalanced_tree \<Rightarrow> 'd internal_unbalanced_tree outcome option" where
  "move_up_all t = (case moveUp t of
     Inl e \<Rightarrow> Some (Inl e)
   | Inr (moved, t1) \<Rightarrow> if moved then move_up_all t1 else Some (Inr t1))"

section \<open>The cursor\<close>

lemma node_at_update_self:
  "node_at p n = Some m \<Longrightarrow> node_at p (update_node p f n) = Some (f m)"
  by (induction p n rule: node_at.induct) (auto split: if_splits)

lemma update_node_compose:
  "update_node p f (update_node p g n) = update_node p (f \<circ> g) n"
  by (induction p n rule: node_at.induct) auto

lemma update_node_id: "node_at p n = Some m \<Longrightarrow> f m = m \<Longrightarrow> update_node p f n = n"
  by (induction p n rule: node_at.induct) (auto split: if_splits)

lemma set_children_same [simp]: "set_children (node_children n) n = n"
  by (simp add: set_children_def)

lemma set_children_compose [simp]: "set_children a (set_children b n) = set_children a n"
  by (simp add: set_children_def)

lemma node_children_set [simp]:
  "node_children (set_children cs n) = cs" "node_element (set_children cs n) = node_element n"
  "node_parent (set_children cs n) = node_parent n"
  by (simp_all add: set_children_def)

text \<open>The cursor is at the address \<open>p\<close>, on the node \<open>n\<close>.\<close>

definition cursor_at ::
  "nat list \<Rightarrow> 'd tree_node \<Rightarrow> 'd internal_unbalanced_tree \<Rightarrow> bool" where
  "cursor_at p n t \<longleftrightarrow> internal_heap_pointer t = At p \<and> node_at p (internal_head t) = Some n"

lemma cursor_deref: "cursor_at p n t \<Longrightarrow> deref t (internal_heap_pointer t) = Inr n"
  by (simp add: cursor_at_def deref_def)

lemma cursor_write:
  assumes "cursor_at p n t"
  shows "\<exists>t'. write_children (internal_heap_pointer t) cs t = Inr t' \<and>
    cursor_at p (set_children cs n) t' \<and> internal_bfs_stack t' = internal_bfs_stack t \<and>
    internal_head t' = update_node p (set_children cs) (internal_head t)"
  using assms by (simp add: cursor_at_def write_children_def node_at_update_self)

lemma addNode_eq:
  assumes "cursor_at p n t"
  shows "addNode child t = Inr (True, t\<lparr>internal_head :=
      update_node p (set_children (node_children n @ [child])) (internal_head t)\<rparr>)"
    and "cursor_at p (set_children (node_children n @ [child]) n) (t\<lparr>internal_head :=
      update_node p (set_children (node_children n @ [child])) (internal_head t)\<rparr>)"
  using assms cursor_deref [OF assms]
  by (simp_all add: addNode_def cursor_at_def write_children_def node_at_update_self)

lemma find_child_append_new:
  "find_child nm cs = None \<Longrightarrow> node_name (node_element c) = nm \<Longrightarrow>
     find_child nm (cs @ [c]) = Some (length cs)"
  unfolding find_child_def by (induction cs) (auto split: if_splits)

lemma find_child_nth:
  "find_child nm cs = Some i \<Longrightarrow> i < length cs \<and> node_name (node_element (cs ! i)) = nm"
  unfolding find_child_def by (drule find_pos_SomeD) simp

text \<open>Claim C36.  Adding, finding and removing a child.  On a cursor whose children do not have the
  name yet, the new child is found under its name, moving down to it leads to the address after
  the old children, and removing the name again restores the tree exactly.\<close>

theorem child_roundtrip:
  assumes "cursor_at p n t" and "find_child nm (node_children n) = None" and "nm \<noteq> []"
    and "node_name (node_element child) = nm"
  shows "\<exists>t1. addNode child t = Inr (True, t1) \<and> getNode nm t1 = Inr (Some (node_element child)) \<and>
    moveDown nm t1 = Inr (True, t1\<lparr>internal_heap_pointer := At (p @ [length (node_children n)])\<rparr>) \<and>
    removeNode nm t1 = Inr (True, t)"
proof -
  let ?cs = "node_children n @ [child]"
  let ?t1 = "t\<lparr>internal_head := update_node p (set_children ?cs) (internal_head t)\<rparr>"
  have add: "addNode child t = Inr (True, ?t1)" and cur: "cursor_at p (set_children ?cs n) ?t1"
    using addNode_eq [OF assms(1)] by blast+
  have found: "find_child nm ?cs = Some (length (node_children n))"
    by (rule find_child_append_new [OF assms(2,4)])
  have d: "deref ?t1 (internal_heap_pointer ?t1) = Inr (set_children ?cs n)"
    by (rule cursor_deref [OF cur])
  have ptr: "internal_heap_pointer t = At p" and at: "node_at p (internal_head t) = Some n"
    using assms(1) by (simp_all add: cursor_at_def)
  have "update_node p (set_children (node_children n)) (internal_head ?t1) = internal_head t"
    using update_node_id [OF at, of "set_children (node_children n)"]
    by (simp add: update_node_compose comp_def)
  then have "write_children (At p) (node_children n) ?t1 = Inr t"
    using node_at_update_self [OF at] by (simp add: write_children_def)
  then have "removeNode nm ?t1 = Inr (True, t)"
    using d found assms(3) ptr by (simp add: removeNode_def erase_at_def)
  moreover have "getNode nm ?t1 = Inr (Some (node_element child))"
    using d found assms(3) ptr by (simp add: getNode_def)
  moreover have "moveDown nm ?t1 =
      Inr (True, ?t1\<lparr>internal_heap_pointer := At (p @ [length (node_children n)])\<rparr>)"
    using d found ptr by (simp add: moveDown_def child_address_def)
  ultimately show ?thesis using add by blast
qed

definition named_node :: "string \<Rightarrow> internal_unbalanced_tree_node_parent tree_node" where
  "named_node nm = node_new \<lparr>is_directory = Some True, node_name = nm\<rparr>"

definition empty_tree :: "internal_unbalanced_tree_node_parent internal_unbalanced_tree" where
  "empty_tree = tree_new \<lparr>is_directory = None, node_name = []\<rparr>"

lemma cursor_new: "cursor_at [] (node_new e) (tree_new e)"
  by (simp add: cursor_at_def tree_new_def)

theorem child_roundtrip_witness:
  "\<exists>t1. addNode (named_node ''src'') empty_tree = Inr (True, t1) \<and>
    removeNode ''src'' t1 = Inr (True, empty_tree)"
  using child_roundtrip [OF cursor_new, of "''src''" "\<lparr>is_directory = None, node_name = []\<rparr>"
      "named_node ''src''"]
  by (auto simp: empty_tree_def named_node_def node_new_def find_child_def)

section \<open>Trees the program builds\<close>

text \<open>
  The program only adds default-constructed nodes, so every parent pointer is null.  \<open>bfsStep\<close> and
  \<open>bfsClear\<close> are private; only \<open>clean\<close> uses the first one.
\<close>

inductive tree_reach ::
  "'z internal_unbalanced_tree_node_parent_scheme internal_unbalanced_tree \<Rightarrow> bool" where
  construct: "tree_reach (tree_new e)"
| add: "tree_reach t \<Longrightarrow> addNode (node_new e) t = Inr (r, t') \<Longrightarrow> tree_reach t'"
| remove: "tree_reach t \<Longrightarrow> removeNode nm t = Inr (r, t') \<Longrightarrow> tree_reach t'"
| up: "tree_reach t \<Longrightarrow> moveUp t = Inr (r, t') \<Longrightarrow> tree_reach t'"
| down: "tree_reach t \<Longrightarrow> moveDown nm t = Inr (r, t') \<Longrightarrow> tree_reach t'"
| clean: "tree_reach t \<Longrightarrow> tree_clean t = Inr t' \<Longrightarrow> tree_reach t'"

fun orphans :: "'d tree_node \<Rightarrow> bool" where
  "orphans (Node par cs e) \<longleftrightarrow> par = Null \<and> (\<forall>c \<in> set cs. orphans c)"

lemma orphans_at: "orphans n \<Longrightarrow> node_at p n = Some m \<Longrightarrow> orphans m"
  by (induction p n rule: node_at.induct) (auto split: if_splits)

lemma orphans_update:
  "orphans n \<Longrightarrow> (\<And>m. node_at p n = Some m \<Longrightarrow> orphans (f m)) \<Longrightarrow> orphans (update_node p f n)"
proof (induction p n rule: node_at.induct)
  case (2 i p par cs e)
  show ?case
  proof (cases "i < length cs")
    case True
    have "orphans (update_node p f (cs ! i))"
      using "2.IH" [OF True] "2.prems" True by auto
    with "2.prems"(1) True show ?thesis
      by (auto dest!: in_set_conv_nth [THEN iffD1] simp: nth_list_update)
  next
    case False
    with "2.prems"(1) show ?thesis by simp
  qed
qed simp

lemma orphans_set_children:
  "orphans n \<Longrightarrow> \<forall>c \<in> set cs. orphans c \<Longrightarrow> orphans (set_children cs n)"
  by (cases n) (simp add: set_children_def)

lemma orphans_parts: "orphans n \<Longrightarrow> node_parent n = Null"
    "orphans n \<Longrightarrow> c \<in> set (node_children n) \<Longrightarrow> orphans c"
  by (cases n; simp)+

definition tree_inv :: "'d internal_unbalanced_tree \<Rightarrow> bool" where
  "tree_inv t \<longleftrightarrow> orphans (internal_head t) \<and> internal_bfs_stack t = [] \<and>
     (\<exists>p n. cursor_at p n t)"

lemma tree_invE:
  assumes "tree_inv t"
  obtains p n where "cursor_at p n t" and "orphans n" and "orphans (internal_head t)"
    and "internal_bfs_stack t = []"
proof -
  from assms obtain p n where c: "cursor_at p n t"
    by (auto simp: tree_inv_def)
  moreover from c assms have "orphans n"
    using orphans_at [of "internal_head t" p n] by (simp add: tree_inv_def cursor_at_def)
  ultimately show thesis
    using that assms by (simp add: tree_inv_def)
qed

lemma tree_inv_write:
  assumes "tree_inv t" and "\<And>p n. cursor_at p n t \<Longrightarrow> \<forall>c \<in> set cs. orphans c"
    and "write_children (internal_heap_pointer t) cs t = Inr t'"
  shows "tree_inv t'"
proof -
  obtain p n where c: "cursor_at p n t" "orphans n" "orphans (internal_head t)"
    "internal_bfs_stack t = []"
    by (rule tree_invE [OF assms(1)])
  then have "orphans (update_node p (set_children cs) (internal_head t))"
    using assms(2) [OF c(1)] orphans_at [OF c(3)]
    by (intro orphans_update orphans_set_children) auto
  then show ?thesis
    using cursor_write [OF c(1), of cs] c(4) assms(3) by (auto simp: tree_inv_def)
qed

lemma moveUp_orphan: "tree_inv t \<Longrightarrow> moveUp t = Inr (False, t)"
  by (auto elim!: tree_invE simp: moveUp_def cursor_deref orphans_parts(1))

lemma tree_inv_add:
  assumes "tree_inv t" and "addNode (node_new e) t = Inr (r, t')"
  shows "tree_inv t'"
proof -
  obtain p n where c: "cursor_at p n t" "orphans n"
    by (rule tree_invE [OF assms(1)])
  have "\<forall>x \<in> set (node_children n @ [node_new e]). orphans x"
    using orphans_parts(2) [OF c(2)] by (auto simp: node_new_def)
  moreover have "write_children (internal_heap_pointer t) (node_children n @ [node_new e]) t = Inr t'"
    using assms(2) cursor_deref [OF c(1)] by (auto simp: addNode_def outcome_rules)
  ultimately show ?thesis
    using tree_inv_write [OF assms(1)] by blast
qed

lemma tree_inv_down:
  assumes "tree_inv t" and "moveDown nm t = Inr (r, t')"
  shows "tree_inv t'"
proof -
  obtain p n where c: "cursor_at p n t" "orphans n" "orphans (internal_head t)"
    "internal_bfs_stack t = []"
    by (rule tree_invE [OF assms(1)])
  have "node_at (p @ [i]) m = Some (node_children n ! i)"
    if "node_at p m = Some n" "i < length (node_children n)" for i m
    using that by (induction p m rule: node_at.induct; cases n) (auto split: if_splits)
  note child = this
  show ?thesis
  proof (cases "find_child nm (node_children n)")
    case None
    with assms cursor_deref [OF c(1)] show ?thesis by (auto simp: moveDown_def)
  next
    case (Some i)
    have ptr: "internal_heap_pointer t = At p" "node_at p (internal_head t) = Some n"
      using c(1) by (simp_all add: cursor_at_def)
    have "t' = t\<lparr>internal_heap_pointer := At (p @ [i])\<rparr>"
      using assms(2) cursor_deref [OF c(1)] Some ptr(1)
      by (simp add: moveDown_def child_address_def)
    with child [OF ptr(2)] find_child_nth [OF Some] c(3,4) show ?thesis
      by (simp add: tree_inv_def cursor_at_def)
  qed
qed

lemma erase_at_subset: "erase_at i xs = Inr ys \<Longrightarrow> set ys \<subseteq> set xs"
  by (auto simp: erase_at_def split: option.splits if_splits dest: in_set_takeD in_set_dropD)

lemma removeNode_unnamed:
  assumes "tree_inv t"
  shows "removeNode [] t = (if internal_heap_pointer t = At []
    then Inr (True, t\<lparr>internal_head := set_children [] (internal_head t)\<rparr>)
    else Inl Undefined_Behaviour)"
proof -
  obtain p n where c: "cursor_at p n t" "orphans n"
    by (rule tree_invE [OF assms])
  have ptr: "internal_heap_pointer t = At p" and at: "node_at p (internal_head t) = Some n"
    using c(1) by (simp_all add: cursor_at_def)
  let ?t = "if node_children n \<noteq> [] then t\<lparr>internal_head := update_node p (set_children [])
    (internal_head t)\<rparr> else t"
  have w: "(if node_children n \<noteq> [] then write_children (At p) [] t else Inr t) = Inr ?t"
    using at by (simp add: write_children_def)
  show ?thesis
  proof (cases "p = []")
    case True
    with at w ptr cursor_deref [OF c(1)] set_children_same [of n] show ?thesis
      by (cases "node_children n") (auto simp: removeNode_def)
  next
    case False
    with at ptr cursor_deref [OF c(1)] orphans_parts(1) [OF c(2)] show ?thesis
      by (cases "node_children n = []")
        (simp_all add: removeNode_def Let_def deref_def write_children_def node_at_update_self)
  qed
qed

lemma tree_inv_remove:
  assumes "tree_inv t" and "removeNode nm t = Inr (r, t')"
  shows "tree_inv t'"
proof (cases "nm = []")
  case True
  obtain p n where c: "cursor_at p n t" "orphans n" "orphans (internal_head t)"
    "internal_bfs_stack t = []"
    by (rule tree_invE [OF assms(1)])
  from True assms removeNode_unnamed [OF assms(1)] c(3,4) show ?thesis
    by (auto simp: tree_inv_def cursor_at_def orphans_set_children split: if_splits)
next
  case False
  obtain p n where c: "cursor_at p n t" "orphans n"
    by (rule tree_invE [OF assms(1)])
  show ?thesis
  proof (cases "find_child nm (node_children n)")
    case None
    with False c assms show ?thesis by (auto simp: removeNode_def cursor_deref)
  next
    case (Some i)
    with False c(1) assms(2) obtain cs where
      cs: "erase_at (Some i) (node_children n) = Inr cs"
        "write_children (internal_heap_pointer t) cs t = Inr t'"
      by (auto simp: removeNode_def cursor_deref outcome_rules)
    have "\<forall>x \<in> set cs. orphans x"
      using erase_at_subset [OF cs(1)] orphans_parts(2) [OF c(2)] by blast
    with tree_inv_write [OF assms(1) _ cs(2)] show ?thesis by blast
  qed
qed

text \<open>\<open>clean\<close> only survives on a node without children.\<close>

lemma tree_clean_eq:
  assumes "tree_inv t" and "cursor_at p n t"
  shows "tree_clean t = (if node_children n = [] then Inr t else Inl Undefined_Behaviour)"
proof -
  have ptr: "internal_heap_pointer t = At p" and at: "node_at p (internal_head t) = Some n"
    using assms(2) by (simp_all add: cursor_at_def)
  have stk: "internal_bfs_stack t = []"
    using assms(1) by (simp add: tree_inv_def)
  let ?t = "t\<lparr>internal_bfs_stack := push_loop_copies (node_children n) [],
    internal_head := update_node p (set_children []) (internal_head t)\<rparr>"
  have step: "tree_clean_step t = Inr ?t"
    using cursor_deref [OF assms(2)] at stk ptr
    by (simp add: tree_clean_step_def bfsStep_def write_children_def)
  show ?thesis
  proof (cases "node_children n")
    case Nil
    then have "?t = t"
      using update_node_id [OF at, of "set_children []"] set_children_same [of n] stk
      by (simp add: push_loop_copies_def)
    with step Nil stk show ?thesis
      by (simp add: tree_clean_def tree_clean_loop.simps [of t])
  next
    case (Cons c cs)
    then have "tree_clean_step ?t = Inl Undefined_Behaviour"
      by (simp add: tree_clean_step_def bfsStep_def push_loop_copies_def deref_def)
    moreover have "internal_bfs_stack ?t \<noteq> []"
      using Cons by (simp add: push_loop_copies_def)
    ultimately have "tree_clean_loop ?t = Inl Undefined_Behaviour"
      by (subst tree_clean_loop.simps) simp
    with step Cons show ?thesis
      by (simp add: tree_clean_def)
  qed
qed

lemma tree_inv_clean: "tree_inv t \<Longrightarrow> tree_clean t = Inr t' \<Longrightarrow> tree_inv t'"
  by (rule tree_invE [of t]) (auto simp: tree_clean_eq split: if_splits)

lemma tree_reach_inv: "tree_reach t \<Longrightarrow> tree_inv t"
proof (induction rule: tree_reach.induct)
  case (construct e)
  then show ?case
    using cursor_new [of e] by (auto simp: tree_inv_def tree_new_def node_new_def)
next
  case (up t r t')
  then show ?case by (simp add: moveUp_orphan)
qed (auto intro: tree_inv_add tree_inv_remove tree_inv_down tree_inv_clean)

text \<open>Claim C40.  There is no way back up.  Nothing ever sets the parent of a node that is added, so
  on every tree the program can build \<open>moveUp\<close> fails and changes nothing, the loop over it ends
  at once, and removing the node the cursor is on (no name given) is undefined unless the cursor
  is on the head, where it drops every child.\<close>

theorem no_way_up:
  assumes "tree_reach t"
  shows "moveUp t = Inr (False, t) \<and> move_up_all t = Some (Inr t) \<and>
    removeNode [] t = (if internal_heap_pointer t = At []
      then Inr (True, t\<lparr>internal_head := set_children [] (internal_head t)\<rparr>)
      else Inl Undefined_Behaviour)"
  using tree_reach_inv [OF assms]
  by (simp add: moveUp_orphan removeNode_unnamed move_up_all.simps [of t])

theorem no_way_up_witness:
  "\<exists>t. moveDown ''src'' (empty_tree\<lparr>internal_head := set_children [named_node ''src'']
      (internal_head empty_tree)\<rparr>) = Inr (True, t) \<and> moveUp t = Inr (False, t) \<and>
    removeNode [] t = Inl Undefined_Behaviour"
proof -
  let ?t1 = "empty_tree\<lparr>internal_head := set_children [named_node ''src''] (internal_head empty_tree)\<rparr>"
  have add: "addNode (named_node ''src'') empty_tree = Inr (True, ?t1)"
    using addNode_eq(1) [OF cursor_new, of "named_node ''src''"]
    by (simp add: empty_tree_def tree_new_def node_new_def set_children_def)
  let ?t2 = "?t1\<lparr>internal_heap_pointer := At [0]\<rparr>"
  have down: "moveDown ''src'' ?t1 = Inr (True, ?t2)"
    by (simp add: moveDown_def deref_def empty_tree_def tree_new_def node_new_def set_children_def
        find_child_def named_node_def child_address_def)
  have "tree_reach ?t2"
    using tree_reach.down [OF tree_reach.add [OF tree_reach.construct] down]
      add [unfolded named_node_def empty_tree_def] by (simp add: empty_tree_def named_node_def)
  from no_way_up [OF this] down show ?thesis
    by (intro exI [of _ ?t2]) simp
qed

text \<open>\<open>clean\<close> is undefined as soon as the node under the cursor has a child: its
  breadth first walk keeps the address of a dead loop variable and dereferences it.  On a node
  without children it returns and leaves the tree as it was, siblings included.\<close>

theorem tree_clean_undefined:
  assumes "tree_reach t" and "cursor_at p n t"
  shows "tree_clean t = (if node_children n = [] then Inr t else Inl Undefined_Behaviour)"
  by (rule tree_clean_eq [OF tree_reach_inv [OF assms(1)] assms(2)])

theorem tree_clean_undefined_witness:
  "\<exists>t. addNode (named_node ''src'') empty_tree = Inr (True, t) \<and>
    tree_clean t = Inl Undefined_Behaviour \<and> tree_clean empty_tree = Inr empty_tree"
proof -
  let ?e = "\<lparr>is_directory = None, node_name = []\<rparr>"
  obtain t where t: "addNode (named_node ''src'') empty_tree = Inr (True, t)"
    "cursor_at [] (set_children [named_node ''src''] (node_new ?e)) t"
    using addNode_eq [OF cursor_new [of ?e], of "named_node ''src''"]
    by (simp add: empty_tree_def node_new_def)
  have reach: "tree_reach empty_tree"
    using tree_reach.construct by (simp add: empty_tree_def)
  then have "tree_reach t"
    using tree_reach.add [OF reach] t(1) by (simp add: named_node_def)
  moreover have "cursor_at [] (node_new ?e) empty_tree"
    by (simp add: empty_tree_def cursor_new)
  ultimately show ?thesis
    using tree_clean_undefined [OF _ t(2)] tree_clean_undefined [OF reach, of "[]" "node_new ?e"] t(1)
    by (simp add: node_new_def)
qed

end
