(* ===== verification/Nfs_Internal.thy ===== *)
theory Nfs_Internal
  imports Nfs_Filesystem Nfs_Tree
begin

text \<open>
  \<open>LIBS/defs_internal.h\<close>, \<open>internal_unbalanced_tree_filesystem\<close>: the in-memory picture of the
  shared directory, a \<open>filesystem_head\<close> and an \<open>internal_unbalanced_tree\<close> moved together, and the
  table of the nodes other hosts hold.

  \<open>updateRepresentation\<close> and \<open>clean\<close> contain loops whose end depends on their data; they return
  \<open>None\<close> when they do not end.  The walk of \<open>updateRepresentation\<close> iterates over a vector whose only
  owner is gone before the first pass, so it is undefined (\<open>range_of_temporary\<close>).
\<close>

section \<open>Node data and state\<close>

record internal_node_data = internal_unbalanced_tree_node_parent +
  is_foreign :: "bool option"
  nd_host :: string
  nd_lookup :: string
  nd_file_content :: "cell list option"

definition node_data_new :: internal_node_data where
  "node_data_new = \<lparr>is_directory = None, node_name = [], is_foreign = None, nd_host = [],
     nd_lookup = [], nd_file_content = None\<rparr>"

definition node_data_set ::
  "bool \<Rightarrow> bool \<Rightarrow> string \<Rightarrow> string \<Rightarrow> cell list option \<Rightarrow> internal_node_data \<Rightarrow>
   internal_node_data" where
  "node_data_set foreign directory lookup host content e =
     (if \<not> foreign then e\<lparr>is_directory := Some directory, is_foreign := Some foreign,
        nd_file_content := content, nd_host := host, nd_lookup := lookup\<rparr> else e)"

text \<open>The constructor with values assigns the same members to a node that has none yet.\<close>

definition node_data_new_values ::
  "bool \<Rightarrow> bool \<Rightarrow> string \<Rightarrow> string \<Rightarrow> cell list option \<Rightarrow> internal_node_data" where
  "node_data_new_values foreign directory lookup host content =
     (if \<not> foreign then node_data_new\<lparr>is_directory := Some directory, is_foreign := Some foreign,
        nd_file_content := content, nd_host := host, nd_lookup := lookup\<rparr> else node_data_new)"

definition BROADCAST_IDENTIFIER :: string where
  "BROADCAST_IDENTIFIER = ''-1''"

record internal_filesystem =
  internal_offset_armed :: bool
  internal_filesystem_offset :: string
  internal_host_identifier :: string
  internal_foreign_nodes :: "(string, string) umap"
  internal_filesystem_reader :: filesystem_head
  internal_filesystem_tree :: "internal_node_data internal_unbalanced_tree"

definition internal_new :: internal_filesystem where
  "internal_new = \<lparr>internal_offset_armed = False, internal_filesystem_offset = [],
     internal_host_identifier = [], internal_foreign_nodes = [],
     internal_filesystem_reader = fs_new [], internal_filesystem_tree = tree_new node_data_new\<rparr>"

definition armed :: "internal_filesystem \<Rightarrow> unit outcome" where
  "armed s = assert_o (internal_offset_armed s)"

section \<open>Moving along a path\<close>

text \<open>
  The loop of \<open>pathChangeInline\<close>.  \<open>word_count\<close> is the number of words; the loop stops at the first
  word \<open>stepForwardDirectory\<close> answers with true.
\<close>

fun path_loop ::
  "'d posix \<Rightarrow> char \<Rightarrow> int \<Rightarrow> string list \<Rightarrow> bool \<Rightarrow> int \<Rightarrow> string \<Rightarrow> internal_filesystem \<Rightarrow> 'd \<Rightarrow>
   (int \<times> string \<times> internal_filesystem \<times> 'd) outcome" where
  "path_loop px delimeter word_count [] path_heaped levels_down result s d = Inr (levels_down, result, s, d)"
| "path_loop px delimeter word_count (word # rest_words) path_heaped levels_down result s d =
     bind_o (fs_stepForwardDirectory px word (internal_filesystem_reader s) d) (\<lambda>(refused, rd, d1).
     let s1 = s\<lparr>internal_filesystem_reader := rd\<rparr> in
     if refused then Inr (levels_down, result, s1, d1)
     else
       bind_o (if path_heaped then moveDown word (internal_filesystem_tree s1)
               else Inr (False, internal_filesystem_tree s1)) (\<lambda>(moved, t2).
       let s2 = s1\<lparr>internal_filesystem_tree := t2\<rparr> in
       if \<not> path_heaped \<or> \<not> moved then
         (let child = Node Null [] (node_data_set False True [] [] None node_data_new) in
          bind_o (addNode child (internal_filesystem_tree s2)) (\<lambda>(_, t3).
            path_loop px delimeter word_count rest_words False (levels_down + 1) result
              (s2\<lparr>internal_filesystem_tree := t3\<rparr>) d1))
       else
         path_loop px delimeter word_count rest_words path_heaped (levels_down + 1)
           (result @ word @ (if levels_down \<noteq> word_count - 2 then [delimeter] else [])) s2 d1))"

text \<open>\<open>while(levels_down--) moveUp();\<close>\<close>

fun move_up_times ::
  "nat \<Rightarrow> internal_filesystem \<Rightarrow> internal_filesystem outcome" where
  "move_up_times 0 s = Inr s"
| "move_up_times (Suc n) s =
     bind_o (moveUp (internal_filesystem_tree s)) (\<lambda>(_, t).
       move_up_times n (s\<lparr>internal_filesystem_tree := t\<rparr>))"

definition pathChangeInline ::
  "'d posix \<Rightarrow> string \<Rightarrow> bool \<Rightarrow> internal_filesystem \<Rightarrow> 'd \<Rightarrow>
   (string \<times> internal_filesystem \<times> 'd) outcome" where
  "pathChangeInline px path keep_move s d =
     bind_o (armed s) (\<lambda>_.
     if path \<noteq> [] then
       let delimeter = getDelimeter (internal_filesystem_reader s);
           words = stream_words path in
       bind_o (path_loop px delimeter (int (length words)) words False 0 [] s d)
         (\<lambda>(levels_down, result, s1, d1).
       bind_o (if path \<noteq> result \<or> \<not> keep_move then move_up_times (nat levels_down) s1
               else Inr s1) (\<lambda>s2.
       if result \<noteq> [] then
         bind_o (fs_changeDirectory px [] (internal_filesystem_reader s2) d1) (\<lambda>(_, rd, d2).
           Inr (result, s2\<lparr>internal_filesystem_reader := rd\<rparr>, d2))
       else Inr (result, s2, d1)))
     else Inr ([], s, d))"

definition pathExists ::
  "'d posix \<Rightarrow> string \<Rightarrow> internal_filesystem \<Rightarrow> 'd \<Rightarrow> (bool \<times> internal_filesystem \<times> 'd) outcome" where
  "pathExists px path s d =
     bind_o (armed s) (\<lambda>_.
     bind_o (pathChangeInline px path False s d) (\<lambda>(r, s1, d1). Inr (r \<noteq> [], s1, d1)))"

definition pathChange ::
  "'d posix \<Rightarrow> string \<Rightarrow> internal_filesystem \<Rightarrow> 'd \<Rightarrow> (bool \<times> internal_filesystem \<times> 'd) outcome" where
  "pathChange px path s d =
     bind_o (armed s) (\<lambda>_.
     bind_o (pathChangeInline px path True s d) (\<lambda>(r, s1, d1). Inr (r \<noteq> [], s1, d1)))"

definition stepBackwardsOnce ::
  "'d posix \<Rightarrow> internal_filesystem \<Rightarrow> 'd \<Rightarrow> (bool \<times> internal_filesystem \<times> 'd) outcome" where
  "stepBackwardsOnce px s d =
     bind_o (armed s) (\<lambda>_.
     bind_o (fs_stepBackDirectory px 0 (internal_filesystem_reader s) d) (\<lambda>(r1, rd, d1).
     bind_o (moveUp (internal_filesystem_tree s)) (\<lambda>(r2, t).
       Inr (True \<and> r1 \<and> r2,
         s\<lparr>internal_filesystem_reader := rd, internal_filesystem_tree := t\<rparr>, d1))))"

definition stepForwardsOnce ::
  "'d posix \<Rightarrow> string \<Rightarrow> internal_filesystem \<Rightarrow> 'd \<Rightarrow> (bool \<times> internal_filesystem \<times> 'd) outcome" where
  "stepForwardsOnce px name s d =
     bind_o (armed s) (\<lambda>_.
     bind_o (fs_stepForwardDirectory px name (internal_filesystem_reader s) d) (\<lambda>(r1, rd, d1).
     bind_o (moveDown name (internal_filesystem_tree s)) (\<lambda>(r2, t).
       Inr (False \<and> r1 \<and> r2,
         s\<lparr>internal_filesystem_reader := rd, internal_filesystem_tree := t\<rparr>, d1))))"

section \<open>The offset and the table of foreign nodes\<close>

definition setFilesystemOffset ::
  "'d posix \<Rightarrow> string \<Rightarrow> internal_filesystem \<Rightarrow> 'd \<Rightarrow> bool \<times> internal_filesystem \<times> 'd" where
  "setFilesystemOffset px offset s d =
     (let s1 = s\<lparr>internal_filesystem_offset := offset\<rparr>;
          (result, rd, d1) = fs_setRoot px (internal_filesystem_offset s1)
                               (internal_filesystem_reader s1) d
      in (result, s1\<lparr>internal_filesystem_reader := rd, internal_offset_armed := result\<rparr>, d1))"

definition serializeRequest :: "string \<Rightarrow> internal_filesystem \<Rightarrow> string outcome" where
  "serializeRequest lookup s = bind_o (armed s) (\<lambda>_. Inr [])"

definition deserializeResponse :: "string \<Rightarrow> internal_filesystem \<Rightarrow> internal_filesystem outcome" where
  "deserializeResponse serialized_response s = bind_o (armed s) (\<lambda>_. Inr s)"

definition serializeResponse :: "string \<Rightarrow> internal_filesystem \<Rightarrow> string outcome" where
  "serializeResponse serialized_request s = bind_o (armed s) (\<lambda>_. Inr [])"

definition getForeignLookup :: "string \<Rightarrow> internal_filesystem \<Rightarrow> string outcome" where
  "getForeignLookup lookup s =
     bind_o (armed s) (\<lambda>_. Inr (case map_of (internal_foreign_nodes s) lookup of
       Some path \<Rightarrow> path | None \<Rightarrow> []))"

definition addForeignLookup ::
  "string \<Rightarrow> string \<Rightarrow> internal_filesystem \<Rightarrow> internal_filesystem outcome" where
  "addForeignLookup path host s =
     bind_o (armed s) (\<lambda>_. Inr (s\<lparr>internal_foreign_nodes :=
       snd (umap_emplace host path (internal_foreign_nodes s))\<rparr>))"

definition removeForeignLookup ::
  "string \<Rightarrow> internal_filesystem \<Rightarrow> (bool \<times> internal_filesystem) outcome" where
  "removeForeignLookup lookup s =
     bind_o (armed s) (\<lambda>_. Inr (map_of (internal_foreign_nodes s) lookup \<noteq> None, s))"

definition setHostIdentifier :: "string \<Rightarrow> internal_filesystem \<Rightarrow> internal_filesystem" where
  "setHostIdentifier identifier s = s\<lparr>internal_host_identifier := identifier\<rparr>"

section \<open>Removing\<close>

definition killParent ::
  "'d posix \<Rightarrow> internal_filesystem \<Rightarrow> 'd \<Rightarrow> (bool \<times> internal_filesystem \<times> 'd) outcome" where
  "killParent px s d =
     bind_o (armed s) (\<lambda>_.
     bind_o (getNode [] (internal_filesystem_tree s)) (\<lambda>get_node.
     case get_node of
       None \<Rightarrow> Inr (False, s, d)
     | Some e \<Rightarrow>
         bind_o (defined_o (is_directory e)) (\<lambda>dir.
         if dir then
           bind_o (fs_removeDirectory px ''./'' (internal_filesystem_reader s) d) (\<lambda>(_, rd, d1).
           bind_o (removeNode [] (internal_filesystem_tree s)) (\<lambda>(_, t).
             Inr (False, s\<lparr>internal_filesystem_reader := rd, internal_filesystem_tree := t\<rparr>, d1)))
         else Inr (False, s, d))))"

definition killChild ::
  "'d posix \<Rightarrow> string \<Rightarrow> internal_filesystem \<Rightarrow> 'd \<Rightarrow> (bool \<times> internal_filesystem \<times> 'd) outcome" where
  "killChild px name s d =
     bind_o (armed s) (\<lambda>_.
     bind_o (getNode name (internal_filesystem_tree s)) (\<lambda>get_node.
     case get_node of
       None \<Rightarrow> Inr (False, s, d)
     | Some e \<Rightarrow>
         bind_o (defined_o (is_directory e)) (\<lambda>dir.
         if dir then
           bind_o (stepForwardsOnce px name s d) (\<lambda>(stepped, s1, d1).
             if stepped then bind_o (killParent px s1 d1) (\<lambda>(_, s2, d2). Inr (False, s2, d2))
             else Inr (False, s1, d1))
         else
           bind_o (fs_deleteFile px name (internal_filesystem_reader s) d) (\<lambda>(_, d1).
           bind_o (removeNode name (internal_filesystem_tree s)) (\<lambda>(_, t).
             Inr (False, s\<lparr>internal_filesystem_tree := t\<rparr>, d1))))))"

section \<open>Updating the picture\<close>

text \<open>
  \<open>while(last_level-- > level) \<dots>\<close>: the decrement also happens when the test fails.
\<close>

function rewind_levels ::
  "'d posix \<Rightarrow> int \<Rightarrow> int \<Rightarrow> internal_filesystem \<Rightarrow> 'd \<Rightarrow> (int \<times> internal_filesystem \<times> 'd) outcome" where
  "rewind_levels px last_level level s d =
     (if last_level > level then
        bind_o (moveUp (internal_filesystem_tree s)) (\<lambda>(_, t).
        bind_o (fs_stepBackDirectory px 0 (internal_filesystem_reader s) d) (\<lambda>(_, rd, d1).
          rewind_levels px (last_level - 1) level
            (s\<lparr>internal_filesystem_tree := t, internal_filesystem_reader := rd\<rparr>) d1))
      else Inr (last_level - 1, s, d))"
  by pat_completeness auto
termination
  by (relation "measure (\<lambda>(px, last_level, level, s, d). nat (last_level - level))") auto

declare rewind_levels.simps [simp del]

text \<open>
  The loop over one listing.  Directories are pushed for later; \<open>getFile\<close> gives a non-null
  pointer whenever it returns, and \<open>createFile\<close> is only called on a null one.
\<close>

fun visit_entries ::
  "(string \<times> bool) list \<Rightarrow> int \<Rightarrow> bool \<Rightarrow> (int \<times> string) list \<Rightarrow> internal_filesystem \<Rightarrow>
   'x disk_scheme \<Rightarrow> (bool \<times> (int \<times> string) list \<times> 'x disk_scheme) outcome" where
  "visit_entries [] last_level write_failed stk s d = Inr (write_failed, stk, d)"
| "visit_entries ((entry, is_file) # others) last_level write_failed stk s d =
     (if is_file then
        bind_o (fs_getFile entry (internal_filesystem_reader s) d) (\<lambda>(file_size, content, d1).
        let get_file = Some content in
        bind_o (if get_file = None
                then bind_o (fs_createFile entry get_file True file_size
                       (internal_filesystem_reader s) d1) (\<lambda>(_, d2). Inr (write_failed, d2))
                else Inr (True, d1)) (\<lambda>(write_failed', d2).
          visit_entries others last_level write_failed' stk s d2))
      else visit_entries others last_level write_failed ((last_level, entry) # stk) s d)"

text \<open>The test whether the list is empty; dereferencing a null \<open>shared_ptr\<close> is undefined.\<close>

definition read_listing ::
  "'d posix \<Rightarrow> 'd \<Rightarrow> internal_filesystem \<Rightarrow> ((string \<times> bool) list \<times> internal_filesystem) outcome" where
  "read_listing px d s =
     bind_o (fs_listCurrentDirectory px [] d (internal_filesystem_reader s)) (\<lambda>(listing, rd).
     bind_o (defined_o listing) (\<lambda>entries. Inr (entries, s\<lparr>internal_filesystem_reader := rd\<rparr>)))"

text \<open>
  The loop runs over \<open>*(listCurrentDirectory())\<close>.  The pointer is a temporary and the only owner of
  its vector; in C++14, for which the program is built, it is destroyed before the first iteration.
\<close>

definition range_of_temporary :: "'a list option \<Rightarrow> 'a list outcome" where
  "range_of_temporary listing = bind_o (defined_o listing) (\<lambda>_. Inl Undefined_Behaviour)"

text \<open>One pass of the traversal loop, after the top of the stack has been popped.\<close>

definition update_visit ::
  "('x disk_scheme) posix \<Rightarrow> int \<times> string \<Rightarrow> int \<Rightarrow> bool \<Rightarrow> bool \<Rightarrow> (int \<times> string) list \<Rightarrow>
   internal_filesystem \<Rightarrow> 'x disk_scheme \<Rightarrow>
   (int \<times> bool \<times> bool \<times> (int \<times> string) list \<times> internal_filesystem \<times> 'x disk_scheme) outcome" where
  "update_visit px stack_top last_level write_failed path_failure stk s d =
     bind_o (rewind_levels px last_level (fst stack_top) s d) (\<lambda>(last_level1, s1, d1).
     bind_o (pathChangeInline px (snd stack_top) True s1 d1) (\<lambda>(reached, s2, d2).
     let path_change_failed = (snd stack_top \<noteq> reached);
         path_failure1 = (path_failure \<or> path_change_failed) in
     if \<not> path_change_failed then
       let last_level2 = last_level1 + 1 in
       bind_o (fs_listCurrentDirectory px [] d2 (internal_filesystem_reader s2)) (\<lambda>(listing, rd).
       let s3 = s2\<lparr>internal_filesystem_reader := rd\<rparr> in
       bind_o (range_of_temporary listing) (\<lambda>entries.
       bind_o (visit_entries entries last_level2 write_failed stk s3 d2) (\<lambda>(write_failed1, stk1, d3).
         Inr (last_level2, write_failed1, path_failure1, stk1, s3, d3))))
     else Inr (last_level1, write_failed, path_failure1, stk, s2, d2)))"

partial_function (option) update_loop ::
  "('x disk_scheme) posix \<Rightarrow> int \<Rightarrow> bool \<Rightarrow> bool \<Rightarrow> (int \<times> string) list \<Rightarrow> internal_filesystem \<Rightarrow>
   'x disk_scheme \<Rightarrow> (bool \<times> bool \<times> internal_filesystem \<times> 'x disk_scheme) outcome option" where
  "update_loop px last_level write_failed path_failure stk s d =
     (case stk of
        [] \<Rightarrow> Some (Inr (write_failed, path_failure, s, d))
      | stack_top # stk1 \<Rightarrow>
          (case update_visit px stack_top last_level write_failed path_failure stk1 s d of
             Inl e \<Rightarrow> Some (Inl e)
           | Inr (last_level1, write_failed1, path_failure1, stk2, s1, d1) \<Rightarrow>
               update_loop px last_level1 write_failed1 path_failure1 stk2 s1 d1))"

definition cursor_to_head :: "internal_filesystem \<Rightarrow> internal_filesystem" where
  "cursor_to_head s = s\<lparr>internal_filesystem_tree :=
     (internal_filesystem_tree s)\<lparr>internal_heap_pointer := At []\<rparr>\<rparr>"

definition updateRepresentation ::
  "('x disk_scheme) posix \<Rightarrow> internal_filesystem \<Rightarrow> 'x disk_scheme \<Rightarrow>
   (bool \<times> internal_filesystem \<times> 'x disk_scheme) outcome option" where
  "updateRepresentation px s d =
     (case bind_o (armed s) (\<lambda>_. read_listing px d s) of
        Inl e \<Rightarrow> Some (Inl e)
      | Inr (entries, s1) \<Rightarrow>
          if entries \<noteq> [] then
            map_option (\<lambda>r. bind_o r (\<lambda>(write_failed, path_failure, s2, d2).
                Inr (\<not> write_failed \<and> \<not> path_failure, cursor_to_head s2, d2)))
              (update_loop px 0 False False [(0, [])] (cursor_to_head s1) d)
          else Some (Inr (True, s1, d)))"

section \<open>Cleaning\<close>

definition internal_clean :: "internal_filesystem \<Rightarrow> internal_filesystem outcome option" where
  "internal_clean s =
     (case armed s of
        Inl e \<Rightarrow> Some (Inl e)
      | Inr _ \<Rightarrow>
          let s1 = s\<lparr>internal_offset_armed := False, internal_filesystem_offset := [],
                internal_host_identifier := [], internal_foreign_nodes := []\<rparr> in
          map_option (\<lambda>r. bind_o r (\<lambda>t. bind_o (tree_clean t) (\<lambda>t1.
              Inr (s1\<lparr>internal_filesystem_tree := t1\<rparr>))))
            (move_up_all (internal_filesystem_tree s1)))"

section \<open>Invariant\<close>

text \<open>
  The pictures the program can build: \<open>k\<close> nameless children under the head, no grandchildren,
  the cursor on the head.  An armed object has a reader that knows its directory.
\<close>

definition anonymous_child :: "internal_node_data tree_node" where
  "anonymous_child = Node Null [] (node_data_set False True [] [] None node_data_new)"

definition flat_tree :: "nat \<Rightarrow> internal_node_data internal_unbalanced_tree" where
  "flat_tree k = \<lparr>internal_head = Node Null (replicate k anonymous_child) node_data_new,
     internal_heap_pointer = At [], internal_bfs_stack = []\<rparr>"

definition internal_inv :: "internal_filesystem \<Rightarrow> bool" where
  "internal_inv s \<longleftrightarrow> (\<exists>k. internal_filesystem_tree s = flat_tree k) \<and>
     (internal_offset_armed s \<longrightarrow> filesystem_directory_known (internal_filesystem_reader s))"

lemma deref_flat: "deref (flat_tree k) (At []) =
    Inr (Node Null (replicate k anonymous_child) node_data_new)"
  by (simp add: deref_def flat_tree_def)

lemma flat_pointer [simp]: "internal_heap_pointer (flat_tree k) = At []"
  by (simp add: flat_tree_def)

lemma find_child_flat: "nm \<noteq> [] \<Longrightarrow> find_child nm (replicate k anonymous_child) = None"
  by (simp add: find_child_def find_pos_None_iff anonymous_child_def node_data_set_def
      node_data_new_def)

lemma flat_moveUp [simp]: "moveUp (flat_tree k) = Inr (False, flat_tree k)"
  by (simp add: moveUp_def deref_flat)

lemma flat_moveDown: "nm \<noteq> [] \<Longrightarrow> moveDown nm (flat_tree k) = Inr (False, flat_tree k)"
  by (simp add: moveDown_def deref_flat find_child_flat)

lemma flat_add [simp]: "addNode anonymous_child (flat_tree k) = Inr (True, flat_tree (Suc k))"
  by (simp add: addNode_def deref_flat write_children_def)
    (simp add: flat_tree_def set_children_def replicate_append_same)

lemma flat_new: "tree_new node_data_new = flat_tree 0"
  by (simp add: tree_new_def flat_tree_def node_new_def)

lemma flat_reach: "tree_reach (flat_tree k)"
proof (induction k)
  case 0
  then show ?case using tree_reach.construct [of node_data_new] by (simp add: flat_new)
next
  case (Suc k)
  then show ?case
    using tree_reach.add [of "flat_tree k" _ True "flat_tree (Suc k)"] flat_add [of k]
    by (auto simp: anonymous_child_def node_new_def)
qed

text \<open>The reader keeps knowing its directory, and never faults on a named step.\<close>

lemma fs_change_known:
  "fs_changeDirectory px dir fs d = Inr (r, fs', d') \<Longrightarrow> filesystem_directory_known fs'"
proof -
  assume run: "fs_changeDirectory px dir fs d = Inr (r, fs', d')"
  then have k: "filesystem_directory_known fs" and ne: "dir \<noteq> []"
    by (auto simp: fs_changeDirectory_def outcome_rules back_o_def split: if_splits)
  obtain c d1 where "px_chdir px (c_path (change_target fs dir)) d = (c, d1)"
    by fastforce
  from fs_changeDirectory_eq [OF k ne this] run k show ?thesis
    by (auto split: if_splits)
qed

lemma fs_stepForward_returns:
  assumes "filesystem_directory_known fs" and "word \<noteq> []"
  obtains r fs' d' where "fs_stepForwardDirectory px word fs d = Inr (r, fs', d')"
    and "filesystem_directory_known fs'"
proof -
  obtain c d' where "px_chdir px (c_path (change_target fs word)) d = (c, d')"
    by fastforce
  from fs_changeDirectory_eq [OF assms this] assms(1) obtain r fs' where
    "fs_stepForwardDirectory px word fs d = Inr (r, fs', d')" "filesystem_directory_known fs'"
    by (auto simp: fs_stepForwardDirectory_def split: if_splits)
  with that show thesis by blast
qed

lemma fs_stepForward_known:
  "fs_stepForwardDirectory px word fs d = Inr (r, fs', d') \<Longrightarrow> filesystem_directory_known fs'"
  by (auto simp: fs_stepForwardDirectory_def outcome_rules dest: fs_change_known)

lemma fs_stepBack_known:
  "fs_stepBackDirectory px n fs d = Inr (r, fs', d') \<Longrightarrow> filesystem_directory_known fs'"
  by (auto simp: fs_stepBackDirectory_def outcome_rules Let_def split: prod.splits if_splits
      dest: fs_change_known)

lemma fs_status_known [simp]:
  "filesystem_directory_known (fs_status px path d fs) = filesystem_directory_known fs"
  by (simp add: fs_status_def split: option.split)

lemma fs_status_delimeter [simp]:
  "filesystem_node_delimeter (fs_status px path d fs) = filesystem_node_delimeter fs"
  by (simp add: fs_status_def split: option.split)

lemma fs_list_entries_same:
  "fs_list_entries px pre names d fs = Inr (es, fs') \<Longrightarrow>
   filesystem_directory_known fs' = filesystem_directory_known fs \<and>
   filesystem_node_delimeter fs' = filesystem_node_delimeter fs"
proof (induction names arbitrary: fs es)
  case (Cons n names)
  then obtain is_dir fs1 reg fs2 rest where
    1: "directoryExists px (pre @ n) d fs = Inr (is_dir, fs1)"
    and 2: "(if is_dir then Inr (False, fs1) else fileExists px (pre @ n) d fs1) = Inr (reg, fs2)"
    and 3: "fs_list_entries px pre names d fs2 = Inr (rest, fs')"
    by (auto simp: outcome_rules Let_def split: prod.splits)
  have "filesystem_directory_known fs2 = filesystem_directory_known fs \<and>
      filesystem_node_delimeter fs2 = filesystem_node_delimeter fs"
    using 1 2 by (auto simp: directoryExists_def fileExists_def outcome_rules Let_def split: if_splits)
  with Cons.IH [OF 3] show ?case by simp
qed simp

subsection \<open>The operations on the invariant\<close>

lemma path_loop_flat:
  assumes "internal_filesystem_tree s = flat_tree k"
    and "filesystem_directory_known (internal_filesystem_reader s)" and "\<forall>w \<in> set words. w \<noteq> []"
    and "0 \<le> levels"
  shows "\<exists>levels' s' d' n. path_loop px c cnt words False levels result s d =
      Inr (levels', result, s', d') \<and> 0 \<le> levels' \<and> n \<le> length words \<and>
    internal_filesystem_tree s' = flat_tree (k + n) \<and>
    filesystem_directory_known (internal_filesystem_reader s') \<and>
    internal_offset_armed s' = internal_offset_armed s"
  using assms
proof (induction words arbitrary: s k levels d)
  case Nil
  then show ?case by (intro exI [of _ levels] exI [of _ s] exI [of _ d] exI [of _ 0]) simp
next
  case (Cons w words)
  have ne: "w \<noteq> []" and rest: "\<forall>w \<in> set words. w \<noteq> []"
    using Cons.prems(3) by simp_all
  obtain r rd d1 where step: "fs_stepForwardDirectory px w (internal_filesystem_reader s) d =
      Inr (r, rd, d1)" "filesystem_directory_known rd"
    using fs_stepForward_returns [OF Cons.prems(2) ne] by metis
  let ?s1 = "s\<lparr>internal_filesystem_reader := rd\<rparr>"
  show ?case
  proof (cases r)
    case True
    with step Cons.prems show ?thesis
      by (intro exI [of _ levels] exI [of _ ?s1] exI [of _ d1] exI [of _ 0]) simp
  next
    case False
    let ?s3 = "?s1\<lparr>internal_filesystem_tree := flat_tree (Suc k)\<rparr>"
    have run: "path_loop px c cnt (w # words) False levels result s d =
        path_loop px c cnt words False (levels + 1) result ?s3 d1"
      using False step(1) Cons.prems(1) flat_add [of k]
      by (simp add: anonymous_child_def Let_def)
    from Cons.IH [of ?s3 "Suc k" "levels + 1" d1] step(2) rest Cons.prems(4)
    obtain levels' s' d' n where
      "path_loop px c cnt words False (levels + 1) result ?s3 d1 = Inr (levels', result, s', d')"
      "0 \<le> levels'" "n \<le> length words" "internal_filesystem_tree s' = flat_tree (Suc k + n)"
      "filesystem_directory_known (internal_filesystem_reader s')"
      "internal_offset_armed s' = internal_offset_armed s"
      by auto
    with run show ?thesis
      by (intro exI [of _ levels'] exI [of _ s'] exI [of _ d'] exI [of _ "Suc n"]) simp
  qed
qed

lemma same_tree: "internal_filesystem_tree s = t \<Longrightarrow> s\<lparr>internal_filesystem_tree := t\<rparr> = s"
  by simp

lemma move_up_times_flat:
  "internal_filesystem_tree s = flat_tree k \<Longrightarrow> move_up_times n s = Inr s"
  by (induction n) (simp_all add: same_tree)

lemma pathChangeInline_flat:
  assumes "internal_offset_armed s" and "internal_inv s" and "internal_filesystem_tree s = flat_tree k"
  shows "\<exists>s' d' n. pathChangeInline px path keep s d = Inr ([], s', d') \<and>
    n \<le> length (stream_words path) \<and> internal_filesystem_tree s' = flat_tree (k + n) \<and>
    internal_inv s' \<and> internal_offset_armed s'"
proof (cases "path = []")
  case True
  with assms show ?thesis
    by (intro exI [of _ s] exI [of _ d] exI [of _ 0]) (simp add: pathChangeInline_def armed_def)
next
  case False
  have known: "filesystem_directory_known (internal_filesystem_reader s)"
    using assms(1,2) by (simp add: internal_inv_def)
  have words: "\<forall>w \<in> set (stream_words path). w \<noteq> []"
    using stream_words_nonempty by blast
  obtain levels' s' d' n where
    l: "path_loop px (getDelimeter (internal_filesystem_reader s))
        (int (length (stream_words path))) (stream_words path) False 0 [] s d =
      Inr (levels', [], s', d')" "n \<le> length (stream_words path)"
      "internal_filesystem_tree s' = flat_tree (k + n)"
      "filesystem_directory_known (internal_filesystem_reader s')" "internal_offset_armed s'"
    using path_loop_flat [OF assms(3) known, of "stream_words path" 0 px
        "getDelimeter (internal_filesystem_reader s)" "int (length (stream_words path))" "[]" d]
      words assms(1) by auto
  have "pathChangeInline px path keep s d = Inr ([], s', d')"
    using False assms(1) l(1) move_up_times_flat [OF l(3)]
    by (simp add: pathChangeInline_def armed_def Let_def)
  with l(2-5) show ?thesis
    by (auto simp: internal_inv_def)
qed

lemma internal_inv_new: "internal_inv internal_new"
  by (auto simp: internal_inv_def internal_new_def flat_new)

lemma setFilesystemOffset_inv:
  "internal_inv s \<Longrightarrow> internal_inv (fst (snd (setFilesystemOffset px offset s d)))"
  by (auto simp: internal_inv_def setFilesystemOffset_def fs_setRoot_def Let_def
      split: prod.splits if_splits)

lemma stepBackwardsOnce_inv:
  assumes "internal_inv s" and "stepBackwardsOnce px s d = Inr (r, s', d')"
  shows "internal_inv s'"
proof -
  obtain k where k: "internal_filesystem_tree s = flat_tree k"
    using assms(1) by (auto simp: internal_inv_def)
  with assms(2) obtain r1 rd where
    "fs_stepBackDirectory px 0 (internal_filesystem_reader s) d = Inr (r1, rd, d')"
    "s' = s\<lparr>internal_filesystem_reader := rd\<rparr>"
    by (auto simp: stepBackwardsOnce_def outcome_rules same_tree)
  with k fs_stepBack_known show ?thesis
    by (auto simp: internal_inv_def)
qed

lemma stepForwardsOnce_inv:
  assumes "internal_inv s" and "stepForwardsOnce px nm s d = Inr (r, s', d')"
  shows "internal_inv s'"
proof (cases "nm = []")
  case True
  have "fs_stepForwardDirectory px [] fs d = Inr x \<Longrightarrow> False" for fs x
    by (auto simp: fs_stepForwardDirectory_def fs_changeDirectory_def outcome_rules)
  with True assms(2) show ?thesis
    by (auto simp: stepForwardsOnce_def outcome_rules)
next
  case False
  with assms show ?thesis
    by (auto simp: internal_inv_def stepForwardsOnce_def outcome_rules flat_moveDown
        dest: fs_stepForward_known)
qed

lemma killParent_faults:
  "internal_offset_armed s \<Longrightarrow> internal_inv s \<Longrightarrow> killParent px s d = Inl Undefined_Behaviour"
  by (auto simp: internal_inv_def killParent_def armed_def getNode_def deref_flat node_data_new_def)

lemma killChild_eq:
  "internal_offset_armed s \<Longrightarrow> internal_inv s \<Longrightarrow>
   killChild px nm s d = (if nm = [] then Inl Undefined_Behaviour else Inr (False, s, d))"
  by (auto simp: internal_inv_def killChild_def armed_def getNode_def deref_flat node_data_new_def
      find_child_flat)

subsection \<open>The update\<close>

lemma fs_list_entries_fault:
  "fs_list_entries px pre names d fs = Inl e \<Longrightarrow> e = Undefined_Behaviour"
proof (induction names arbitrary: fs)
  case (Cons n names)
  then show ?case
    by (auto simp: outcome_rules Let_def directoryExists_def fileExists_def defined_o_def
        split: prod.splits if_splits option.splits)
qed simp

text \<open>Listing the current directory: it fails, or the list it returns is not empty.\<close>

definition listable :: "'d posix \<Rightarrow> filesystem_head \<Rightarrow> 'd \<Rightarrow> bool" where
  "listable px rd d \<longleftrightarrow> filesystem_directory_known rd \<and>
     px_readdir px (c_path (''.'' @ [getDelimeter rd])) d \<noteq> None"

lemma listing_cases:
  "if listable px rd d
   then fs_listCurrentDirectory px [] d rd = Inl Undefined_Behaviour \<or>
     (\<exists>listing rd'. fs_listCurrentDirectory px [] d rd = Inr (listing, rd') \<and> listing \<noteq> Some [] \<and>
       listable px rd' d)
   else fs_listCurrentDirectory px [] d rd = Inl Assertion_Failed"
proof (cases "px_readdir px (c_path (''.'' @ [getDelimeter rd])) d")
  case None
  have "fs_report Fs_cannot_open_directory rd = Inl Assertion_Failed"
    by (simp add: fs_report_def setReturnCode_def assert_o_def debug_standard_max_error_def
        debug_class_min_error_def)
  with None show ?thesis
    by (auto simp: listable_def fs_listCurrentDirectory_def getDelimeter_def Let_def assert_o_def)
next
  case (Some ns)
  show ?thesis
  proof (cases "fs_list_entries px (''.'' @ [getDelimeter rd]) ns d rd")
    case (Inl e)
    with fs_list_entries_fault [OF Inl] Some show ?thesis
      by (simp add: listable_def fs_listCurrentDirectory_def getDelimeter_def Let_def)
  next
    case (Inr x)
    then obtain es rd' where x: "fs_list_entries px (''.'' @ [getDelimeter rd]) ns d rd = Inr (es, rd')"
      by (cases x) auto
    with Some fs_list_entries_same [OF x] show ?thesis
      by (auto simp: listable_def fs_listCurrentDirectory_def getDelimeter_def Let_def)
  qed
qed

lemma update_loop_faults:
  assumes "internal_offset_armed s" and "listable px (internal_filesystem_reader s) d"
  shows "update_loop px 0 False False [(0, [])] s d = Some (Inl Undefined_Behaviour)"
proof -
  have "pathChangeInline px [] True s d = Inr ([], s, d)"
    using assms(1) by (simp add: pathChangeInline_def armed_def)
  with listing_cases [of px "internal_filesystem_reader s" d] assms(2)
  have "update_visit px (0, []) 0 False False [] s d = Inl Undefined_Behaviour"
    by (auto simp: update_visit_def rewind_levels.simps Let_def range_of_temporary_def defined_o_def
        split: option.split)
  then show ?thesis by (simp add: update_loop.simps)
qed

lemma updateRepresentation_eq:
  "updateRepresentation px s d = Some (Inl (if internal_offset_armed s \<and>
      listable px (internal_filesystem_reader s) d then Undefined_Behaviour else Assertion_Failed))"
proof -
  have "update_loop px 0 False False [(0, [])] (cursor_to_head (s\<lparr>internal_filesystem_reader := rd\<rparr>)) d =
      Some (Inl Undefined_Behaviour)" if "internal_offset_armed s" "listable px rd d" for rd
    using that by (intro update_loop_faults) (simp_all add: cursor_to_head_def)
  then show ?thesis
    using listing_cases [of px "internal_filesystem_reader s" d]
    by (auto simp: updateRepresentation_def armed_def read_listing_def defined_o_def assert_o_def
        split: option.split if_splits)
qed

section \<open>Reachable objects\<close>

inductive internal_reach ::
  "('x disk_scheme) posix \<Rightarrow> internal_filesystem \<Rightarrow> bool" for px :: "('x disk_scheme) posix" where
  construct: "internal_reach px internal_new"
| set_offset: "internal_reach px s \<Longrightarrow> setFilesystemOffset px offset s d = (r, s', d') \<Longrightarrow>
    internal_reach px s'"
| set_identifier: "internal_reach px s \<Longrightarrow> internal_reach px (setHostIdentifier nm s)"
| change: "internal_reach px s \<Longrightarrow> pathChangeInline px path keep s d = Inr (r, s', d') \<Longrightarrow>
    internal_reach px s'"
| backward: "internal_reach px s \<Longrightarrow> stepBackwardsOnce px s d = Inr (b, s', d') \<Longrightarrow>
    internal_reach px s'"
| forward: "internal_reach px s \<Longrightarrow> stepForwardsOnce px nm s d = Inr (b, s', d') \<Longrightarrow>
    internal_reach px s'"
| add_lookup: "internal_reach px s \<Longrightarrow> addForeignLookup path host s = Inr s' \<Longrightarrow>
    internal_reach px s'"
| remove_lookup: "internal_reach px s \<Longrightarrow> removeForeignLookup host s = Inr (b, s') \<Longrightarrow>
    internal_reach px s'"
| kill_parent: "internal_reach px s \<Longrightarrow> killParent px s d = Inr (b, s', d') \<Longrightarrow>
    internal_reach px s'"
| kill_child: "internal_reach px s \<Longrightarrow> killChild px nm s d = Inr (b, s', d') \<Longrightarrow>
    internal_reach px s'"
| update: "internal_reach px s \<Longrightarrow> updateRepresentation px s d = Some (Inr (b, s', d')) \<Longrightarrow>
    internal_reach px s'"
| clean: "internal_reach px s \<Longrightarrow> internal_clean s = Some (Inr s') \<Longrightarrow> internal_reach px s'"

lemma internal_clean_flat:
  assumes "internal_offset_armed s" and "internal_filesystem_tree s = flat_tree k"
  shows "internal_clean s = Some (if k = 0 then Inr (s\<lparr>internal_offset_armed := False,
      internal_filesystem_offset := [], internal_host_identifier := [],
      internal_foreign_nodes := []\<rparr>) else Inl Undefined_Behaviour)"
proof -
  have "move_up_all (flat_tree k) = Some (Inr (flat_tree k))"
    by (simp add: move_up_all.simps [of "flat_tree k"])
  moreover have "cursor_at [] (Node Null (replicate k anonymous_child) node_data_new) (flat_tree k)"
    by (simp add: cursor_at_def flat_tree_def)
  from tree_clean_eq [OF tree_reach_inv [OF flat_reach] this]
  have "tree_clean (flat_tree k) = (if k = 0 then Inr (flat_tree k) else Inl Undefined_Behaviour)"
    by simp
  ultimately show ?thesis
    using assms by (simp add: internal_clean_def armed_def Let_def same_tree)
qed

lemma internal_reach_inv: "internal_reach px s \<Longrightarrow> internal_inv s"
proof (induction rule: internal_reach.induct)
  case (set_offset s offset d r s' d')
  then show ?case using setFilesystemOffset_inv [of s px offset d] by simp
next
  case (change s path keep d r s' d')
  have a: "internal_offset_armed s"
    using change.hyps(2) by (auto simp: pathChangeInline_def armed_def outcome_rules)
  obtain k where "internal_filesystem_tree s = flat_tree k"
    using change.IH by (auto simp: internal_inv_def)
  from pathChangeInline_flat [OF a change.IH this, of px path keep d] change.hyps(2)
  show ?case by auto
next
  case (kill_parent s d b s' d')
  then have "internal_offset_armed s"
    by (auto simp: killParent_def armed_def outcome_rules)
  with kill_parent show ?case by (simp add: killParent_faults)
next
  case (kill_child s nm d b s' d')
  then have "internal_offset_armed s"
    by (auto simp: killChild_def armed_def outcome_rules)
  with kill_child show ?case by (auto simp: killChild_eq split: if_splits)
next
  case (update s d b s' d')
  then show ?case by (simp add: updateRepresentation_eq)
next
  case (clean s s')
  then have a: "internal_offset_armed s"
    by (cases "internal_offset_armed s") (simp_all add: internal_clean_def armed_def)
  obtain k where k: "internal_filesystem_tree s = flat_tree k"
    using clean.IH by (auto simp: internal_inv_def)
  from internal_clean_flat [OF a k] clean k show ?case
    by (auto simp: internal_inv_def split: if_splits)
next
  case construct
  show ?case by (rule internal_inv_new)
next
  case (backward s d b s' d')
  show ?case by (rule stepBackwardsOnce_inv [OF backward.IH backward.hyps(2)])
next
  case (forward s nm d b s' d')
  show ?case by (rule stepForwardsOnce_inv [OF forward.IH forward.hyps(2)])
qed (auto simp: addForeignLookup_def removeForeignLookup_def armed_def setHostIdentifier_def
    outcome_rules internal_inv_def)

section \<open>Properties\<close>

text \<open>Claim C8.  No path is ever found.  On every armed object \<open>pathChange\<close> and \<open>pathExists\<close>
  return, and they return false, whatever the path and the directory tree; all they do to the
  picture is add nameless nodes under the head, at most one per word of the path.\<close>

theorem paths_never_found:
  assumes "internal_reach px s" and "internal_offset_armed s"
  shows "\<exists>s1 d1 s2 d2 k m n. pathChange px path s d = Inr (False, s1, d1) \<and>
    pathExists px path s d = Inr (False, s2, d2) \<and> internal_filesystem_tree s = flat_tree k \<and>
    internal_filesystem_tree s1 = flat_tree (k + m) \<and>
    internal_filesystem_tree s2 = flat_tree (k + n) \<and>
    m \<le> length (stream_words path) \<and> n \<le> length (stream_words path)"
proof -
  have inv: "internal_inv s" by (rule internal_reach_inv [OF assms(1)])
  then obtain k where k: "internal_filesystem_tree s = flat_tree k"
    by (auto simp: internal_inv_def)
  obtain s1 d1 m where 1: "pathChangeInline px path True s d = Inr ([], s1, d1)"
    "m \<le> length (stream_words path)" "internal_filesystem_tree s1 = flat_tree (k + m)"
    using pathChangeInline_flat [OF assms(2) inv k, of px path True d] by blast
  obtain s2 d2 n where 2: "pathChangeInline px path False s d = Inr ([], s2, d2)"
    "n \<le> length (stream_words path)" "internal_filesystem_tree s2 = flat_tree (k + n)"
    using pathChangeInline_flat [OF assms(2) inv k, of px path False d] by blast
  have "pathChange px path s d = Inr (False, s1, d1)"
    using 1(1) assms(2) by (simp add: pathChange_def armed_def)
  moreover have "pathExists px path s d = Inr (False, s2, d2)"
    using 2(1) assms(2) by (simp add: pathExists_def armed_def)
  ultimately show ?thesis using k 1 2 by blast
qed

text \<open>The picture of \<open>/srv\<close>; it is armed because \<open>small_system\<close> refuses to change to \<open>/srv\<close>.\<close>

definition srv_picture :: internal_filesystem where
  "srv_picture = fst (snd (setFilesystemOffset small_system ''/srv/'' internal_new system_disk))"

lemma srv_offset:
  "setFilesystemOffset small_system ''/srv/'' internal_new system_disk =
     (True, srv_picture, system_disk)"
  by (simp add: srv_picture_def setFilesystemOffset_def fs_setRoot_def internal_new_def Let_def
      fs_chdir_def small_system_def c_path_def nul_def)

lemma srv_picture_reach: "internal_reach small_system srv_picture"
  by (rule internal_reach.set_offset [OF internal_reach.construct srv_offset])

lemma srv_picture_armed: "internal_offset_armed srv_picture"
  by (simp add: srv_picture_def setFilesystemOffset_def fs_setRoot_def internal_new_def Let_def
      fs_chdir_def small_system_def c_path_def nul_def)

theorem paths_never_found_witness:
  "\<exists>s d. pathChange small_system ''data'' srv_picture system_disk = Inr (False, s, d)"
  using paths_never_found [OF srv_picture_reach srv_picture_armed, of "''data''" system_disk] by blast

text \<open>Claim C34.  \<open>updateRepresentation\<close> always ends and never returns.  The first directory it comes
  to is the current one; if the system can open it, the update iterates over a list that has been
  destroyed, and in every other case an assertion fails.\<close>

theorem update_never_returns:
  "updateRepresentation px s d = Some (Inl (if internal_offset_armed s \<and>
      listable px (internal_filesystem_reader s) d then Undefined_Behaviour else Assertion_Failed))"
  by (rule updateRepresentation_eq)

text \<open>Nothing is ever removed through the picture.  \<open>killParent\<close> always reads the
  directory flag of the head, which nothing sets; \<open>killChild\<close> with a name finds no child of that
  name, since no node gets one, so it returns false and touches neither the picture nor the disk.\<close>

theorem nothing_is_killed:
  assumes "internal_reach px s" and "internal_offset_armed s"
  shows "killParent px s d = Inl Undefined_Behaviour \<and>
    killChild px nm s d = (if nm = [] then Inl Undefined_Behaviour else Inr (False, s, d))"
  using internal_reach_inv [OF assms(1)] assms(2)
  by (simp add: killParent_faults killChild_eq)

theorem nothing_is_killed_witness:
  "killChild small_system ''data'' srv_picture system_disk = Inr (False, srv_picture, system_disk)"
  using nothing_is_killed [OF srv_picture_reach srv_picture_armed, of system_disk "''data''"] by simp

text \<open>Cleaning an armed object returns, disarmed and without its tables, only while its
  picture is empty; once any path word has been accepted it is undefined.\<close>

theorem clean_needs_empty_picture:
  assumes "internal_reach px s" and "internal_offset_armed s"
  shows "\<exists>k. internal_filesystem_tree s = flat_tree k \<and>
    internal_clean s = Some (if k = 0 then Inr (s\<lparr>internal_offset_armed := False,
      internal_filesystem_offset := [], internal_host_identifier := [],
      internal_foreign_nodes := []\<rparr>) else Inl Undefined_Behaviour)"
proof -
  obtain k where k: "internal_filesystem_tree s = flat_tree k"
    using internal_reach_inv [OF assms(1)] by (auto simp: internal_inv_def)
  with internal_clean_flat [OF assms(2) k] show ?thesis by blast
qed

lemma srv_picture_tree: "internal_filesystem_tree srv_picture = flat_tree 0"
  by (simp add: srv_picture_def setFilesystemOffset_def Let_def internal_new_def flat_new
      split: prod.split)

lemma flat_tree_inject: "flat_tree j = flat_tree k \<longleftrightarrow> j = k"
  by (auto simp: flat_tree_def dest: arg_cong [where f = length])

theorem clean_needs_empty_picture_witness:
  "internal_clean srv_picture = Some (Inr (srv_picture\<lparr>internal_offset_armed := False,
     internal_filesystem_offset := [], internal_host_identifier := [],
     internal_foreign_nodes := []\<rparr>))"
  using clean_needs_empty_picture [OF srv_picture_reach srv_picture_armed]
  by (auto simp: srv_picture_tree flat_tree_inject)

section \<open>The table of foreign nodes\<close>

datatype foreign_op = Foreign_add string string | Foreign_remove string

primrec foreign_step :: "foreign_op \<Rightarrow> internal_filesystem \<Rightarrow> internal_filesystem outcome" where
  "foreign_step (Foreign_add path host) s = addForeignLookup path host s"
| "foreign_step (Foreign_remove lookup) s =
     bind_o (removeForeignLookup lookup s) (\<lambda>(_, s'). Inr s')"

fun foreign_run :: "foreign_op list \<Rightarrow> internal_filesystem \<Rightarrow> internal_filesystem outcome" where
  "foreign_run [] s = Inr s"
| "foreign_run (x # xs) s = bind_o (foreign_step x s) (foreign_run xs)"

text \<open>The first path a sequence of operations gives for a host.\<close>

fun first_path :: "string \<Rightarrow> foreign_op list \<Rightarrow> string option" where
  "first_path host [] = None"
| "first_path host (Foreign_add path h # xs) = (if h = host then Some path else first_path host xs)"
| "first_path host (Foreign_remove lookup # xs) = first_path host xs"

lemma foreign_run_table:
  "internal_offset_armed s \<Longrightarrow> \<exists>s'. foreign_run xs s = Inr s' \<and> internal_offset_armed s' \<and>
    (\<forall>host. map_of (internal_foreign_nodes s') host =
      (case map_of (internal_foreign_nodes s) host of Some p \<Rightarrow> Some p | None \<Rightarrow> first_path host xs))"
proof (induction xs arbitrary: s)
  case Nil
  then show ?case by (auto split: option.split)
next
  case (Cons x xs)
  show ?case
  proof (cases x)
    case (Foreign_add path h)
    let ?s = "s\<lparr>internal_foreign_nodes := snd (umap_emplace h path (internal_foreign_nodes s))\<rparr>"
    obtain s' where s': "foreign_run xs ?s = Inr s'" "internal_offset_armed s'"
      "\<And>host. map_of (internal_foreign_nodes s') host =
        (case map_of (internal_foreign_nodes ?s) host of Some p \<Rightarrow> Some p | None \<Rightarrow> first_path host xs)"
      using Cons.IH [of ?s] Cons.prems by auto
    then have "map_of (internal_foreign_nodes s') host =
        (case map_of (internal_foreign_nodes s) host of Some p \<Rightarrow> Some p
         | None \<Rightarrow> first_path host (x # xs))" for host
      using Foreign_add by (auto simp: umap_emplace_def split: option.split)
    with s'(1,2) Foreign_add Cons.prems show ?thesis
      by (simp add: addForeignLookup_def armed_def)
  next
    case (Foreign_remove h)
    with Cons show ?thesis
      by (simp add: removeForeignLookup_def armed_def cong: option.case_cong)
  qed
qed

text \<open>The table of foreign nodes never forgets.  It is keyed by the host and keeps the
  first path a host is given: later additions for the host and every removal, which reports
  success, leave the entry in place.\<close>

theorem foreign_first_path_stays:
  assumes "internal_offset_armed s" and "map_of (internal_foreign_nodes s) host = None"
  shows "\<exists>s'. foreign_run xs s = Inr s' \<and>
    getForeignLookup host s' = Inr (case first_path host xs of None \<Rightarrow> [] | Some path \<Rightarrow> path) \<and>
    removeForeignLookup host s' = Inr (first_path host xs \<noteq> None, s')"
proof -
  obtain s' where "foreign_run xs s = Inr s'" "internal_offset_armed s'"
    "map_of (internal_foreign_nodes s') host = first_path host xs"
    using foreign_run_table [OF assms(1), of xs] assms(2) by fastforce
  then show ?thesis
    by (intro exI [of _ s']) (simp add: getForeignLookup_def removeForeignLookup_def armed_def)
qed

theorem foreign_first_path_stays_witness:
  "\<exists>s'. foreign_run [Foreign_add ''/a'' ''h1'', Foreign_remove ''h1'', Foreign_add ''/b'' ''h1'']
      srv_picture = Inr s' \<and> getForeignLookup ''h1'' s' = Inr ''/a''"
proof -
  have "internal_foreign_nodes srv_picture = []"
    by (simp add: srv_picture_def setFilesystemOffset_def Let_def internal_new_def split: prod.split)
  then show ?thesis
    using foreign_first_path_stays [OF srv_picture_armed, of "''h1''"
        "[Foreign_add ''/a'' ''h1'', Foreign_remove ''h1'', Foreign_add ''/b'' ''h1'']"]
    by auto
qed

end
