(* ===== verification/Nfs_Network.thy ===== *)
theory Nfs_Network
  imports Nfs_Debug
begin

text \<open>
  \<open>LIBS/defs_network.h\<close>: \<open>network_instance\<close>, a connection that frames each payload with its size
  in decimal.

  The socket calls are the record parameter \<open>sockets\<close>, acting on the world \<open>'w\<close>.
  \<open>gethostbyname\<close> returns null or a pointer to the one \<open>hostent\<close> the library owns, which the
  next call overwrites (its documentation says so); \<open>sk_h_addr\<close> is the address in that object.
  \<open>read\<close> delivers at most the number of bytes it is asked for.  A member without an initialiser
  is \<open>None\<close> until it is assigned.
\<close>

unbundle bit_operations_syntax

section \<open>The socket interface\<close>

record sockaddr_in =
  sin_family :: int
  sin_port :: "16 word"
  sin_addr :: "32 word"

record 'w sockets =
  sk_gethostbyname :: "string \<Rightarrow> 'w \<Rightarrow> bool \<times> 'w"
  sk_h_addr :: "'w \<Rightarrow> 32 word"
  sk_socket :: "'w \<Rightarrow> int \<times> 'w"
  sk_bind :: "int \<Rightarrow> sockaddr_in \<Rightarrow> 'w \<Rightarrow> int \<times> 'w"
  sk_listen :: "int \<Rightarrow> int \<Rightarrow> 'w \<Rightarrow> 'w"
  sk_accept :: "int \<Rightarrow> 'w \<Rightarrow> int \<times> sockaddr_in option \<times> 'w"
  sk_connect :: "int \<Rightarrow> sockaddr_in \<Rightarrow> 'w \<Rightarrow> int \<times> 'w"
  sk_shutdown :: "int \<Rightarrow> 'w \<Rightarrow> 'w"
  sk_close :: "int \<Rightarrow> 'w \<Rightarrow> 'w"
  sk_write :: "int \<Rightarrow> string \<Rightarrow> 'w \<Rightarrow> 'w"
  sk_read :: "int \<Rightarrow> nat \<Rightarrow> 'w \<Rightarrow> string \<times> 'w"

definition AF_INET :: int where
  "AF_INET = 2"

text \<open>\<open>htons\<close> on a little-endian host, after the conversion of the \<open>int\<close> to 16 bits.\<close>

definition htons :: "int \<Rightarrow> 16 word" where
  "htons port = (let p = word_of_int port :: 16 word in push_bit 8 p OR drop_bit 8 p)"

section \<open>Decimal conversion\<close>

text \<open>
  \<open>sprintf("%d")\<close> into an array: the digits and a NUL have to fit.  \<open>atoi\<close> skips white space,
  reads a sign and digits, and is undefined when the value does not fit an \<open>int\<close>.
\<close>

definition sprintf_int :: "int \<Rightarrow> cell list \<Rightarrow> cell list outcome" where
  "sprintf_int n buf =
     (let s = c_str (show_int n) in
      if length s \<le> length buf then Inr (s @ drop (length s) buf) else Inl Undefined_Behaviour)"

definition is_digit :: "char \<Rightarrow> bool" where
  "is_digit c \<longleftrightarrow> 48 \<le> (of_char c :: nat) \<and> (of_char c :: nat) \<le> 57"

definition digits_value :: "string \<Rightarrow> int" where
  "digits_value ds = foldl (\<lambda>v c. 10 * v + (int (of_char c) - 48)) 0 ds"

definition atoi_value :: "string \<Rightarrow> int" where
  "atoi_value s = (let t = dropWhile is_space s in
     if t \<noteq> [] \<and> hd t = CHR ''-'' then - digits_value (takeWhile is_digit (tl t))
     else if t \<noteq> [] \<and> hd t = CHR ''+'' then digits_value (takeWhile is_digit (tl t))
     else digits_value (takeWhile is_digit t))"

definition atoi :: "cell list \<Rightarrow> int outcome" where
  "atoi cs = bind_o (c_string cs) (\<lambda>s.
     let v = atoi_value s in
     if - (2 ^ 31) \<le> v \<and> v < 2 ^ 31 then Inr v else Inl Undefined_Behaviour)"

section \<open>State\<close>

datatype network_error =
    Net_cannot_obtain_server_address
  | Net_cannot_obtain_client_address
  | Net_cannot_open_socket
  | Net_cannot_bind
  | Net_cannot_accept_connection
  | Net_cannot_connect

primrec network_error_code :: "network_error \<Rightarrow> int" where
  "network_error_code Net_cannot_obtain_server_address = 0"
| "network_error_code Net_cannot_obtain_client_address = 1"
| "network_error_code Net_cannot_open_socket = 2"
| "network_error_code Net_cannot_bind = 3"
| "network_error_code Net_cannot_accept_connection = 4"
| "network_error_code Net_cannot_connect = 5"

definition network_local_errors :: "string list" where
  "network_local_errors =
     [''Cannot obtain server address information'', ''Cannot obtain client address'',
      ''Cannot open socket'', ''Cannot bind'', ''Cannot accept connection'', ''Cannot connect'']"

definition NETWORK_ERROR_COUNT :: nat where
  "NETWORK_ERROR_COUNT = 6"

definition SIZE_BUFFER :: nat where
  "SIZE_BUFFER = 256"

definition CONNECTION_BACKLOG :: int where
  "CONNECTION_BACKLOG = 5"

record network_instance = debug_status +
  network_connection_ready :: bool
  network_connection_is_client :: bool
  network_connection_established :: bool
  network_size_buffer :: "cell list"
  network_socket_descriptor :: "int option"
  network_established_socket_descriptor :: "int option"
  network_server_address :: "sockaddr_in option"
  network_client_address :: "sockaddr_in option"

text \<open>The size buffer is declared with the error count as its length.\<close>

definition network_new :: network_instance where
  "network_new = debug_status.extend
     (debug_status_new network_local_errors (getMinClassError + int NETWORK_ERROR_COUNT - 1))
     (network_instance.fields False False False (replicate NETWORK_ERROR_COUNT None) None None
        None None)"

definition net_report :: "network_error \<Rightarrow> network_instance \<Rightarrow> network_instance outcome" where
  "net_report e n = setReturnCode (network_error_code e) n"

section \<open>Operations\<close>

definition net_initConnection ::
  "'w sockets \<Rightarrow> network_instance \<Rightarrow> 'w \<Rightarrow> (bool \<times> network_instance \<times> 'w) outcome" where
  "net_initConnection sk n w =
     (let (fd, w1) = sk_socket sk w;
          n1 = n\<lparr>network_socket_descriptor := Some fd\<rparr> in
      if fd < 0 then bind_o (net_report Net_cannot_open_socket n1) (\<lambda>n2. Inr (False, n2, w1))
      else Inr (True, n1, w1))"

definition net_setParameters ::
  "'w sockets \<Rightarrow> string \<Rightarrow> int \<Rightarrow> string \<Rightarrow> int \<Rightarrow> network_instance \<Rightarrow> 'w \<Rightarrow>
   (network_instance \<times> 'w) outcome" where
  "net_setParameters sk client_address client_port server_address server_port n w =
     (let (client_found, w1) = sk_gethostbyname sk client_address w;
          (server_found, w2) = sk_gethostbyname sk server_address w1 in
      bind_o (if client_found \<and> server_found then
          (let n1 = n\<lparr>network_client_address := Some \<lparr>sin_family = AF_INET,
                        sin_port = htons client_port, sin_addr = sk_h_addr sk w2\<rparr>,
                     network_server_address := Some \<lparr>sin_family = AF_INET,
                        sin_port = htons server_port, sin_addr = sk_h_addr sk w2\<rparr>\<rparr> in
           bind_o (net_initConnection sk n1 w2) (\<lambda>(ready, n2, w3).
             Inr (n2\<lparr>network_connection_ready := ready\<rparr>, w3)))
        else Inr (n\<lparr>network_connection_ready := False\<rparr>, w2)) (\<lambda>(n3, w3).
      bind_o (net_report (if \<not> client_found then Net_cannot_obtain_client_address
                          else Net_cannot_obtain_server_address) n3) (\<lambda>n4. Inr (n4, w3))))"

definition net_acceptConnection ::
  "'w sockets \<Rightarrow> network_instance \<Rightarrow> 'w \<Rightarrow> (network_instance \<times> 'w) outcome" where
  "net_acceptConnection sk n w =
     bind_o (assert_o (network_connection_ready n)) (\<lambda>_.
     let n1 = n\<lparr>network_connection_established := False, network_connection_is_client := False\<rparr> in
     bind_o (defined_o (network_socket_descriptor n1)) (\<lambda>fd.
     bind_o (defined_o (network_server_address n1)) (\<lambda>address.
     let (bound, w1) = sk_bind sk fd address w in
     if bound \<ge> 0 then
       (let w2 = sk_listen sk fd CONNECTION_BACKLOG w1;
            (efd, peer, w3) = sk_accept sk fd w2;
            n2 = n1\<lparr>network_established_socket_descriptor := Some efd,
                   network_client_address :=
                     (case peer of None \<Rightarrow> network_client_address n1 | Some a \<Rightarrow> Some a)\<rparr> in
        if efd \<ge> 0 then Inr (n2\<lparr>network_connection_established := True\<rparr>, w3)
        else bind_o (net_report Net_cannot_accept_connection n2) (\<lambda>n3. Inr (n3, w3)))
     else bind_o (net_report Net_cannot_bind n1) (\<lambda>n2. Inr (n2, w1)))))"

definition net_startConnection ::
  "'w sockets \<Rightarrow> network_instance \<Rightarrow> 'w \<Rightarrow> (network_instance \<times> 'w) outcome" where
  "net_startConnection sk n w =
     bind_o (assert_o (network_connection_ready n \<and> \<not> network_connection_established n)) (\<lambda>_.
     let n1 = n\<lparr>network_connection_is_client := True\<rparr> in
     bind_o (defined_o (network_socket_descriptor n1)) (\<lambda>fd.
     bind_o (defined_o (network_server_address n1)) (\<lambda>address.
     let (r, w1) = sk_connect sk fd address w in
     if r < 0 then bind_o (net_report Net_cannot_connect n1) (\<lambda>n2. Inr (n2, w1))
     else Inr (n1\<lparr>network_connection_established := True\<rparr>, w1))))"

definition net_terminateConnection ::
  "'w sockets \<Rightarrow> network_instance \<Rightarrow> 'w \<Rightarrow> (network_instance \<times> 'w) outcome" where
  "net_terminateConnection sk n w =
     bind_o (assert_o (network_connection_established n)) (\<lambda>_.
     bind_o (defined_o (network_socket_descriptor n)) (\<lambda>fd.
     let w1 = sk_close sk fd (sk_shutdown sk fd w) in
     bind_o (if \<not> network_connection_is_client n
             then bind_o (defined_o (network_established_socket_descriptor n)) (\<lambda>efd.
                    Inr (sk_close sk efd (sk_shutdown sk efd w1)))
             else Inr w1) (\<lambda>w2.
       Inr (n\<lparr>network_connection_established := False\<rparr>, w2))))"

definition net_descriptor :: "network_instance \<Rightarrow> int outcome" where
  "net_descriptor n = (if network_connection_is_client n
     then defined_o (network_socket_descriptor n)
     else defined_o (network_established_socket_descriptor n))"

definition net_sendToConnection ::
  "'w sockets \<Rightarrow> cell list \<Rightarrow> int \<Rightarrow> network_instance \<Rightarrow> 'w \<Rightarrow> (network_instance \<times> 'w) outcome" where
  "net_sendToConnection sk payload sz n w =
     bind_o (assert_o (network_connection_established n)) (\<lambda>_.
     bind_o (net_descriptor n) (\<lambda>fd.
     bind_o (sprintf_int sz (network_size_buffer n)) (\<lambda>buf.
     let n1 = n\<lparr>network_size_buffer := buf\<rparr> in
     bind_o (read_cells buf (int SIZE_BUFFER)) (\<lambda>frame.
     let w1 = sk_write sk fd frame w in
     bind_o (read_cells payload sz) (\<lambda>data. Inr (n1, sk_write sk fd data w1))))))"

text \<open>\<open>read\<close> into an array: more bytes than it has cells are written outside it.\<close>

definition net_read_into ::
  "'w sockets \<Rightarrow> int \<Rightarrow> nat \<Rightarrow> cell list \<Rightarrow> 'w \<Rightarrow> (cell list \<times> 'w) outcome" where
  "net_read_into sk fd count buf w =
     (let (data, w1) = sk_read sk fd count w in
      if length data \<le> length buf then Inr (map Some data @ drop (length data) buf, w1)
      else Inl Undefined_Behaviour)"

definition net_receiveFromConnection ::
  "'w sockets \<Rightarrow> network_instance \<Rightarrow> 'w \<Rightarrow> (int \<times> cell list \<times> network_instance \<times> 'w) outcome" where
  "net_receiveFromConnection sk n w =
     bind_o (assert_o (network_connection_established n)) (\<lambda>_.
     bind_o (net_descriptor n) (\<lambda>fd.
     bind_o (net_read_into sk fd SIZE_BUFFER (network_size_buffer n) w) (\<lambda>(buf, w1).
     let n1 = n\<lparr>network_size_buffer := buf\<rparr> in
     bind_o (atoi buf) (\<lambda>sz.
     bind_o (new_chars sz) (\<lambda>arr.
     bind_o (net_read_into sk fd (nat sz) arr w1) (\<lambda>(arr', w2).
       Inr (sz, arr', n1, w2)))))))"

section \<open>Reports\<close>

interpretation net_errors: class_errors network_error_code network_local_errors
proof unfold_locales
  fix e
  show "0 \<le> network_error_code e \<and> network_error_code e < int (length network_local_errors)"
    by (cases e) (simp_all add: network_local_errors_def)
qed (simp add: network_local_errors_def)

text \<open>A socket call that fails ends the program; the two address errors are stored as standard codes.\<close>

lemma net_report_simps [simp]:
  "net_report Net_cannot_obtain_server_address n =
     Inr (n\<lparr>debug_class_return_code := Some 0, debug_class_status := ''OK''\<rparr>)"
  "net_report Net_cannot_obtain_client_address n =
     Inr (n\<lparr>debug_class_return_code := Some 1, debug_class_status := ''Allocation failed''\<rparr>)"
  "net_report Net_cannot_open_socket n = Inl Assertion_Failed"
  "net_report Net_cannot_bind n = Inl Assertion_Failed"
  "net_report Net_cannot_accept_connection n = Inl Assertion_Failed"
  "net_report Net_cannot_connect n = Inl Assertion_Failed"
  using net_errors.report_cases [of Net_cannot_obtain_server_address n]
    net_errors.report_cases [of Net_cannot_obtain_client_address n]
    net_errors.report_cases [of Net_cannot_open_socket n] net_errors.report_cases [of Net_cannot_bind n]
    net_errors.report_cases [of Net_cannot_accept_connection n]
    net_errors.report_cases [of Net_cannot_connect n]
  by (simp_all add: net_report_def)

section \<open>Decimal conversion: round trip\<close>

lemma digit_char_digit: "d < 10 \<Longrightarrow> is_digit (digit_char d)"
  by (simp add: is_digit_def digit_char_def of_char_of)

lemma digit_char_value: "d < 10 \<Longrightarrow> int (of_char (digit_char d)) - 48 = int d"
  by (simp add: digit_char_def)

lemma digits_value_snoc: "digits_value (ds @ [c]) = 10 * digits_value ds + (int (of_char c) - 48)"
  by (simp add: digits_value_def)

lemma show_nat_digits:
  "digits_value (show_nat n) = int n \<and> (\<forall>c \<in> set (show_nat n). is_digit c) \<and> show_nat n \<noteq> []"
proof (induction n rule: show_nat.induct)
  case (1 n)
  show ?case
  proof (cases "n < 10")
    case True
    then show ?thesis
      using digit_char_digit digit_char_value [of n] digits_value_snoc [of "[]" "digit_char n"]
      by (subst (1 2 3) show_nat.simps) (simp add: digits_value_def)
  next
    case False
    have "int n = 10 * int (n div 10) + int (n mod 10)"
      by (simp add: zmod_int zdiv_int)
    with False "1.IH" digit_char_digit [of "n mod 10"] digit_char_value [of "n mod 10"] show ?thesis
      by (subst (1 2 3) show_nat.simps) (simp add: digits_value_snoc)
  qed
qed

lemma digit_not_special: "is_digit c \<Longrightarrow> \<not> is_space c \<and> c \<noteq> CHR ''-'' \<and> c \<noteq> CHR ''+'' \<and> c \<noteq> nul"
  by (auto simp: is_digit_def is_space_def nul_def)

lemma takeWhile_digits: "takeWhile is_digit (show_nat n) = show_nat n"
  using show_nat_digits [of n] by simp

lemma atoi_value_show_int: "atoi_value (show_int z) = z"
proof (cases "z < 0")
  case True
  then show ?thesis
    using takeWhile_digits [of "nat (- z)"] show_nat_digits [of "nat (- z)"]
    by (simp add: atoi_value_def show_int_def Let_def is_space_def del: takeWhile_eq_all_conv)
next
  case False
  then obtain c cs where c: "show_nat (nat z) = c # cs" "is_digit c"
    using show_nat_digits [of "nat z"] by (cases "show_nat (nat z)") auto
  moreover have "takeWhile is_digit cs = cs"
    using show_nat_digits [of "nat z"] c(1) by simp
  ultimately show ?thesis
    using False show_nat_digits [of "nat z"] digit_not_special [OF c(2)]
    by (simp add: atoi_value_def show_int_def Let_def del: takeWhile_eq_all_conv)
qed

lemma show_int_no_nul: "nul \<notin> set (show_int z)"
  using show_nat_digits digit_not_special
  by (auto simp: show_int_def nul_def)

lemma atoi_of_frame:
  assumes "- (2 ^ 31) \<le> z" and "z < 2 ^ 31"
  shows "atoi (map Some (show_int z) @ Some nul # rest) = Inr z"
proof -
  have "c_string (map Some (show_int z) @ Some nul # rest) = Inr (show_int z)"
    using show_int_no_nul by (auto simp: c_string_eq_Inr_iff)
  with assms show ?thesis by (simp add: atoi_def atoi_value_show_int)
qed

section \<open>Reachable instances\<close>

inductive net_reach :: "'w sockets \<Rightarrow> network_instance \<Rightarrow> bool" for sk :: "'w sockets" where
  construct: "net_reach sk network_new"
| parameters: "net_reach sk n \<Longrightarrow> net_setParameters sk c cp s sp n w = Inr (n', w') \<Longrightarrow> net_reach sk n'"
| accepting: "net_reach sk n \<Longrightarrow> net_acceptConnection sk n w = Inr (n', w') \<Longrightarrow> net_reach sk n'"
| connecting: "net_reach sk n \<Longrightarrow> net_startConnection sk n w = Inr (n', w') \<Longrightarrow> net_reach sk n'"
| terminating: "net_reach sk n \<Longrightarrow> net_terminateConnection sk n w = Inr (n', w') \<Longrightarrow> net_reach sk n'"
| sending: "net_reach sk n \<Longrightarrow> net_sendToConnection sk payload sz n w = Inr (n', w') \<Longrightarrow>
    net_reach sk n'"
| receiving: "net_reach sk n \<Longrightarrow> net_receiveFromConnection sk n w = Inr (sz, data, n', w') \<Longrightarrow>
    net_reach sk n'"

text \<open>
  The size buffer keeps its six cells; a ready instance has its socket and its server address,
  and an established one the descriptor of its role.
\<close>

definition net_inv :: "network_instance \<Rightarrow> bool" where
  "net_inv n \<longleftrightarrow> length (network_size_buffer n) = NETWORK_ERROR_COUNT \<and>
     (network_connection_ready n \<longrightarrow>
        network_socket_descriptor n \<noteq> None \<and> network_server_address n \<noteq> None) \<and>
     (network_connection_established n \<longrightarrow> network_socket_descriptor n \<noteq> None \<and>
        (\<not> network_connection_is_client n \<longrightarrow> network_established_socket_descriptor n \<noteq> None))"

lemma net_read_into_length:
  "net_read_into sk fd count buf w = Inr (buf', w') \<Longrightarrow> length buf' = length buf"
  by (auto simp: net_read_into_def split: prod.splits if_splits)

lemma net_setParameters_inv:
  assumes "net_inv n" and "net_setParameters sk c cp s sp n w = Inr (n', w')"
  shows "net_inv n'"
proof -
  obtain cf w1 sf w2 where h: "sk_gethostbyname sk c w = (cf, w1)" "sk_gethostbyname sk s w1 = (sf, w2)"
    by fastforce
  obtain fd w3 where s: "sk_socket sk w2 = (fd, w3)" by fastforce
  from assms h s show ?thesis
    by (cases cf; cases sf; cases "fd < 0")
      (auto simp: net_setParameters_def net_initConnection_def net_inv_def Let_def)
qed

lemma net_send_eq:
  assumes "net_inv n" and "network_connection_established n"
  shows "net_sendToConnection sk payload sz n w = Inl Undefined_Behaviour"
proof -
  obtain fd where fd: "net_descriptor n = Inr fd"
    using assms by (cases "network_connection_is_client n")
      (auto simp: net_inv_def net_descriptor_def)
  show ?thesis
  proof (cases "sprintf_int sz (network_size_buffer n)")
    case (Inl e)
    with assms(2) fd show ?thesis
      by (auto simp: net_sendToConnection_def sprintf_int_def Let_def split: if_splits)
  next
    case (Inr buf)
    then have "length buf = NETWORK_ERROR_COUNT"
      using assms(1) by (auto simp: sprintf_int_def net_inv_def Let_def split: if_splits)
    then have "read_cells buf (int SIZE_BUFFER) = Inl Undefined_Behaviour"
      by (simp add: read_cells_def SIZE_BUFFER_def NETWORK_ERROR_COUNT_def)
    with Inr assms(2) fd show ?thesis
      by (simp add: net_sendToConnection_def Let_def)
  qed
qed

lemma net_reach_inv: "net_reach sk n \<Longrightarrow> net_inv n"
proof (induction rule: net_reach.induct)
  case construct
  show ?case
    by (simp add: net_inv_def network_new_def debug_status.defs network_instance.defs)
next
  case (parameters n c cp s sp w n' w')
  show ?case by (rule net_setParameters_inv [OF parameters.IH parameters.hyps(2)])
next
  case (sending n payload sz w n' w')
  then have "network_connection_established n"
    by (auto simp: net_sendToConnection_def outcome_rules)
  from net_send_eq [OF sending.IH this, of sk payload sz w] sending.hyps(2) show ?case by simp
next
  case (receiving n w sz data n' w')
  then show ?case
    by (auto simp: net_receiveFromConnection_def outcome_rules net_inv_def Let_def
        dest!: net_read_into_length)
next
  case (accepting n w n' w')
  then have r: "network_connection_ready n"
    by (auto simp: net_acceptConnection_def outcome_rules)
  then obtain fd a where k: "network_socket_descriptor n = Some fd" "network_server_address n = Some a"
    using accepting.IH by (auto simp: net_inv_def)
  obtain b w1 e peer w3 where s: "sk_bind sk fd a w = (b, w1)"
    "sk_accept sk fd (sk_listen sk fd CONNECTION_BACKLOG w1) = (e, peer, w3)"
    by (metis prod_cases3 surj_pair)
  from accepting.hyps(2) accepting.IH r k s show ?case
    by (cases "b \<ge> 0"; cases "e \<ge> 0")
      (auto simp: net_acceptConnection_def net_inv_def Let_def)
next
  case (connecting n w n' w')
  then have r: "network_connection_ready n" "\<not> network_connection_established n"
    by (auto simp: net_startConnection_def outcome_rules)
  then obtain fd a where k: "network_socket_descriptor n = Some fd" "network_server_address n = Some a"
    using connecting.IH by (auto simp: net_inv_def)
  obtain c w1 where s: "sk_connect sk fd a w = (c, w1)" by fastforce
  from connecting.hyps(2) connecting.IH r k s show ?case
    by (cases "c < 0") (auto simp: net_startConnection_def net_inv_def Let_def)
next
  case (terminating n w n' w')
  then show ?case
    by (auto simp: net_terminateConnection_def net_inv_def Let_def outcome_rules)
qed

section \<open>Properties\<close>

text \<open>Claim C15.  Nothing is ever sent.  The size buffer has one cell per error text, six, and every
  frame is written as 256 cells, so on every established connection a send of any payload and size
  reads outside the buffer (or, for a size of six characters and more, first writes outside it).\<close>

theorem send_overruns_buffer:
  assumes "net_reach sk n" and "network_connection_established n"
  shows "net_sendToConnection sk payload sz n w = Inl Undefined_Behaviour"
  by (rule net_send_eq [OF net_reach_inv [OF assms(1)] assms(2)])

text \<open>A peer that accepts and sends its frames in six bytes, as a list of pending bytes.\<close>

definition local_peer :: "(32 word \<times> string) sockets" where
  "local_peer = \<lparr>
     sk_gethostbyname = (\<lambda>s (a, q). (True, (if s = ''server'' then 10 else 20, q))),
     sk_h_addr = fst, sk_socket = (\<lambda>w. (3, w)), sk_bind = (\<lambda>fd a w. (0, w)),
     sk_listen = (\<lambda>fd b w. w), sk_accept = (\<lambda>fd w. (4, None, w)), sk_connect = (\<lambda>fd a w. (0, w)),
     sk_shutdown = (\<lambda>fd w. w), sk_close = (\<lambda>fd w. w), sk_write = (\<lambda>fd d w. w),
     sk_read = (\<lambda>fd k (a, q). (take (min k 6) q, (a, drop (min k 6) q)))\<rparr>"

definition peer_ready :: network_instance where
  "peer_ready = (case net_setParameters local_peer ''client'' 7000 ''server'' 7001 network_new (0, [])
     of Inl _ \<Rightarrow> network_new | Inr (n, _) \<Rightarrow> n)"

definition peer_connected :: network_instance where
  "peer_connected = peer_ready\<lparr>network_connection_is_client := True,
     network_connection_established := True\<rparr>"

lemma network_new_fields [simp]:
  "network_size_buffer network_new = replicate NETWORK_ERROR_COUNT None"
  "\<not> network_connection_established network_new"
  "\<not> network_connection_ready network_new"
  by (simp_all add: network_new_def debug_status.defs network_instance.defs)

lemma peer_parameters:
  "net_setParameters local_peer ''client'' 7000 ''server'' 7001 network_new (0, q) =
     Inr (network_new\<lparr>network_client_address := Some \<lparr>sin_family = AF_INET,
        sin_port = htons 7000, sin_addr = 10\<rparr>,
        network_server_address := Some \<lparr>sin_family = AF_INET, sin_port = htons 7001, sin_addr = 10\<rparr>,
        network_socket_descriptor := Some 3, network_connection_ready := True,
        debug_class_return_code := Some 0, debug_class_status := ''OK''\<rparr>, (10, q))"
  by (simp add: net_setParameters_def net_initConnection_def local_peer_def Let_def)

lemma peer_ready_fields:
  "network_connection_ready peer_ready" "\<not> network_connection_established peer_ready"
  "network_socket_descriptor peer_ready = Some 3" "network_server_address peer_ready \<noteq> None"
  "network_size_buffer peer_ready = replicate NETWORK_ERROR_COUNT None"
  by (simp_all add: peer_ready_def peer_parameters)

lemma peer_reach: "net_reach local_peer peer_connected"
proof -
  have r: "net_reach local_peer peer_ready"
    using net_reach.parameters [OF net_reach.construct peer_parameters [of "[]"]]
    by (simp add: peer_ready_def peer_parameters)
  obtain a where "network_server_address peer_ready = Some a"
    using peer_ready_fields(4) by blast
  then have "net_startConnection local_peer peer_ready (0, []) = Inr (peer_connected, (0, []))"
    using peer_ready_fields
    by (simp add: net_startConnection_def Let_def local_peer_def peer_connected_def)
  with r show ?thesis by (rule net_reach.connecting)
qed

theorem send_overruns_buffer_witness:
  "net_sendToConnection local_peer (c_str ''hi'') 2 peer_connected (0, []) = Inl Undefined_Behaviour"
  by (rule send_overruns_buffer [OF peer_reach]) (simp add: peer_connected_def)

text \<open>\<open>setParameters\<close> gives both ends the server's address: the two host entries it reads
  are the same library object.  When both names resolve and a socket is had, the instance is
  ready, and yet an error is reported, under the text \<open>OK\<close>.\<close>

theorem parameters_share_address:
  assumes "sk_gethostbyname sk client w = (True, w1)" and "sk_gethostbyname sk server w1 = (True, w2)"
    and "sk_socket sk w2 = (fd, w3)" and "0 \<le> fd"
  shows "\<exists>n' ca sa. net_setParameters sk client cp server sp n w = Inr (n', w3) \<and>
    network_connection_ready n' \<and> network_socket_descriptor n' = Some fd \<and>
    network_client_address n' = Some ca \<and> network_server_address n' = Some sa \<and>
    sin_addr ca = sk_h_addr sk w2 \<and> sin_addr sa = sk_h_addr sk w2 \<and>
    sin_port ca = htons cp \<and> sin_port sa = htons sp \<and>
    debug_class_return_code n' = Some 0 \<and> debug_class_status n' = ''OK''"
  using assms by (simp add: net_setParameters_def net_initConnection_def Let_def)

theorem parameters_share_address_witness:
  "\<exists>n' ca sa. net_setParameters local_peer ''client'' 7000 ''server'' 7001 network_new (0, []) =
      Inr (n', (10, [])) \<and> network_client_address n' = Some ca \<and>
    network_server_address n' = Some sa \<and> sin_addr ca = 10 \<and> sin_addr sa = 10"
  using parameters_share_address [of local_peer "''client''" "(0, [])" "(20, [])" "''server''"
      "(10, [])" 3 "(10, [])" 7000 7001 network_new]
  by (auto simp: local_peer_def)

text \<open>Claim C38.  Receiving a frame that starts with the decimal size and a NUL, as a send would write
  it.  If the first \<open>read\<close>, which asks for 256 bytes, delivers more than the six the size buffer has,
  in particular a whole frame of the code's own 256 bytes, it writes outside the buffer, which is
  undefined.  If it delivers at most six, the call returns exactly that size and an array of that
  many characters, which holds what the second \<open>read\<close> delivers; when that is short the rest of the
  array is not initialised, and the size that is returned is still the one in the frame.\<close>

theorem receive_decodes_frame:
  assumes "net_reach sk n" and "network_connection_established n" and "net_descriptor n = Inr fd"
    and "sk_read sk fd 256 w = (show_int sz @ nul # pad, w1)" and "0 \<le> sz" and "sz < 2 ^ 31"
    and "sk_read sk fd (nat sz) w1 = (data, w2)" and "length data \<le> nat sz"
  shows "if length (show_int sz @ nul # pad) \<le> 6
    then \<exists>n'. net_receiveFromConnection sk n w =
        Inr (sz, map Some data @ replicate (nat sz - length data) None, n', w2) \<and>
      net_inv n' \<and> network_connection_established n'
    else net_receiveFromConnection sk n w = Inl Undefined_Behaviour"
proof -
  have inv: "net_inv n" by (rule net_reach_inv [OF assms(1)])
  have len: "length (network_size_buffer n) = 6"
    using inv by (simp add: net_inv_def NETWORK_ERROR_COUNT_def)
  show ?thesis
  proof (cases "length (show_int sz @ nul # pad) \<le> 6")
    case True
    let ?buf = "map Some (show_int sz) @ Some nul # map Some pad @
      drop (length (show_int sz @ nul # pad)) (network_size_buffer n)"
    have read: "net_read_into sk fd SIZE_BUFFER (network_size_buffer n) w = Inr (?buf, w1)"
      using assms(4) True len by (simp add: net_read_into_def SIZE_BUFFER_def)
    have "atoi ?buf = Inr sz"
      using assms(5,6) by (intro atoi_of_frame) auto
    moreover have "net_read_into sk fd (nat sz) (replicate (nat sz) None) w1 =
        Inr (map Some data @ replicate (nat sz - length data) None, w2)"
      using assms(7,8) by (simp add: net_read_into_def)
    moreover have "net_inv (n\<lparr>network_size_buffer := ?buf\<rparr>)"
      using inv net_read_into_length [OF read] by (simp add: net_inv_def)
    ultimately have "\<exists>n'. net_receiveFromConnection sk n w =
        Inr (sz, map Some data @ replicate (nat sz - length data) None, n', w2) \<and>
      net_inv n' \<and> network_connection_established n'"
      using assms(2,3,5) read
      by (intro exI [of _ "n\<lparr>network_size_buffer := ?buf\<rparr>"])
        (simp add: net_receiveFromConnection_def new_chars_def Let_def)
    with True show ?thesis by simp
  next
    case False
    then have "net_read_into sk fd SIZE_BUFFER (network_size_buffer n) w = Inl Undefined_Behaviour"
      using assms(4) len by (simp add: net_read_into_def SIZE_BUFFER_def)
    with False assms(2,3) show ?thesis
      by (simp add: net_receiveFromConnection_def)
  qed
qed

theorem receive_decodes_frame_witness:
  "\<exists>n'. net_receiveFromConnection local_peer peer_connected
      (0, ''2'' @ [nul, nul, nul, nul, nul] @ ''hi'') = Inr (2, map Some ''hi'', n', (0, []))"
proof -
  have show2: "show_int 2 = ''2''"
    by code_simp
  have "net_descriptor peer_connected = Inr 3"
    by (simp add: net_descriptor_def peer_connected_def peer_ready_fields)
  from receive_decodes_frame [OF peer_reach _ this,
      of "(0, ''2'' @ [nul, nul, nul, nul, nul] @ ''hi'')" 2 "[nul, nul, nul, nul]" "(0, ''hi'')"
      "''hi''" "(0, [])"] show2
  show ?thesis
    by (auto simp: local_peer_def peer_connected_def)
qed

end
