(* ===== verification/Nfs_Concurrency.thy ===== *)
theory Nfs_Concurrency
  imports Nfs_Debug
begin

text \<open>
  \<open>LIBS/defs_concurrency.h\<close>: \<open>concurrency_manager\<close>, which queues tasks and starts each on a
  thread of its own, and keeps a table of variables shared by the tasks.

  The model is the view of the thread that owns the manager. The static members are fields of
  the manager (\<open>Nfs_Managers\<close> has several that share them); \<open>short\<close> is
  \<open>16 word\<close> read as signed. The address of an entry of the table is its name, so an
  address into an erased entry is undefined to follow. A task keeps a pointer to the client's
  vector of names; the vector is assumed to live and stay as it is, as the comment before the
  destructor asks. What a started thread does is the parameter \<open>code\<close>: it gets the
  bound callback and whether it is joined, acts on the manager and on a world \<open>'w\<close>,
  and returns \<open>None\<close> when a joined thread never ends. What it does before the
  starting thread joins or detaches it is in two parts, one right after the thread is created
  and one at the end. Most lemmas here are about tasks that leave the manager alone
  (\<open>world_tasks\<close>); \<open>Nfs_Tasks\<close> has those that call it back. The value
  of \<open>hardware_concurrency()\<close> is the parameter \<open>hw\<close>. The flags are
  cleared with \<open>memory_order_acquire\<close>, which the standard does not allow for \<open>clear\<close>; the
  compiler of the \<open>Makefile\<close> clears the flag all the same, and so does the model. Destroying a
  recurring task enqueues it again, which creates and destroys a task: the recursion is
  \<open>partial_function (option)\<close>, and \<open>None\<close> means that it never ends.
\<close>

section \<open>Steps that fault or never end\<close>

type_synonym 'a run = "'a outcome option"

definition bind_r :: "'a run \<Rightarrow> ('a \<Rightarrow> 'b run) \<Rightarrow> 'b run" where
  "bind_r m f = (case m of None \<Rightarrow> None | Some (Inl e) \<Rightarrow> Some (Inl e) | Some (Inr x) \<Rightarrow> f x)"

lemma bind_r_simps [simp]:
  "bind_r None f = None"
  "bind_r (Some (Inl e)) f = Some (Inl e)"
  "bind_r (Some (Inr x)) f = f x"
  by (simp_all add: bind_r_def)

lemma bind_r_eq_Inr_iff:
  "bind_r m f = Some (Inr y) \<longleftrightarrow> (\<exists>x. m = Some (Inr x) \<and> f x = Some (Inr y))"
  by (auto simp: bind_r_def split: option.splits sum.splits)

section \<open>State\<close>

text \<open>A task's pointer to one of the two exit flags of its manager.\<close>

datatype exit_flag = Scheduled_exit | Permanent_exit

type_synonym 'f task_call = "'f \<times> string list \<times> exit_flag"

record 'f concurrency_thread_task =
  is_exit :: exit_flag
  is_join :: bool
  is_permanent :: bool
  is_reoccuring :: bool
  task_id :: "16 word"
  task_parameters :: "string list"
  task_access_count :: "string list"
  task_callback :: "'f task_call"
  save_function :: 'f
  save_parameters :: "string list"

datatype concurrency_error =
    Cm_cannot_enlist_common_variable
  | Cm_cannot_remove_common_variable
  | Cm_cannot_get_common_variable_lock
  | Cm_cannot_run_task

primrec concurrency_error_code :: "concurrency_error \<Rightarrow> int" where
  "concurrency_error_code Cm_cannot_enlist_common_variable = 0"
| "concurrency_error_code Cm_cannot_remove_common_variable = 1"
| "concurrency_error_code Cm_cannot_get_common_variable_lock = 2"
| "concurrency_error_code Cm_cannot_run_task = 3"

definition concurrency_local_errors :: "string list" where
  "concurrency_local_errors =
     [''Cannot enlist common variable'', ''Cannot remove common variable'',
      ''Cannot get common variable lock'', ''Cannot run task'']"

definition CONCURRENCY_ERROR_COUNT :: nat where
  "CONCURRENCY_ERROR_COUNT = 4"

definition SCHEDULED_THREAD_CONSUMPTION :: "16 word" where
  "SCHEDULED_THREAD_CONSUMPTION = 0"

definition PERMANENT_THREAD_CONSUMPTION :: "16 word" where
  "PERMANENT_THREAD_CONSUMPTION = 1"

text \<open>An entry of the table: the client's pointer, the lock, and the number of accesses.\<close>

type_synonym 'p common_variable = "('p \<times> bool) \<times> 16 word"

record ('f, 'p) concurrency_manager = debug_status +
  concurrency_critical_section :: bool
  concurrency_permanent_thread_count :: "16 word"
  concurrency_scheduled_thread_count :: "16 word"
  concurrency_running_scheduled_tasks :: "16 word"
  concurrency_primary_launch_ran :: bool
  concurrency_scheduled_exit_set :: bool
  concurrency_permanent_exit_set :: bool
  concurrency_local_thread_count :: "16 word"
  concurrency_cpu_count :: "16 word"
  concurrency_system_parameters :: "(string, 'p common_variable) umap"
  concurrency_task_queue :: "'f concurrency_thread_task list"
  concurrency_last_id_death :: "16 word list"

definition cm_report ::
  "concurrency_error \<Rightarrow> ('f, 'p) concurrency_manager \<Rightarrow> ('f, 'p) concurrency_manager outcome" where
  "cm_report e s = setReturnCode (concurrency_error_code e) s"

text \<open>
  The difference is computed in \<open>unsigned\<close> and stored in a \<open>short\<close>; the correction adds one for
  a count that is not positive and one more for a negative one.
\<close>

definition setResources ::
  "32 word \<Rightarrow> ('f, 'p) concurrency_manager \<Rightarrow> ('f, 'p) concurrency_manager" where
  "setResources hw s =
     (let c = ucast (hw - scast (concurrency_permanent_thread_count s)) :: 16 word in
      s\<lparr>concurrency_cpu_count := c + of_bool (sint c \<le> 0) + of_bool (sint c < 0)\<rparr>)"

text \<open>
  The static counters start at the two constants; \<open>concurrency_cpu_count\<close> has no initialiser, but
  the constructor's body assigns it before anything reads it.
\<close>

definition manager_members :: "('f, 'p) concurrency_manager" where
  "manager_members = debug_status.extend
     (debug_status_new concurrency_local_errors
        (getMinClassError + int CONCURRENCY_ERROR_COUNT - 1))
     (concurrency_manager.fields False PERMANENT_THREAD_CONSUMPTION SCHEDULED_THREAD_CONSUMPTION 0
        False False False 0 0 [] [] [])"

definition manager_new :: "32 word \<Rightarrow> ('f, 'p) concurrency_manager" where
  "manager_new hw = setResources hw manager_members"

section \<open>Common variables\<close>

text \<open>\<open>get_lock\<close> tells whether the caller passed a pointer to be set; the address it gets is the name.\<close>

definition enlistCommonVariable ::
  "'p \<Rightarrow> string \<Rightarrow> bool \<Rightarrow> ('f, 'p) concurrency_manager \<Rightarrow>
   (bool \<times> string option \<times> ('f, 'p) concurrency_manager) outcome" where
  "enlistCommonVariable reference lookup get_lock s =
     (let outer_parameter = ((reference, False), 0);
          result = (map_of (concurrency_system_parameters s) lookup = None);
          s1 = (if result
                then s\<lparr>concurrency_system_parameters :=
                  snd (umap_emplace lookup outer_parameter (concurrency_system_parameters s))\<rparr>
                else s) in
      if \<not> result
      then bind_o (cm_report Cm_cannot_enlist_common_variable s1) (\<lambda>s2. Inr (result, None, s2))
      else Inr (result, if get_lock then Some lookup else None, s1))"

text \<open>Storing a flag through the address of an entry's lock.\<close>

definition set_lock ::
  "string \<Rightarrow> bool \<Rightarrow> ('f, 'p) concurrency_manager \<Rightarrow> ('f, 'p) concurrency_manager outcome" where
  "set_lock lookup b s =
     bind_o (defined_o (map_of (concurrency_system_parameters s) lookup)) (\<lambda>((p, _), n).
       Inr (s\<lparr>concurrency_system_parameters :=
              umap_store lookup ((p, b), n) (concurrency_system_parameters s)\<rparr>))"

definition removeCommonVariable ::
  "string \<Rightarrow> ('f, 'p) concurrency_manager \<Rightarrow> (bool \<times> ('f, 'p) concurrency_manager) outcome" where
  "removeCommonVariable lookup s =
     bind_o (case map_of (concurrency_system_parameters s) lookup of
        None \<Rightarrow> Inr (False, s)
      | Some ((_, was_set), _) \<Rightarrow>
          bind_o (set_lock lookup True s) (\<lambda>s1.
          if \<not> was_set then
            bind_o (defined_o (map_of (concurrency_system_parameters s1) lookup)) (\<lambda>(_, uses).
            let result = (uses = 0);
                s2 = (if result
                  then s1\<lparr>concurrency_system_parameters :=
                    umap_erase lookup (concurrency_system_parameters s1)\<rparr>
                  else s1) in
            bind_o (set_lock lookup False s2) (\<lambda>s3. Inr (result, s3)))
          else Inr (False, s1))) (\<lambda>(result, s4).
     if \<not> result
     then bind_o (cm_report Cm_cannot_remove_common_variable s4) (\<lambda>s5. Inr (result, s5))
     else Inr (result, s4))"

definition getCommonVariableLock ::
  "string \<Rightarrow> ('f, 'p) concurrency_manager \<Rightarrow>
   (string option \<times> ('f, 'p) concurrency_manager) outcome" where
  "getCommonVariableLock lookup s =
     (let result = (if map_of (concurrency_system_parameters s) lookup \<noteq> None
                    then Some lookup else None) in
      if result = None
      then bind_o (cm_report Cm_cannot_get_common_variable_lock s) (\<lambda>s1. Inr (result, s1))
      else Inr (result, s))"

section \<open>Creating and destroying a task\<close>

primrec exit_set :: "exit_flag \<Rightarrow> ('f, 'p) concurrency_manager \<Rightarrow> bool" where
  "exit_set Scheduled_exit s = concurrency_scheduled_exit_set s"
| "exit_set Permanent_exit s = concurrency_permanent_exit_set s"

fun count_accesses ::
  "string list \<Rightarrow> ('f, 'p) concurrency_manager \<Rightarrow> ('f, 'p) concurrency_manager outcome" where
  "count_accesses [] s = Inr s"
| "count_accesses (current_element # rest) s =
     (case map_of (concurrency_system_parameters s) current_element of
        None \<Rightarrow> Inl Assertion_Failed
      | Some (v, n) \<Rightarrow> count_accesses rest (s\<lparr>concurrency_system_parameters :=
          umap_store current_element (v, n + 1) (concurrency_system_parameters s)\<rparr>))"

fun release_accesses ::
  "string list \<Rightarrow> ('f, 'p) concurrency_manager \<Rightarrow> ('f, 'p) concurrency_manager outcome" where
  "release_accesses [] s = Inr s"
| "release_accesses (current_access_count # rest) s =
     (case map_of (concurrency_system_parameters s) current_access_count of
        None \<Rightarrow> Inl Undefined_Behaviour
      | Some (v, n) \<Rightarrow> release_accesses rest (s\<lparr>concurrency_system_parameters :=
          umap_store current_access_count (v, n - 1) (concurrency_system_parameters s)\<rparr>))"

definition task_new ::
  "exit_flag \<Rightarrow> bool \<Rightarrow> bool \<Rightarrow> bool \<Rightarrow> 'f \<Rightarrow> string list \<Rightarrow> ('f, 'p) concurrency_manager \<Rightarrow>
   ('f concurrency_thread_task \<times> ('f, 'p) concurrency_manager) outcome" where
  "task_new set_exit set_join set_permanent set_reoccuring function parameters s =
     bind_o (assert_o (\<not> concurrency_primary_launch_ran s \<or> \<not> set_permanent)) (\<lambda>_.
     let s1 = s\<lparr>
           concurrency_permanent_thread_count :=
             concurrency_permanent_thread_count s + of_bool set_permanent,
           concurrency_scheduled_thread_count :=
             concurrency_scheduled_thread_count s + of_bool (\<not> set_permanent),
           concurrency_local_thread_count := concurrency_local_thread_count s + 1\<rparr>;
         (id_has_death, top_id, s2) = (case concurrency_last_id_death s1 of
             [] \<Rightarrow> (False, 0, s1)
           | latest # rest \<Rightarrow> (True, latest, s1\<lparr>concurrency_last_id_death := rest\<rparr>));
         tid = of_bool id_has_death * top_id +
           of_bool (\<not> id_has_death) * concurrency_local_thread_count s2 in
     bind_o (count_accesses parameters s2) (\<lambda>s3.
       Inr (\<lparr>is_exit = set_exit, is_join = set_join, is_permanent = set_permanent,
              is_reoccuring = set_reoccuring, task_id = tid, task_parameters = parameters,
              task_access_count = parameters, task_callback = (function, parameters, set_exit),
              save_function = function, save_parameters = parameters\<rparr>, s3)))"

text \<open>The first half of the destructor, up to its branch.\<close>

definition task_dying ::
  "'f concurrency_thread_task \<Rightarrow> ('f, 'p) concurrency_manager \<Rightarrow>
   ('f, 'p) concurrency_manager outcome" where
  "task_dying t s =
     bind_o (assert_o (\<not> is_permanent t \<or> exit_set (is_exit t) s)) (\<lambda>_.
       Inr (s\<lparr>concurrency_running_scheduled_tasks := concurrency_running_scheduled_tasks s - 1\<rparr>))"

text \<open>The body of \<open>enqueueTask\<close> up to the copy of \<open>to_add\<close> in the queue.\<close>

definition enqueue_copy ::
  "bool \<Rightarrow> bool \<Rightarrow> bool \<Rightarrow> 'f \<Rightarrow> string list \<Rightarrow> ('f, 'p) concurrency_manager \<Rightarrow>
   ('f concurrency_thread_task \<times> ('f, 'p) concurrency_manager) outcome" where
  "enqueue_copy set_join set_permanent set_reoccuring function parameters s =
     bind_o (assert_o (\<not> concurrency_primary_launch_ran s \<or> \<not> set_permanent)) (\<lambda>_.
     let exit_pointer = (if set_permanent then Permanent_exit else Scheduled_exit) in
     bind_o (task_new exit_pointer set_join set_permanent set_reoccuring function parameters s)
       (\<lambda>(to_add, s1).
     Inr (to_add, s1\<lparr>concurrency_task_queue :=
       (if \<not> set_permanent then to_add # concurrency_task_queue s1
        else concurrency_task_queue s1 @ [to_add])\<rparr>)))"

text \<open>
  \<open>to_add\<close> is a local variable: leaving \<open>enqueueTask\<close> runs its destructor, which calls
  \<open>enqueueTask\<close> again for a recurring task.
\<close>

partial_function (option) enqueueTask ::
  "bool \<Rightarrow> bool \<Rightarrow> bool \<Rightarrow> 'f \<Rightarrow> string list \<Rightarrow> ('f, 'p) concurrency_manager \<Rightarrow>
   ('f, 'p) concurrency_manager run" where
  "enqueueTask set_join set_permanent set_reoccuring function parameters s =
     (case bind_o (enqueue_copy set_join set_permanent set_reoccuring function parameters s)
             (\<lambda>(to_add, s1). bind_o (task_dying to_add s1) (\<lambda>s2. Inr (to_add, s2))) of
        Inl e \<Rightarrow> Some (Inl e)
      | Inr (to_add, s2) \<Rightarrow>
          if is_reoccuring to_add \<and> \<not> exit_set (is_exit to_add) s2
          then enqueueTask (is_join to_add) (is_permanent to_add) (is_reoccuring to_add)
                 (save_function to_add) (save_parameters to_add) s2
          else Some (release_accesses (task_access_count to_add) s2))"

definition task_destroy ::
  "'f concurrency_thread_task \<Rightarrow> ('f, 'p) concurrency_manager \<Rightarrow>
   ('f, 'p) concurrency_manager run" where
  "task_destroy t s =
     bind_r (Some (task_dying t s)) (\<lambda>s1.
       if is_reoccuring t \<and> \<not> exit_set (is_exit t) s1
       then enqueueTask (is_join t) (is_permanent t) (is_reoccuring t) (save_function t)
              (save_parameters t) s1
       else Some (release_accesses (task_access_count t) s1))"

section \<open>Running tasks\<close>

text \<open>What a started task does, right after its thread is created and until it is joined or detached.\<close>

datatype task_phase = At_creation | At_join

type_synonym ('f, 'p, 'w) task_code =
  "task_phase \<Rightarrow> 'f task_call \<Rightarrow> bool \<Rightarrow> ('f, 'p) concurrency_manager \<Rightarrow> 'w \<Rightarrow>
   (('f, 'p) concurrency_manager \<times> 'w) run"

text \<open>Tasks that leave the manager alone, so that it does not matter when they run.\<close>

fun world_tasks :: "('f task_call \<Rightarrow> bool \<Rightarrow> 'w \<Rightarrow> 'w run) \<Rightarrow> ('f, 'p, 'w) task_code" where
  "world_tasks start At_creation c joined s w = Some (Inr (s, w))"
| "world_tasks start At_join c joined s w =
     bind_r (start c joined w) (\<lambda>w1. Some (Inr (s, w1)))"

text \<open>
  \<open>list::sort\<close> with the comparison "the first task is not selected".  With two elements or more
  a comparison that holds between a task and itself is undefined; without such a task nothing is
  less than anything, and the stable sort keeps the order.
\<close>

definition forwardTasks ::
  "16 word list \<Rightarrow> ('f, 'p) concurrency_manager \<Rightarrow> ('f, 'p) concurrency_manager outcome" where
  "forwardTasks task_ids s =
     bind_o (assert_o (concurrency_primary_launch_ran s)) (\<lambda>_.
     let less = (\<lambda>(first :: 'f concurrency_thread_task) (second :: 'f concurrency_thread_task).
           task_id first \<notin> set task_ids);
         queue = concurrency_task_queue s in
     if 2 \<le> length queue \<and> list_ex (\<lambda>t. less t t) queue then Inl Undefined_Behaviour
     else Inr (s\<lparr>concurrency_task_queue := queue\<rparr>))"

text \<open>
  \<open>poped_task\<close> points to the element at the back when the task is started; \<open>pop_back\<close> removes and
  destroys the element that is at the back when the task has been joined or detached.
\<close>

definition runTask ::
  "('f, 'p, 'w) task_code \<Rightarrow> 32 word \<Rightarrow> bool \<Rightarrow> ('f, 'p) concurrency_manager \<Rightarrow> 'w \<Rightarrow>
   (bool \<times> ('f, 'p) concurrency_manager \<times> 'w) run" where
  "runTask code hw ignore_allocation s w =
     bind_r
       (let was_set = concurrency_critical_section s;
            s0 = s\<lparr>concurrency_critical_section := True\<rparr> in
        if \<not> was_set \<and> \<not> concurrency_scheduled_exit_set s0 then
          bind_r (if concurrency_task_queue s0 \<noteq> [] then
              let s1 = setResources hw s0;
                  available_task_allocation =
                    concurrency_cpu_count s1 - concurrency_running_scheduled_tasks s1 in
              if 0 < sint available_task_allocation \<or> ignore_allocation then
                let poped_task = last (concurrency_task_queue s1) in
                bind_r (code At_creation (task_callback poped_task) (is_join poped_task) s1 w)
                  (\<lambda>(s2, w2).
                let s3 = s2\<lparr>
                      concurrency_running_scheduled_tasks :=
                        concurrency_running_scheduled_tasks s2 + 1,
                      concurrency_local_thread_count := concurrency_local_thread_count s2 - 1,
                      concurrency_last_id_death :=
                        task_id poped_task # concurrency_last_id_death s2,
                      concurrency_scheduled_thread_count :=
                        concurrency_scheduled_thread_count s2 - of_bool (\<not> is_permanent poped_task)\<rparr> in
                bind_r (code At_join (task_callback poped_task) (is_join poped_task) s3 w2)
                  (\<lambda>(s4, w4).
                bind_r (Some (back_o (concurrency_task_queue s4))) (\<lambda>dead.
                bind_r (task_destroy dead
                    (s4\<lparr>concurrency_task_queue := butlast (concurrency_task_queue s4)\<rparr>)) (\<lambda>s5.
                  Some (Inr (True, s5, w4))))))
              else Some (Inr (False, s1, w))
            else Some (Inr (False, s0, w))) (\<lambda>(result, s6, w6).
          Some (Inr (result, s6\<lparr>concurrency_critical_section := False\<rparr>, w6)))
        else Some (Inr (False, s0, w))) (\<lambda>(result, s7, w7).
     if \<not> result
     then bind_r (Some (cm_report Cm_cannot_run_task s7)) (\<lambda>s8. Some (Inr (result, s8, w7)))
     else Some (Inr (result, s7, w7)))"

text \<open>The calls of \<open>runTask(true)\<close> in \<open>forceTasks\<close>, whose results are not read.\<close>

fun force_each ::
  "('f, 'p, 'w) task_code \<Rightarrow> 32 word \<Rightarrow> nat \<Rightarrow> ('f, 'p) concurrency_manager \<Rightarrow> 'w \<Rightarrow>
   (('f, 'p) concurrency_manager \<times> 'w) run" where
  "force_each code hw 0 s w = Some (Inr (s, w))"
| "force_each code hw (Suc size_left) s w =
     bind_r (runTask code hw True s w) (\<lambda>(_, s1, w1). force_each code hw size_left s1 w1)"

definition forceTasks ::
  "('f, 'p, 'w) task_code \<Rightarrow> 32 word \<Rightarrow> 16 word list \<Rightarrow>
   ('f, 'p) concurrency_manager \<Rightarrow> 'w \<Rightarrow> (('f, 'p) concurrency_manager \<times> 'w) run" where
  "forceTasks code hw task_ids s w =
     bind_r (Some (assert_o (concurrency_primary_launch_ran s))) (\<lambda>_.
     bind_r (Some (forwardTasks task_ids s)) (\<lambda>s1. force_each code hw (length task_ids) s1 w))"

definition setTasks ::
  "('f, 'p) concurrency_manager \<Rightarrow> ('f, 'p) concurrency_manager outcome" where
  "setTasks s = bind_o (assert_o (concurrency_primary_launch_ran s)) (\<lambda>_.
     Inr (s\<lparr>concurrency_scheduled_exit_set := False\<rparr>))"

definition endTasks ::
  "('f, 'p) concurrency_manager \<Rightarrow> ('f, 'p) concurrency_manager outcome" where
  "endTasks s = bind_o (assert_o (concurrency_primary_launch_ran s)) (\<lambda>_.
     Inr (s\<lparr>concurrency_scheduled_exit_set := True\<rparr>))"

text \<open>\<open>while(!runTask());\<close>\<close>

partial_function (option) run_until_started ::
  "('f, 'p, 'w) task_code \<Rightarrow> 32 word \<Rightarrow> ('f, 'p) concurrency_manager \<Rightarrow> 'w \<Rightarrow>
   (('f, 'p) concurrency_manager \<times> 'w) run" where
  "run_until_started code hw s w =
     (case runTask code hw False s w of
        None \<Rightarrow> None
      | Some r \<Rightarrow> (case r of
            Inl e \<Rightarrow> Some (Inl e)
          | Inr (result, s1, w1) \<Rightarrow>
              if result then Some (Inr (s1, w1)) else run_until_started code hw s1 w1))"

fun launch_all ::
  "('f, 'p, 'w) task_code \<Rightarrow> 32 word \<Rightarrow> nat \<Rightarrow> ('f, 'p) concurrency_manager \<Rightarrow> 'w \<Rightarrow>
   (('f, 'p) concurrency_manager \<times> 'w) run" where
  "launch_all code hw 0 s w = Some (Inr (s, w))"
| "launch_all code hw (Suc list_size) s w =
     bind_r (run_until_started code hw s w) (\<lambda>(s1, w1). launch_all code hw list_size s1 w1)"

text \<open>\<open>list_size\<close> is a \<open>short\<close>: the size of the queue is cut to 16 bits.\<close>

definition setAllTasks ::
  "('f, 'p, 'w) task_code \<Rightarrow> 32 word \<Rightarrow> ('f, 'p) concurrency_manager \<Rightarrow> 'w \<Rightarrow>
   (('f, 'p) concurrency_manager \<times> 'w) run" where
  "setAllTasks code hw s w =
     (let list_size = (of_nat (length (concurrency_task_queue s)) :: 16 word) in
      bind_r (launch_all code hw (nat (sint list_size)) s w) (\<lambda>(s1, w1).
        Some (Inr (s1\<lparr>concurrency_scheduled_exit_set := False,
          concurrency_permanent_exit_set := False, concurrency_primary_launch_ran := True\<rparr>, w1))))"

definition endAllTasks ::
  "('f, 'p) concurrency_manager \<Rightarrow> ('f, 'p) concurrency_manager outcome" where
  "endAllTasks s = bind_o (assert_o (concurrency_primary_launch_ran s)) (\<lambda>_.
     Inr (s\<lparr>concurrency_scheduled_exit_set := True, concurrency_permanent_exit_set := True,
       concurrency_primary_launch_ran := False\<rparr>))"

section \<open>Reports\<close>

interpretation cm_errors: class_errors concurrency_error_code concurrency_local_errors
proof unfold_locales
  fix e
  show "0 \<le> concurrency_error_code e \<and>
      concurrency_error_code e < int (length concurrency_local_errors)"
    by (cases e) (simp_all add: concurrency_local_errors_def)
qed (simp add: concurrency_local_errors_def)

lemma cm_report_simps [simp]:
  "cm_report Cm_cannot_enlist_common_variable s =
     Inr (s\<lparr>debug_class_return_code := Some 0, debug_class_status := ''OK''\<rparr>)"
  "cm_report Cm_cannot_remove_common_variable s =
     Inr (s\<lparr>debug_class_return_code := Some 1, debug_class_status := ''Allocation failed''\<rparr>)"
  "cm_report Cm_cannot_get_common_variable_lock s = Inl Assertion_Failed"
  "cm_report Cm_cannot_run_task s = Inl Assertion_Failed"
  unfolding cm_report_def cm_errors.report_cases by simp_all

section \<open>Access counts\<close>

text \<open>Adding \<open>d\<close> to the count of each entry as often as its name occurs in a list.\<close>

definition add_accesses ::
  "16 word \<Rightarrow> string list \<Rightarrow> (string, 'p common_variable) umap \<Rightarrow> (string, 'p common_variable) umap" where
  "add_accesses d ks m = map (\<lambda>(k, v, n). (k, v, n + d * of_nat (count_list ks k))) m"

lemma add_accesses_keys [simp]: "map fst (add_accesses d ks m) = map fst m"
  by (induction m) (auto simp: add_accesses_def)

lemma add_accesses_ok [simp]: "umap_ok (add_accesses d ks m) = umap_ok m"
  by (simp add: umap_ok_def)

lemma add_accesses_Nil [simp]: "add_accesses d [] m = m"
  by (induction m) (auto simp: add_accesses_def)

lemma map_of_add_accesses:
  "map_of (add_accesses d ks m) k =
     map_option (\<lambda>(v, n). (v, n + d * of_nat (count_list ks k))) (map_of m k)"
  by (induction m) (auto simp: add_accesses_def)

lemma add_accesses_None [simp]:
  "map_of (add_accesses d ks m) k = None \<longleftrightarrow> map_of m k = None"
  by (simp add: map_of_add_accesses)

lemma add_accesses_Cons:
  "add_accesses d ks (add_accesses d [k] m) = add_accesses d (k # ks) m"
  by (induction m) (auto simp: add_accesses_def algebra_simps)

lemma add_accesses_undo: "add_accesses (- 1) ks (add_accesses 1 ks m) = m"
  by (induction m) (auto simp: add_accesses_def)

lemma add_accesses_store:
  assumes "umap_ok m" and "map_of m k = Some (v, n)"
  shows "umap_store k (v, n + d) m = add_accesses d [k] m"
  using assms
proof (induction m)
  case (Cons x m)
  obtain k' v' n' where x: "x = (k', v', n')" by (cases x)
  show ?case
  proof (cases "k' = k")
    case True
    with Cons.prems x have "k \<notin> fst ` set m" by (auto simp: map_of_eq_None_iff)
    moreover from this have "add_accesses d [k] m = m"
      by (induction m) (auto simp: add_accesses_def)
    ultimately show ?thesis
      using Cons.prems x True umap_store_other [of k m "(v, n + d)"]
      by (auto simp: add_accesses_def umap_store_def)
  next
    case False
    with Cons.prems x Cons.IH show ?thesis by (auto simp: add_accesses_def umap_store_def)
  qed
qed simp

lemma count_accesses_eq:
  "umap_ok (concurrency_system_parameters s) \<Longrightarrow>
   count_accesses ks s =
     (if \<forall>k \<in> set ks. map_of (concurrency_system_parameters s) k \<noteq> None
      then Inr (s\<lparr>concurrency_system_parameters :=
             add_accesses 1 ks (concurrency_system_parameters s)\<rparr>)
      else Inl Assertion_Failed)"
proof (induction ks arbitrary: s)
  case (Cons k ks)
  show ?case
  proof (cases "map_of (concurrency_system_parameters s) k")
    case (Some x)
    moreover obtain v n where "x = (v, n)" by (cases x)
    ultimately show ?thesis
      using Cons.prems
      by (auto simp: Cons.IH add_accesses_store add_accesses_Cons simp del: not_None_eq)
  qed simp
qed simp

lemma release_accesses_eq:
  "umap_ok (concurrency_system_parameters s) \<Longrightarrow>
   \<forall>k \<in> set ks. map_of (concurrency_system_parameters s) k \<noteq> None \<Longrightarrow>
   release_accesses ks s =
     Inr (s\<lparr>concurrency_system_parameters :=
       add_accesses (- 1) ks (concurrency_system_parameters s)\<rparr>)"
proof (induction ks arbitrary: s)
  case (Cons k ks)
  then obtain v n where k: "map_of (concurrency_system_parameters s) k = Some (v, n)" by auto
  have store: "umap_store k (v, n - 1) (concurrency_system_parameters s) =
      add_accesses (- 1) [k] (concurrency_system_parameters s)"
    using add_accesses_store [OF Cons.prems(1) k, of "- 1"] by simp
  show ?case
    using Cons.prems k store by (simp add: Cons.IH add_accesses_Cons del: not_None_eq)
qed simp

section \<open>The operations on consistent managers\<close>

definition cm_enlisted :: "string list \<Rightarrow> ('f, 'p) concurrency_manager \<Rightarrow> bool" where
  "cm_enlisted ks s \<longleftrightarrow> (\<forall>k \<in> set ks. map_of (concurrency_system_parameters s) k \<noteq> None)"

definition exit_flag_of :: "bool \<Rightarrow> exit_flag" where
  "exit_flag_of permanent = (if permanent then Permanent_exit else Scheduled_exit)"

text \<open>The identifier the next task gets, and the manager that holds the task.\<close>

definition next_id :: "('f, 'p) concurrency_manager \<Rightarrow> 16 word" where
  "next_id s = (case concurrency_last_id_death s of
     [] \<Rightarrow> concurrency_local_thread_count s + 1 | t # _ \<Rightarrow> t)"

definition next_task ::
  "bool \<Rightarrow> bool \<Rightarrow> bool \<Rightarrow> 'f \<Rightarrow> string list \<Rightarrow> ('f, 'p) concurrency_manager \<Rightarrow> 'f concurrency_thread_task" where
  "next_task j p r f ks s = \<lparr>is_exit = exit_flag_of p, is_join = j, is_permanent = p,
     is_reoccuring = r, task_id = next_id s, task_parameters = ks, task_access_count = ks,
     task_callback = (f, ks, exit_flag_of p), save_function = f, save_parameters = ks\<rparr>"

definition with_task ::
  "bool \<Rightarrow> bool \<Rightarrow> bool \<Rightarrow> 'f \<Rightarrow> string list \<Rightarrow> ('f, 'p) concurrency_manager \<Rightarrow> ('f, 'p) concurrency_manager" where
  "with_task j p r f ks s = s\<lparr>
     concurrency_permanent_thread_count := concurrency_permanent_thread_count s + of_bool p,
     concurrency_scheduled_thread_count := concurrency_scheduled_thread_count s + of_bool (\<not> p),
     concurrency_running_scheduled_tasks := concurrency_running_scheduled_tasks s - 1,
     concurrency_local_thread_count := concurrency_local_thread_count s + 1,
     concurrency_last_id_death := tl (concurrency_last_id_death s),
     concurrency_task_queue := (if p then concurrency_task_queue s @ [next_task j p r f ks s]
        else next_task j p r f ks s # concurrency_task_queue s)\<rparr>"

definition task_copied ::
  "bool \<Rightarrow> bool \<Rightarrow> bool \<Rightarrow> 'f \<Rightarrow> string list \<Rightarrow> ('f, 'p) concurrency_manager \<Rightarrow> ('f, 'p) concurrency_manager" where
  "task_copied j p r f ks s = (with_task j p r f ks s)\<lparr>concurrency_system_parameters :=
     add_accesses 1 ks (concurrency_system_parameters s)\<rparr>"

lemma enqueue_dying_eq:
  assumes "umap_ok (concurrency_system_parameters s)"
  shows "bind_o (enqueue_copy j p r f ks s) (\<lambda>(t, s1). bind_o (task_dying t s1) (\<lambda>s2. Inr (t, s2))) =
    (if p \<and> (concurrency_primary_launch_ran s \<or> \<not> concurrency_permanent_exit_set s) \<or>
        \<not> cm_enlisted ks s
     then Inl Assertion_Failed else Inr (next_task j p r f ks s, task_copied j p r f ks s))"
  using assms
  by (cases p; cases "concurrency_last_id_death s")
     (simp_all add: enqueue_copy_def task_new_def task_dying_def count_accesses_eq cm_enlisted_def
       next_task_def next_id_def with_task_def task_copied_def exit_flag_of_def assert_o_def Let_def)

lemma task_copied_simps [simp]:
  "concurrency_scheduled_exit_set (task_copied j p r f ks s) = concurrency_scheduled_exit_set s"
  "concurrency_permanent_exit_set (task_copied j p r f ks s) = concurrency_permanent_exit_set s"
  "concurrency_system_parameters (task_copied j p r f ks s) =
     add_accesses 1 ks (concurrency_system_parameters s)"
  "exit_set e (task_copied j p r f ks s) = exit_set e s"
  by (cases e; simp add: task_copied_def with_task_def)+

lemma next_task_simps [simp]:
  "is_exit (next_task j p r f ks s) = exit_flag_of p" "is_join (next_task j p r f ks s) = j"
  "is_permanent (next_task j p r f ks s) = p" "is_reoccuring (next_task j p r f ks s) = r"
  "save_function (next_task j p r f ks s) = f" "save_parameters (next_task j p r f ks s) = ks"
  "task_access_count (next_task j p r f ks s) = ks" "task_id (next_task j p r f ks s) = next_id s"
  "task_callback (next_task j p r f ks s) = (f, ks, exit_flag_of p)"
  by (simp_all add: next_task_def)

lemma recurring_never_ends:
  fixes s :: "('f, 'p) concurrency_manager"
  assumes "umap_ok (concurrency_system_parameters s)" and "cm_enlisted ks s"
    and "\<not> concurrency_scheduled_exit_set s"
  shows "enqueueTask j False True f ks s = None"
proof (rule ccontr)
  assume "enqueueTask j False True f ks s \<noteq> None"
  then obtain y where "enqueueTask j False True f ks s = Some y" by auto
  moreover have "enqueueTask j p r f ks s = Some y \<Longrightarrow> \<not> p \<longrightarrow> r \<longrightarrow>
      umap_ok (concurrency_system_parameters s) \<longrightarrow> cm_enlisted ks s \<longrightarrow>
      concurrency_scheduled_exit_set s" for j p r f ks and s :: "('f, 'p) concurrency_manager"
  proof (induction rule: enqueueTask.raw_induct [rotated, consumes 1, case_names step])
    case (step enq j p r f ks s y)
    show ?case
    proof (intro impI, rule ccontr)
      assume asm: "\<not> p" "r" "umap_ok (concurrency_system_parameters s)" "cm_enlisted ks s"
        "\<not> concurrency_scheduled_exit_set s"
      with step(2) have "enq j False True f ks (task_copied j False True f ks s) = Some y"
        by (simp add: enqueue_dying_eq exit_flag_of_def)
      from step(1) [OF this] asm show False
        by (simp add: cm_enlisted_def del: not_None_eq)
    qed
  qed
  ultimately show False using assms by blast
qed

lemma enqueueTask_eq:
  assumes "umap_ok (concurrency_system_parameters s)"
  shows "enqueueTask j p r f ks s =
    (if p \<and> (concurrency_primary_launch_ran s \<or> \<not> concurrency_permanent_exit_set s) \<or>
        \<not> cm_enlisted ks s
     then Some (Inl Assertion_Failed)
     else if r \<and> \<not> p \<and> \<not> concurrency_scheduled_exit_set s then None
     else Some (Inr (with_task j p r f ks s)))"
proof -
  have "concurrency_system_parameters s = add_accesses (- 1) ks (add_accesses 1 ks
      (concurrency_system_parameters s))" by (simp add: add_accesses_undo)
  then have undo: "(task_copied j p r f ks s)\<lparr>concurrency_system_parameters := add_accesses (- 1) ks
      (add_accesses 1 ks (concurrency_system_parameters s))\<rparr> = with_task j p r f ks s"
    by (simp add: task_copied_def with_task_def)
  show ?thesis
  proof (cases "r \<and> \<not> p \<and> \<not> concurrency_scheduled_exit_set s \<and> cm_enlisted ks s")
    case True
    with assms recurring_never_ends [of s ks] show ?thesis by simp
  next
    case False
    then show ?thesis
      using assms undo
      by (subst enqueueTask.simps)
         (auto simp: enqueue_dying_eq exit_flag_of_def cm_enlisted_def release_accesses_eq
           simp del: not_None_eq)
  qed
qed

lemma setResources_simps [simp]:
  "concurrency_critical_section (setResources hw s) = concurrency_critical_section s"
  "concurrency_running_scheduled_tasks (setResources hw s) = concurrency_running_scheduled_tasks s"
  "concurrency_permanent_thread_count (setResources hw s) = concurrency_permanent_thread_count s"
  "concurrency_scheduled_exit_set (setResources hw s) = concurrency_scheduled_exit_set s"
  "concurrency_permanent_exit_set (setResources hw s) = concurrency_permanent_exit_set s"
  "concurrency_primary_launch_ran (setResources hw s) = concurrency_primary_launch_ran s"
  "concurrency_local_thread_count (setResources hw s) = concurrency_local_thread_count s"
  "concurrency_system_parameters (setResources hw s) = concurrency_system_parameters s"
  "concurrency_task_queue (setResources hw s) = concurrency_task_queue s"
  "concurrency_last_id_death (setResources hw s) = concurrency_last_id_death s"
  by (simp_all add: setResources_def Let_def)

section \<open>Invariant\<close>

definition task_ok :: "'f concurrency_thread_task \<Rightarrow> ('f, 'p) concurrency_manager \<Rightarrow> bool" where
  "task_ok t s \<longleftrightarrow> cm_enlisted (task_access_count t) s \<and>
     save_parameters t = task_access_count t \<and> is_exit t = exit_flag_of (is_permanent t)"

text \<open>
  The identifiers of the queued tasks and the free ones are all different, and together they are
  the numbers from 1 on.
\<close>

definition cm_ids :: "('f, 'p) concurrency_manager \<Rightarrow> 16 word list" where
  "cm_ids s = map task_id (concurrency_task_queue s) @ concurrency_last_id_death s"

definition ids_ok :: "('f, 'p) concurrency_manager \<Rightarrow> bool" where
  "ids_ok s \<longleftrightarrow> concurrency_local_thread_count s = of_nat (length (concurrency_task_queue s)) \<and>
     distinct (cm_ids s) \<and> set (cm_ids s) = of_nat ` {1..length (cm_ids s)} \<and>
     length (cm_ids s) < 2 ^ 15"

definition cm_inv :: "('f, 'p) concurrency_manager \<Rightarrow> bool" where
  "cm_inv s \<longleftrightarrow> umap_ok (concurrency_system_parameters s) \<and> \<not> concurrency_critical_section s \<and>
     (\<forall>t \<in> set (concurrency_task_queue s). task_ok t s \<and>
        (is_permanent t \<longrightarrow> concurrency_permanent_exit_set s)) \<and>
     (concurrency_permanent_exit_set s \<longrightarrow>
        concurrency_scheduled_exit_set s \<and> \<not> concurrency_primary_launch_ran s) \<and>
     ids_ok s"

lemma manager_members_simps [simp]:
  "concurrency_critical_section manager_members = False"
  "concurrency_running_scheduled_tasks manager_members = 0"
  "concurrency_permanent_thread_count manager_members = 1"
  "concurrency_scheduled_exit_set manager_members = False"
  "concurrency_permanent_exit_set manager_members = False"
  "concurrency_primary_launch_ran manager_members = False"
  "concurrency_local_thread_count manager_members = 0"
  "concurrency_system_parameters manager_members = []"
  "concurrency_task_queue manager_members = []"
  "concurrency_last_id_death manager_members = []"
  by (simp_all add: manager_members_def debug_status.defs concurrency_manager.defs
      PERMANENT_THREAD_CONSUMPTION_def)

lemma cm_inv_new: "cm_inv (manager_new hw)"
  by (simp add: cm_inv_def ids_ok_def cm_ids_def manager_new_def)

lemma cm_inv_parameters:
  assumes "cm_inv s" and "umap_ok m"
    and "\<And>k. map_of (concurrency_system_parameters s) k \<noteq> None \<Longrightarrow> map_of m k \<noteq> None"
  shows "cm_inv (s\<lparr>concurrency_system_parameters := m\<rparr>)"
  using assms by (simp add: cm_inv_def task_ok_def cm_enlisted_def ids_ok_def cm_ids_def del: not_None_eq)

lemma of_nat_word16_inject: "i < 2 ^ 15 \<Longrightarrow> j < 2 ^ 15 \<Longrightarrow> (of_nat i :: 16 word) = of_nat j \<Longrightarrow> i = j"
  by (simp add: word_of_nat_eq_iff take_bit_eq_mod)

lemma sint_of_nat_small: "n < 2 ^ 15 \<Longrightarrow> sint (of_nat n :: 16 word) = int n"
  by (simp add: signed_of_nat signed_take_bit_int_eq_self)

lemma next_id_fresh:
  assumes "ids_ok s" and "length (concurrency_task_queue s) < 2 ^ 15 - 1"
  shows "ids_ok (with_task j p r f ks s)"
proof (cases "concurrency_last_id_death s")
  case Nil
  let ?n = "length (concurrency_task_queue s)"
  have id: "next_id s = of_nat (Suc ?n)"
    using assms(1) Nil by (simp add: next_id_def ids_ok_def)
  have old: "set (map task_id (concurrency_task_queue s)) = of_nat ` {1..?n}"
    "distinct (map task_id (concurrency_task_queue s))"
    using assms(1) Nil by (simp_all add: ids_ok_def cm_ids_def)
  have fresh: "(of_nat (Suc ?n) :: 16 word) \<notin> of_nat ` {1..?n}"
  proof
    assume "(of_nat (Suc ?n) :: 16 word) \<in> of_nat ` {1..?n}"
    then obtain i where i: "i \<in> {1..?n}" "(of_nat (Suc ?n) :: 16 word) = of_nat i" by blast
    with of_nat_word16_inject [of "Suc ?n" i] assms(2) show False by auto
  qed
  have "insert (of_nat (Suc ?n) :: 16 word) (of_nat ` {1..?n}) = of_nat ` {1..Suc ?n}"
    by (simp add: atLeastAtMostSuc_conv)
  with id old fresh assms Nil show ?thesis
    by (simp add: ids_ok_def cm_ids_def with_task_def del: of_nat_Suc; simp add: algebra_simps)
next
  case (Cons t ts)
  with assms show ?thesis
    by (auto simp: ids_ok_def cm_ids_def with_task_def next_id_def)
qed

lemma with_task_simps [simp]:
  "concurrency_critical_section (with_task j p r f ks s) = concurrency_critical_section s"
  "concurrency_running_scheduled_tasks (with_task j p r f ks s) =
     concurrency_running_scheduled_tasks s - 1"
  "concurrency_permanent_thread_count (with_task j p r f ks s) =
     concurrency_permanent_thread_count s + of_bool p"
  "concurrency_scheduled_exit_set (with_task j p r f ks s) = concurrency_scheduled_exit_set s"
  "concurrency_permanent_exit_set (with_task j p r f ks s) = concurrency_permanent_exit_set s"
  "concurrency_primary_launch_ran (with_task j p r f ks s) = concurrency_primary_launch_ran s"
  "concurrency_system_parameters (with_task j p r f ks s) = concurrency_system_parameters s"
  "concurrency_task_queue (with_task j p r f ks s) =
     (if p then concurrency_task_queue s @ [next_task j p r f ks s]
      else next_task j p r f ks s # concurrency_task_queue s)"
  by (simp_all add: with_task_def)

lemma task_ok_parameters:
  "concurrency_system_parameters s = concurrency_system_parameters s' \<Longrightarrow> task_ok t s = task_ok t s'"
  by (simp add: task_ok_def cm_enlisted_def)

lemma enqueueTask_inv:
  assumes inv: "cm_inv s" and room: "length (concurrency_task_queue s) < 2 ^ 15 - 1"
    and ret: "enqueueTask j p r f ks s = Some (Inr s')"
  shows "cm_inv s'"
proof -
  have ok: "umap_ok (concurrency_system_parameters s)" using inv by (simp add: cm_inv_def)
  from ret enqueueTask_eq [OF ok, of j p r f ks]
  have s': "s' = with_task j p r f ks s" "cm_enlisted ks s"
    and p: "p \<Longrightarrow> concurrency_permanent_exit_set s \<and> \<not> concurrency_primary_launch_ran s"
    by (auto split: if_splits)
  have "ids_ok (with_task j p r f ks s)"
    using next_id_fresh [OF _ room] inv by (simp add: cm_inv_def)
  with inv s' p show ?thesis
    by (auto simp: cm_inv_def task_ok_parameters [of "with_task j p r f ks s" s])
       (simp_all add: task_ok_def cm_enlisted_def)
qed

section \<open>Running a task\<close>

text \<open>What is left when the task at the back has been started and destroyed.\<close>

definition after_run :: "32 word \<Rightarrow> ('f, 'p) concurrency_manager \<Rightarrow> ('f, 'p) concurrency_manager" where
  "after_run hw s = (let t = last (concurrency_task_queue s) in (setResources hw s)\<lparr>
     concurrency_scheduled_thread_count :=
       concurrency_scheduled_thread_count s - of_bool (\<not> is_permanent t),
     concurrency_local_thread_count := concurrency_local_thread_count s - 1,
     concurrency_last_id_death := task_id t # concurrency_last_id_death s,
     concurrency_task_queue := butlast (concurrency_task_queue s),
     concurrency_system_parameters :=
       add_accesses (- 1) (task_access_count t) (concurrency_system_parameters s)\<rparr>)"

definition cm_available :: "32 word \<Rightarrow> ('f, 'p) concurrency_manager \<Rightarrow> 16 word" where
  "cm_available hw s =
     concurrency_cpu_count (setResources hw s) - concurrency_running_scheduled_tasks s"

lemma task_destroy_eq:
  assumes "umap_ok (concurrency_system_parameters s)" and "task_ok t s" and "\<not> is_permanent t"
    and "\<not> concurrency_scheduled_exit_set s"
  shows "task_destroy t s = (if is_reoccuring t then None
    else Some (Inr (s\<lparr>
      concurrency_running_scheduled_tasks := concurrency_running_scheduled_tasks s - 1,
      concurrency_system_parameters :=
        add_accesses (- 1) (task_access_count t) (concurrency_system_parameters s)\<rparr>)))"
  using assms
  by (simp add: task_destroy_def task_dying_def exit_flag_of_def task_ok_def cm_enlisted_def
      recurring_never_ends release_accesses_eq del: not_None_eq)

lemma runTask_eq:
  assumes inv: "cm_inv s"
  defines "t \<equiv> last (concurrency_task_queue s)"
  shows "runTask (world_tasks start) hw ignore s w =
    (if concurrency_scheduled_exit_set s \<or> concurrency_task_queue s = [] \<or>
        \<not> (0 < sint (cm_available hw s) \<or> ignore)
     then Some (Inl Assertion_Failed)
     else bind_r (start (task_callback t) (is_join t) w) (\<lambda>w1.
       if is_reoccuring t then None else Some (Inr (True, after_run hw s, w1))))"
proof (cases "concurrency_scheduled_exit_set s \<or> concurrency_task_queue s = [] \<or>
    \<not> (0 < sint (cm_available hw s) \<or> ignore)")
  case True
  have cpu: "concurrency_cpu_count (setResources hw (s\<lparr>concurrency_critical_section := True\<rparr>)) =
      concurrency_cpu_count (setResources hw s)"
    by (simp add: setResources_def Let_def)
  from True inv show ?thesis
    by (auto simp: runTask_def cm_inv_def Let_def cm_available_def cpu)
next
  case False
  have cpu: "concurrency_cpu_count (setResources hw (s\<lparr>concurrency_critical_section := True\<rparr>)) =
      concurrency_cpu_count (setResources hw s)"
    by (simp add: setResources_def Let_def)
  have t: "t \<in> set (concurrency_task_queue s)" using False by (simp add: t_def)
  with inv False have ok: "task_ok t s" "\<not> is_permanent t" "umap_ok (concurrency_system_parameters s)"
    by (auto simp: cm_inv_def)
  have final: "\<not> concurrency_critical_section s" using inv by (simp add: cm_inv_def)
  show ?thesis
    using False final ok
    by (cases "start (task_callback t) (is_join t) w"; cases "the (start (task_callback t) (is_join t) w)")
       (auto simp: runTask_def Let_def cm_available_def cpu task_destroy_eq task_ok_def cm_enlisted_def
         after_run_def setResources_def t_def [symmetric] simp del: not_None_eq)
qed

lemma after_run_simps [simp]:
  "concurrency_critical_section (after_run hw s) = concurrency_critical_section s"
  "concurrency_running_scheduled_tasks (after_run hw s) = concurrency_running_scheduled_tasks s"
  "concurrency_permanent_thread_count (after_run hw s) = concurrency_permanent_thread_count s"
  "concurrency_scheduled_exit_set (after_run hw s) = concurrency_scheduled_exit_set s"
  "concurrency_permanent_exit_set (after_run hw s) = concurrency_permanent_exit_set s"
  "concurrency_primary_launch_ran (after_run hw s) = concurrency_primary_launch_ran s"
  "concurrency_task_queue (after_run hw s) = butlast (concurrency_task_queue s)"
  by (simp_all add: after_run_def Let_def)

lemma cm_available_after_run [simp]: "cm_available hw (after_run hw s) = cm_available hw s"
  by (simp add: cm_available_def) (simp add: setResources_def Let_def)

lemma ids_ok_after_run:
  assumes "ids_ok s" and "concurrency_task_queue s \<noteq> []"
  shows "ids_ok (after_run hw s)"
proof -
  obtain q t where q: "concurrency_task_queue s = q @ [t]"
    using assms(2) by (cases "concurrency_task_queue s" rule: rev_cases) auto
  with assms(1) show ?thesis
    by (simp add: ids_ok_def cm_ids_def after_run_def Let_def)
qed

lemma after_run_inv:
  assumes "cm_inv s" and "concurrency_task_queue s \<noteq> []"
  shows "cm_inv (after_run hw s)"
proof -
  let ?t = "last (concurrency_task_queue s)"
  have enlisted: "task_ok t (after_run hw s) = task_ok t s" for t
    by (simp add: task_ok_def cm_enlisted_def after_run_def Let_def del: not_None_eq)
  have "umap_ok (concurrency_system_parameters (after_run hw s))"
    using assms(1) by (simp add: cm_inv_def after_run_def Let_def)
  then show ?thesis
    using assms ids_ok_after_run [of s hw]
    by (auto simp: cm_inv_def enlisted dest: in_set_butlastD)
qed

lemma runTask_returns:
  assumes "cm_inv s" and "runTask (world_tasks start) hw ignore s w = Some (Inr (b, s', w'))"
  shows "b \<and> s' = after_run hw s \<and> concurrency_task_queue s \<noteq> [] \<and>
    \<not> concurrency_scheduled_exit_set s \<and> \<not> is_reoccuring (last (concurrency_task_queue s)) \<and>
    \<not> is_permanent (last (concurrency_task_queue s)) \<and> cm_inv s'"
proof -
  from assms(2) runTask_eq [OF assms(1), of start hw ignore w]
  have *: "b" "s' = after_run hw s" "concurrency_task_queue s \<noteq> []"
    "\<not> concurrency_scheduled_exit_set s" "\<not> is_reoccuring (last (concurrency_task_queue s))"
    by (auto simp: bind_r_eq_Inr_iff split: if_splits)
  then have "last (concurrency_task_queue s) \<in> set (concurrency_task_queue s)" by simp
  with assms(1) * after_run_inv [OF assms(1) *(3)] show ?thesis by (auto simp: cm_inv_def)
qed

lemma run_until_started_eq:
  assumes "cm_inv s"
  shows "run_until_started (world_tasks start) hw s w =
    bind_r (runTask (world_tasks start) hw False s w) (\<lambda>(_, s1, w1). Some (Inr (s1, w1)))"
proof -
  have "\<And>b s1 w1. runTask (world_tasks start) hw False s w = Some (Inr (b, s1, w1)) \<Longrightarrow> b"
    by (drule runTask_returns [OF assms]) simp
  then show ?thesis
    by (subst run_until_started.simps) (auto simp: bind_r_def split: option.splits sum.splits)
qed

lemma launch_all_returns:
  assumes "cm_inv s" and "launch_all (world_tasks start) hw n s w = Some (Inr (s', w'))"
  shows "cm_inv s' \<and> length (concurrency_task_queue s') = length (concurrency_task_queue s) - n \<and>
    (0 < n \<longrightarrow> \<not> concurrency_scheduled_exit_set s)"
  using assms
proof (induction n arbitrary: s w)
  case (Suc n)
  from Suc.prems obtain b s1 w1 where
    run: "runTask (world_tasks start) hw False s w = Some (Inr (b, s1, w1))"
    and rest: "launch_all (world_tasks start) hw n s1 w1 = Some (Inr (s', w'))"
    by (auto simp: run_until_started_eq bind_r_eq_Inr_iff)
  from runTask_returns [OF Suc.prems(1) run] have s1: "s1 = after_run hw s" "cm_inv s1"
    "\<not> concurrency_scheduled_exit_set s" by blast+
  from Suc.IH [OF s1(2) rest] s1 show ?case by simp
qed simp

lemma setAllTasks_inv:
  assumes "cm_inv s" and "setAllTasks (world_tasks start) hw s w = Some (Inr (s', w'))"
  shows "cm_inv s'"
proof -
  let ?n = "length (concurrency_task_queue s)"
  have "?n < 2 ^ 15" using assms(1) by (simp add: cm_inv_def ids_ok_def cm_ids_def)
  then have "sint (of_nat ?n :: 16 word) = int ?n" by (simp add: sint_of_nat_small)
  with assms(2) obtain s1 where l: "launch_all (world_tasks start) hw ?n s w = Some (Inr (s1, w'))"
    and s': "s' = s1\<lparr>concurrency_scheduled_exit_set := False,
      concurrency_permanent_exit_set := False, concurrency_primary_launch_ran := True\<rparr>"
    by (auto simp: setAllTasks_def Let_def bind_r_eq_Inr_iff)
  from launch_all_returns [OF assms(1) l] have "cm_inv s1" "concurrency_task_queue s1 = []"
    by simp_all
  with s' show ?thesis by (simp add: cm_inv_def ids_ok_def cm_ids_def)
qed

lemma force_each_inv:
  "cm_inv s \<Longrightarrow> force_each (world_tasks start) hw n s w = Some (Inr (s', w')) \<Longrightarrow> cm_inv s'"
proof (induction n arbitrary: s w)
  case (Suc n)
  then show ?case
    by (auto simp: bind_r_eq_Inr_iff dest!: runTask_returns [OF Suc.prems(1)])
qed simp

section \<open>Reachable managers\<close>

lemma removeCommonVariable_eq:
  assumes "umap_ok (concurrency_system_parameters s)"
  shows "removeCommonVariable k s =
    (if \<exists>p. map_of (concurrency_system_parameters s) k = Some ((p, False), 0)
     then Inl Undefined_Behaviour
     else Inr (False, s\<lparr>debug_class_return_code := Some 1, debug_class_status := ''Allocation failed''\<rparr>))"
proof (cases "map_of (concurrency_system_parameters s) k")
  case None
  then show ?thesis by (simp add: removeCommonVariable_def)
next
  case (Some x)
  obtain p b n where x: "x = ((p, b), n)" by (metis surj_pair)
  have idem: "umap_store k v (umap_store k v' m) = umap_store k v m" for v v' m
    by (induction m) (auto simp: umap_store_def)
  have same: "umap_store k ((p, b), n) (concurrency_system_parameters s) =
      concurrency_system_parameters s"
    using umap_store_same Some x assms by simp
  show ?thesis
    using Some x same by (cases b) (auto simp: removeCommonVariable_def set_lock_def idem Let_def)
qed

text \<open>One call of a public method, and the managers any calls lead to.\<close>

inductive cm_step ::
  "('f, 'p, 'w) task_code \<Rightarrow> 32 word \<Rightarrow> ('f, 'p) concurrency_manager \<Rightarrow> ('f, 'p) concurrency_manager \<Rightarrow>
   bool"
  for code :: "('f, 'p, 'w) task_code" and hw :: "32 word" where
  enlist: "enlistCommonVariable v k g s = Inr (b, l, s') \<Longrightarrow> cm_step code hw s s'"
| remove: "removeCommonVariable k s = Inr (b, s') \<Longrightarrow> cm_step code hw s s'"
| get_lock: "getCommonVariableLock k s = Inr (l, s') \<Longrightarrow> cm_step code hw s s'"
| use_lock: "set_lock k b s = Inr s' \<Longrightarrow> cm_step code hw s s'"
| enqueue: "length (concurrency_task_queue s) < 2 ^ 15 - 1 \<Longrightarrow>
    enqueueTask j p r f ks s = Some (Inr s') \<Longrightarrow> cm_step code hw s s'"
| forward: "forwardTasks ids s = Inr s' \<Longrightarrow> cm_step code hw s s'"
| force: "forceTasks code hw ids s w = Some (Inr (s', w')) \<Longrightarrow> cm_step code hw s s'"
| set_tasks: "setTasks s = Inr s' \<Longrightarrow> cm_step code hw s s'"
| end_tasks: "endTasks s = Inr s' \<Longrightarrow> cm_step code hw s s'"
| set_all: "setAllTasks code hw s w = Some (Inr (s', w')) \<Longrightarrow> cm_step code hw s s'"
| end_all: "endAllTasks s = Inr s' \<Longrightarrow> cm_step code hw s s'"
| run: "runTask code hw ignore s w = Some (Inr (b, s', w')) \<Longrightarrow> cm_step code hw s s'"

inductive cm_reach ::
  "('f, 'p, 'w) task_code \<Rightarrow> 32 word \<Rightarrow> ('f, 'p) concurrency_manager \<Rightarrow> bool"
  for code :: "('f, 'p, 'w) task_code" and hw :: "32 word" where
  initial: "cm_reach code hw (manager_new hw)"
| step: "cm_reach code hw s \<Longrightarrow> cm_step code hw s s' \<Longrightarrow> cm_reach code hw s'"

lemma cm_inv_status [simp]:
  "cm_inv (s\<lparr>debug_class_return_code := c, debug_class_status := t\<rparr>) = cm_inv s"
  by (simp add: cm_inv_def task_ok_def cm_enlisted_def ids_ok_def cm_ids_def del: not_None_eq)

lemma enlist_inv:
  assumes "cm_inv s" and "enlistCommonVariable v k g s = Inr (b, l, s')"
  shows "cm_inv s'"
proof (cases "map_of (concurrency_system_parameters s) k = None")
  case True
  with assms have s': "s' = s\<lparr>concurrency_system_parameters :=
      (k, (v, False), 0) # concurrency_system_parameters s\<rparr>"
    by (auto simp: enlistCommonVariable_def umap_emplace_def Let_def)
  have "umap_ok ((k, (v, False), 0) # concurrency_system_parameters s)"
    using assms(1) True by (simp add: cm_inv_def)
  then show ?thesis
    unfolding s' using assms(1) by (intro cm_inv_parameters) (simp_all del: not_None_eq)
next
  case False
  with assms show ?thesis by (auto simp: enlistCommonVariable_def Let_def)
qed

lemma set_lock_inv:
  assumes "cm_inv s" and "set_lock k b s = Inr s'"
  shows "cm_inv s'"
proof -
  let ?m = "concurrency_system_parameters s"
  from assms(2) obtain v where s': "s' = s\<lparr>concurrency_system_parameters := umap_store k v ?m\<rparr>"
    by (auto simp: set_lock_def bind_o_eq_Inr_iff)
  show ?thesis
    unfolding s' using assms(1)
    by (intro cm_inv_parameters) (auto simp: cm_inv_def map_of_umap_store_eq simp del: not_None_eq)
qed

lemma flags_inv:
  assumes "cm_inv s"
  shows "setTasks s = Inr s' \<Longrightarrow> cm_inv s'" and "endTasks s = Inr s' \<Longrightarrow> cm_inv s'"
    and "endAllTasks s = Inr s' \<Longrightarrow> cm_inv s'"
proof -
  have same: "task_ok t (s\<lparr>concurrency_scheduled_exit_set := a\<rparr>) = task_ok t s"
    "task_ok t (s\<lparr>concurrency_scheduled_exit_set := a, concurrency_permanent_exit_set := b,
       concurrency_primary_launch_ran := c\<rparr>) = task_ok t s"
    and ids: "ids_ok (s\<lparr>concurrency_scheduled_exit_set := a\<rparr>) = ids_ok s"
    "ids_ok (s\<lparr>concurrency_scheduled_exit_set := a, concurrency_permanent_exit_set := b,
       concurrency_primary_launch_ran := c\<rparr>) = ids_ok s" for t a b c
    by (simp_all add: task_ok_def cm_enlisted_def ids_ok_def cm_ids_def)
  show "cm_inv s'" if "setTasks s = Inr s'"
    using that assms
    by (cases "concurrency_primary_launch_ran s")
       (auto simp: setTasks_def cm_inv_def same(1) ids(1))
  show "cm_inv s'" if "endTasks s = Inr s'"
    using that assms
    by (cases "concurrency_primary_launch_ran s")
       (auto simp: endTasks_def cm_inv_def same(1) ids(1))
  show "cm_inv s'" if "endAllTasks s = Inr s'"
    using that assms
    by (cases "concurrency_primary_launch_ran s")
       (auto simp: endAllTasks_def cm_inv_def same(2) ids(2))
qed

lemma forwardTasks_same: "forwardTasks ids s = Inr s' \<Longrightarrow> s' = s"
  by (auto simp: forwardTasks_def bind_o_eq_Inr_iff Let_def split: if_splits)

lemma cm_step_inv: "cm_step (world_tasks start) hw s s' \<Longrightarrow> cm_inv s \<Longrightarrow> cm_inv s'"
proof (induction rule: cm_step.induct)
  case (remove k s b s')
  then have "umap_ok (concurrency_system_parameters s)" by (simp add: cm_inv_def)
  with remove show ?case by (auto simp: removeCommonVariable_eq split: if_splits)
next
  case (get_lock k s l s')
  then show ?case by (auto simp: getCommonVariableLock_def Let_def split: if_splits)
next
  case (forward ids s s')
  then show ?case using forwardTasks_same by blast
next
  case (force ids s w s' w')
  then show ?case
    by (auto simp: forceTasks_def bind_r_eq_Inr_iff dest!: forwardTasks_same intro: force_each_inv)
next
  case (run ignore s w b s' w')
  then show ?case by (blast dest: runTask_returns)
qed (blast intro: enlist_inv set_lock_inv enqueueTask_inv flags_inv setAllTasks_inv)+

lemma cm_reach_inv: "cm_reach (world_tasks start) hw s \<Longrightarrow> cm_inv s"
  by (induction rule: cm_reach.induct) (blast intro: cm_inv_new cm_step_inv)+

section \<open>Properties\<close>

text \<open>A manager with one variable, and threads that append the task they run to a log.\<close>

definition one_variable :: "(string, nat) concurrency_manager" where
  "one_variable = (manager_new 4)\<lparr>concurrency_system_parameters := [(''x'', (7, False), 0)]\<rparr>"

definition log_start :: "string task_call \<Rightarrow> bool \<Rightarrow> string list \<Rightarrow> string list run" where
  "log_start c joined w = Some (Inr (w @ [fst c]))"

lemma one_variable_reach: "cm_reach code 4 one_variable"
proof -
  have "enlistCommonVariable 7 ''x'' False (manager_new 4) = Inr (True, None, one_variable)"
    by (simp add: enlistCommonVariable_def one_variable_def manager_new_def umap_emplace_def)
  from cm_reach.step [OF cm_reach.initial cm_step.enlist [OF this]] show ?thesis .
qed

lemma one_variable_simps [simp]:
  "concurrency_system_parameters one_variable = [(''x'', (7, False), 0)]"
  "concurrency_scheduled_exit_set one_variable = False"
  "concurrency_permanent_exit_set one_variable = False"
  "concurrency_task_queue one_variable = []"
  by (simp_all add: one_variable_def manager_new_def)

text \<open>A common variable is never removed.  On every reachable manager, removing one that
  is enlisted, unlocked and not counted as used erases its entry and then clears the lock inside
  the erased entry, which is undefined; every other call returns false, reports \<open>Allocation failed\<close>
  and leaves the table as it was.\<close>

theorem remove_never_succeeds:
  assumes "cm_reach (world_tasks start) hw s"
  shows "removeCommonVariable k s =
    (if \<exists>p. map_of (concurrency_system_parameters s) k = Some ((p, False), 0)
     then Inl Undefined_Behaviour
     else Inr (False, s\<lparr>debug_class_return_code := Some 1, debug_class_status := ''Allocation failed''\<rparr>))"
  using removeCommonVariable_eq [of s k] cm_reach_inv [OF assms] by (simp add: cm_inv_def)

theorem remove_never_succeeds_witness:
  "removeCommonVariable ''x'' one_variable = Inl Undefined_Behaviour"
  using remove_never_succeeds [OF one_variable_reach [of "world_tasks log_start"], of "''x''"] by simp

text \<open>Claim C32.  Every way \<open>enqueueTask\<close> ends on a reachable manager.  It fails an assertion when a
  name is not enlisted, and for a permanent task unless all tasks have been told to end; it never
  returns for a recurring scheduled task unless the scheduled tasks have been told to end, since the
  destructor of its local copy enqueues the task again; otherwise the task is queued (a permanent
  one at the back), and that destructor has taken back every access the task was counted for and
  one running task.\<close>

theorem enqueueTask_cases:
  assumes "cm_reach (world_tasks start) hw s"
  shows "enqueueTask j p r f ks s =
    (if p \<and> (concurrency_primary_launch_ran s \<or> \<not> concurrency_permanent_exit_set s) \<or>
        \<not> cm_enlisted ks s
     then Some (Inl Assertion_Failed)
     else if r \<and> \<not> p \<and> \<not> concurrency_scheduled_exit_set s then None
     else Some (Inr (s\<lparr>
       concurrency_permanent_thread_count := concurrency_permanent_thread_count s + of_bool p,
       concurrency_scheduled_thread_count := concurrency_scheduled_thread_count s + of_bool (\<not> p),
       concurrency_running_scheduled_tasks := concurrency_running_scheduled_tasks s - 1,
       concurrency_local_thread_count := concurrency_local_thread_count s + 1,
       concurrency_last_id_death := tl (concurrency_last_id_death s),
       concurrency_task_queue := (if p then concurrency_task_queue s @ [next_task j p r f ks s]
          else next_task j p r f ks s # concurrency_task_queue s)\<rparr>)))"
proof -
  have "umap_ok (concurrency_system_parameters s)"
    using cm_reach_inv [OF assms] by (simp add: cm_inv_def)
  from enqueueTask_eq [OF this, of j p r f ks] show ?thesis unfolding with_task_def .
qed

theorem enqueueTask_cases_witness:
  "enqueueTask False False True ''again'' [''x''] one_variable = None"
  using enqueueTask_cases [OF one_variable_reach [of "world_tasks log_start"], of False False True "''again''" "[''x'']"]
  by (simp add: cm_enlisted_def)

text \<open>\<open>runTask\<close> never returns false, and it starts nothing but one-shot scheduled tasks.
  When it returns on a reachable manager, it has started exactly the task at the back of the
  queue, which is neither permanent nor recurring, and has removed it.\<close>

theorem run_starts_one_shots:
  assumes "cm_reach (world_tasks start) hw s" and "runTask (world_tasks start) hw ignore s w = Some (Inr (b, s', w'))"
  shows "b \<and> (\<exists>q t. concurrency_task_queue s = q @ [t] \<and> concurrency_task_queue s' = q \<and>
    \<not> is_permanent t \<and> \<not> is_reoccuring t \<and> start (task_callback t) (is_join t) w = Some (Inr w'))"
proof -
  have inv: "cm_inv s" by (rule cm_reach_inv [OF assms(1)])
  from runTask_returns [OF inv assms(2)] obtain q t where q: "concurrency_task_queue s = q @ [t]"
    by (cases "concurrency_task_queue s" rule: rev_cases) auto
  with runTask_returns [OF inv assms(2)] assms(2) runTask_eq [OF inv, of start hw ignore w]
  show ?thesis by (auto simp: bind_r_eq_Inr_iff split: if_splits)
qed

lemma task_id_range:
  assumes "cm_inv s" and "t \<in> set (concurrency_task_queue s)"
  shows "1 \<le> sint (task_id t)"
proof -
  from assms have "task_id t \<in> of_nat ` {1..length (cm_ids s)}" "length (cm_ids s) < 2 ^ 15"
    by (auto simp: cm_inv_def ids_ok_def cm_ids_def)
  then obtain i where "task_id t = of_nat i" "1 \<le> i" "i < 2 ^ 15" by fastforce
  then show ?thesis by (simp add: sint_of_nat_small)
qed

text \<open>As long as fewer than \<open>2 ^ 15 - 1\<close> tasks are queued at a time, the queued tasks
  always have different identifiers, all positive, although identifiers are used again.\<close>

theorem task_ids_distinct:
  assumes "cm_reach (world_tasks start) hw s"
  shows "distinct (map task_id (concurrency_task_queue s)) \<and>
    (\<forall>t \<in> set (concurrency_task_queue s). 1 \<le> sint (task_id t))"
  using cm_reach_inv [OF assms] task_id_range by (auto simp: cm_inv_def ids_ok_def cm_ids_def)

theorem task_ids_distinct_witness:
  "distinct (map task_id (concurrency_task_queue one_variable))"
  using task_ids_distinct [OF one_variable_reach [of "world_tasks log_start"]] by simp

section \<open>Starting all tasks\<close>

text \<open>A client that enlists variables and enqueues one-shot tasks: function, names, joined.\<close>

primrec enlist_each ::
  "('p \<times> string) list \<Rightarrow> ('f, 'p) concurrency_manager \<Rightarrow> ('f, 'p) concurrency_manager outcome" where
  "enlist_each [] s = Inr s"
| "enlist_each (v # vs) s =
     bind_o (enlistCommonVariable (fst v) (snd v) False s) (\<lambda>(_, _, s1). enlist_each vs s1)"

primrec enqueue_each ::
  "('f \<times> string list \<times> bool) list \<Rightarrow> ('f, 'p) concurrency_manager \<Rightarrow>
   ('f, 'p) concurrency_manager run" where
  "enqueue_each [] s = Some (Inr s)"
| "enqueue_each (c # cs) s =
     bind_r (enqueueTask (snd (snd c)) False False (fst c) (fst (snd c)) s) (enqueue_each cs)"

text \<open>Starting calls one after the other, without a manager.\<close>

primrec start_each ::
  "('f task_call \<Rightarrow> bool \<Rightarrow> 'w \<Rightarrow> 'w run) \<Rightarrow> ('f task_call \<times> bool) list \<Rightarrow> 'w \<Rightarrow> 'w run" where
  "start_each start [] w = Some (Inr w)"
| "start_each start (c # cs) w = bind_r (start (fst c) (snd c) w) (start_each start cs)"

definition task_start :: "'f concurrency_thread_task \<Rightarrow> 'f task_call \<times> bool" where
  "task_start t = (task_callback t, is_join t)"

definition call_start :: "'f \<times> string list \<times> bool \<Rightarrow> 'f task_call \<times> bool" where
  "call_start c = ((fst c, fst (snd c), Scheduled_exit), snd (snd c))"

lemma launch_all_eq:
  assumes "cm_inv s" and "\<not> concurrency_scheduled_exit_set s" and "0 < sint (cm_available hw s)"
    and "\<forall>t \<in> set (concurrency_task_queue s). \<not> is_reoccuring t"
  shows "\<exists>s'. (\<forall>w. launch_all (world_tasks start) hw (length (concurrency_task_queue s)) s w =
      bind_r (start_each start (map task_start (rev (concurrency_task_queue s))) w)
        (\<lambda>w'. Some (Inr (s', w')))) \<and> concurrency_task_queue s' = []"
  using assms
proof (induction "concurrency_task_queue s" arbitrary: s rule: rev_induct)
  case Nil
  then show ?case by (intro exI [of _ s]) simp
next
  case (snoc t q)
  have q: "concurrency_task_queue s = q @ [t]" using snoc.hyps(2) by simp
  have inv: "cm_inv (after_run hw s)" using after_run_inv [OF snoc.prems(1), of hw] q by simp
  have "\<exists>s'. (\<forall>w. launch_all (world_tasks start) hw (length q) (after_run hw s) w =
      bind_r (start_each start (map task_start (rev q)) w) (\<lambda>w'. Some (Inr (s', w')))) \<and>
      concurrency_task_queue s' = []"
    using snoc.hyps(1) [of "after_run hw s"] inv snoc.prems q by simp
  then obtain s' where s': "concurrency_task_queue s' = []"
    "\<And>w. launch_all (world_tasks start) hw (length q) (after_run hw s) w =
      bind_r (start_each start (map task_start (rev q)) w) (\<lambda>w'. Some (Inr (s', w')))" by blast
  have "launch_all (world_tasks start) hw (length (concurrency_task_queue s)) s w =
      bind_r (start_each start (map task_start (rev (concurrency_task_queue s))) w)
        (\<lambda>w'. Some (Inr (s', w')))" for w
    using snoc.prems q s'(2)
    by (auto simp: run_until_started_eq runTask_eq task_start_def bind_r_def
        split: option.splits sum.splits)
  with s'(1) show ?case by blast
qed

lemma setAllTasks_eq:
  assumes "cm_inv s" and "\<not> concurrency_scheduled_exit_set s" and "0 < sint (cm_available hw s)"
    and "\<forall>t \<in> set (concurrency_task_queue s). \<not> is_reoccuring t"
  shows "\<exists>s'. setAllTasks (world_tasks start) hw s w =
      bind_r (start_each start (map task_start (rev (concurrency_task_queue s))) w)
        (\<lambda>w'. Some (Inr (s', w'))) \<and> concurrency_task_queue s' = []"
proof -
  let ?n = "length (concurrency_task_queue s)"
  have "?n < 2 ^ 15" using assms(1) by (simp add: cm_inv_def ids_ok_def cm_ids_def)
  then have n: "sint (of_nat ?n :: 16 word) = int ?n" by (simp add: sint_of_nat_small)
  from launch_all_eq [OF assms, of start] obtain s' where s': "concurrency_task_queue s' = []"
    "\<And>w. launch_all (world_tasks start) hw ?n s w =
      bind_r (start_each start (map task_start (rev (concurrency_task_queue s))) w)
        (\<lambda>w'. Some (Inr (s', w')))" by blast
  then show ?thesis
    by (intro exI [of _ "s'\<lparr>concurrency_scheduled_exit_set := False,
        concurrency_permanent_exit_set := False, concurrency_primary_launch_ran := True\<rparr>"])
       (auto simp: setAllTasks_def n Let_def bind_r_def split: option.splits sum.splits)
qed

lemma enlist_each_returns:
  assumes "cm_inv s" and "distinct (map snd vars)"
    and "\<forall>v \<in> set vars. map_of (concurrency_system_parameters s) (snd v) = None"
  shows "\<exists>m. enlist_each vars s = Inr (s\<lparr>concurrency_system_parameters := m\<rparr>) \<and>
    cm_inv (s\<lparr>concurrency_system_parameters := m\<rparr>) \<and>
    (\<forall>v \<in> set vars. map_of m (snd v) \<noteq> None) \<and>
    (\<forall>k. map_of (concurrency_system_parameters s) k \<noteq> None \<longrightarrow> map_of m k \<noteq> None)"
  using assms
proof (induction vars arbitrary: s)
  case Nil
  then show ?case by (intro exI [of _ "concurrency_system_parameters s"]) simp
next
  case (Cons v vars)
  let ?m = "(snd v, (fst v, False), 0) # concurrency_system_parameters s"
  let ?s = "s\<lparr>concurrency_system_parameters := ?m\<rparr>"
  have e: "enlistCommonVariable (fst v) (snd v) False s = Inr (True, None, ?s)"
    using Cons.prems(3) by (simp add: enlistCommonVariable_def umap_emplace_def)
  have inv: "cm_inv ?s" using enlist_inv [OF Cons.prems(1) e] .
  have free: "\<forall>w \<in> set vars. map_of ?m (snd w) = None"
    using Cons.prems(2,3) by (auto simp: image_iff)
  obtain m where m: "enlist_each vars ?s = Inr (s\<lparr>concurrency_system_parameters := m\<rparr>)"
      "cm_inv (s\<lparr>concurrency_system_parameters := m\<rparr>)"
      "\<forall>w \<in> set vars. map_of m (snd w) \<noteq> None"
      "\<forall>k. map_of ?m k \<noteq> None \<longrightarrow> map_of m k \<noteq> None"
    using Cons.IH [OF inv] Cons.prems(2) free by auto
  have "map_of m (snd v) \<noteq> None"
    using m(4) [rule_format, of "snd v"] by (simp del: not_None_eq)
  moreover have "map_of m k \<noteq> None" if "map_of (concurrency_system_parameters s) k \<noteq> None" for k
    using that m(4) [rule_format, of k] by (cases "k = snd v") (simp_all del: not_None_eq)
  ultimately show ?case using m e by (intro exI [of _ m]) (simp del: not_None_eq)
qed

lemma enqueue_each_returns:
  assumes "cm_inv s" and "\<forall>c \<in> set cs. cm_enlisted (fst (snd c)) s"
    and "length (concurrency_task_queue s) + length cs < 2 ^ 15 - 1"
    and "\<not> concurrency_scheduled_exit_set s"
  shows "\<exists>s'. enqueue_each cs s = Some (Inr s') \<and> cm_inv s' \<and>
    \<not> concurrency_scheduled_exit_set s' \<and>
    concurrency_permanent_thread_count s' = concurrency_permanent_thread_count s \<and>
    concurrency_running_scheduled_tasks s' =
      concurrency_running_scheduled_tasks s - of_nat (length cs) \<and>
    map task_start (concurrency_task_queue s') =
      rev (map call_start cs) @ map task_start (concurrency_task_queue s) \<and>
    ((\<forall>t \<in> set (concurrency_task_queue s). \<not> is_reoccuring t) \<longrightarrow>
     (\<forall>t \<in> set (concurrency_task_queue s'). \<not> is_reoccuring t))"
  using assms
proof (induction cs arbitrary: s)
  case (Cons c cs)
  let ?s = "with_task (snd (snd c)) False False (fst c) (fst (snd c)) s"
  have ok: "umap_ok (concurrency_system_parameters s)" using Cons.prems(1) by (simp add: cm_inv_def)
  have e: "enqueueTask (snd (snd c)) False False (fst c) (fst (snd c)) s = Some (Inr ?s)"
    using enqueueTask_eq [OF ok, of "snd (snd c)" False False "fst c" "fst (snd c)"] Cons.prems(2)
    by simp
  have inv: "cm_inv ?s" using enqueueTask_inv [OF Cons.prems(1) _ e] Cons.prems(3) by simp
  have "\<forall>c' \<in> set cs. cm_enlisted (fst (snd c')) ?s"
    using Cons.prems(2) by (simp add: cm_enlisted_def)
  from Cons.IH [OF inv this] Cons.prems(3,4) e show ?case
    by (auto simp: task_start_def call_start_def exit_flag_of_def algebra_simps)
qed simp

lemma cpu_count_range:
  assumes "concurrency_permanent_thread_count s = 1" and "unat hw < 2 ^ 15"
  obtains n where "concurrency_cpu_count (setResources hw s) = of_nat n" and "1 \<le> n"
    and "n \<le> max 1 (unat hw)"
proof (cases "unat hw")
  case 0
  then have "hw = 0" by (simp add: unat_eq_0)
  moreover have "ucast (- 1 :: 32 word) = (- 1 :: 16 word)"
    by (rule bit_word_eqI) (simp add: bit_simps)
  ultimately have "concurrency_cpu_count (setResources hw s) = of_nat 1"
    using assms(1) by (simp add: setResources_def Let_def)
  then show thesis by (rule that) simp_all
next
  case (Suc m)
  have hw: "hw = of_nat (unat hw)" by simp
  then have "hw - 1 = of_nat m" by (simp add: Suc)
  with assms Suc have c: "ucast (hw - scast (concurrency_permanent_thread_count s)) = (of_nat m :: 16 word)"
    by (simp add: unsigned_of_nat take_bit_nat_eq_self)
  have m: "sint (of_nat m :: 16 word) = int m" using assms(2) Suc by (simp add: sint_of_nat_small)
  show thesis
  proof (cases "m = 0")
    case True
    with c m have "concurrency_cpu_count (setResources hw s) = of_nat 1"
      by (simp add: setResources_def Let_def)
    then show thesis by (rule that) simp_all
  next
    case False
    with c m have "concurrency_cpu_count (setResources hw s) = of_nat m"
      by (simp add: setResources_def Let_def)
    then show thesis by (rule that) (use False Suc in simp_all)
  qed
qed

text \<open>Claim C25.  Tasks start in the order they were enqueued.  A client that enlists variables with
  different names on a new manager, enqueues one-shot scheduled tasks that use them, and calls
  \<open>setAllTasks\<close>, has every task started exactly once, in that order, with its variables and the
  scheduled exit flag, and ends with an empty queue; no step faults of itself.\<close>

theorem tasks_start_in_order:
  fixes start :: "'f task_call \<Rightarrow> bool \<Rightarrow> 'w \<Rightarrow> 'w run" and vars :: "('p \<times> string) list"
  assumes "distinct (map snd vars)" and "\<forall>c \<in> set cs. set (fst (snd c)) \<subseteq> set (map snd vars)"
    and "unat hw + length cs < 2 ^ 15 - 1"
  shows "\<exists>s1 s2 s3. enlist_each vars (manager_new hw) = Inr s1 \<and>
    enqueue_each cs s1 = Some (Inr s2) \<and>
    setAllTasks (world_tasks start) hw s2 w =
      bind_r (start_each start (map call_start cs) w) (\<lambda>w'. Some (Inr (s3, w'))) \<and>
    concurrency_task_queue s3 = []"
proof -
  let ?s0 = "manager_new hw :: ('f, 'p) concurrency_manager"
  have "\<forall>v \<in> set vars. map_of (concurrency_system_parameters ?s0) (snd v) = None"
    by (simp add: manager_new_def)
  from enlist_each_returns [OF cm_inv_new assms(1) this] obtain m where
    e: "enlist_each vars ?s0 =
      Inr (?s0\<lparr>concurrency_system_parameters := m\<rparr>)"
      "cm_inv (?s0\<lparr>concurrency_system_parameters := m\<rparr>)"
      "\<forall>v \<in> set vars. map_of m (snd v) \<noteq> None"
    by blast
  let ?s1 = "?s0\<lparr>concurrency_system_parameters := m\<rparr>"
  have "\<forall>c \<in> set cs. cm_enlisted (fst (snd c)) ?s1"
    using assms(2) e(3) by (fastforce simp: cm_enlisted_def simp del: not_None_eq)
  from enqueue_each_returns [OF e(2) this] assms(3) obtain s2 where
    s2: "enqueue_each cs ?s1 = Some (Inr s2)" "cm_inv s2" "\<not> concurrency_scheduled_exit_set s2"
      "concurrency_permanent_thread_count s2 = 1"
      "concurrency_running_scheduled_tasks s2 = - of_nat (length cs)"
      "map task_start (concurrency_task_queue s2) = rev (map call_start cs)"
      "\<forall>t \<in> set (concurrency_task_queue s2). \<not> is_reoccuring t"
    by (auto simp: manager_new_def)
  have "unat hw < 2 ^ 15" using assms(3) by simp
  with cpu_count_range [OF s2(4)] obtain n where
    n: "concurrency_cpu_count (setResources hw s2) = of_nat n" "1 \<le> n" "n \<le> max 1 (unat hw)"
    by blast
  then have "cm_available hw s2 = of_nat (n + length cs)"
    by (simp add: cm_available_def s2(5))
  moreover have "n + length cs < 2 ^ 15" using n(3) assms(3) by simp
  ultimately have "0 < sint (cm_available hw s2)" using n(2) by (simp add: sint_of_nat_small del: of_nat_add)
  from setAllTasks_eq [OF s2(2,3) this s2(7), of start w] obtain s3 where
    "setAllTasks (world_tasks start) hw s2 w = bind_r (start_each start
      (map task_start (rev (concurrency_task_queue s2))) w) (\<lambda>w'. Some (Inr (s3, w')))"
    "concurrency_task_queue s3 = []" by blast
  moreover have "map task_start (rev (concurrency_task_queue s2)) = map call_start cs"
    using s2(6) by (simp add: rev_map [symmetric])
  ultimately show ?thesis using e(1) s2(1) by metis
qed

theorem tasks_start_in_order_witness:
  "\<exists>s1 s2 s3. enlist_each [(7 :: nat, ''x'')] (manager_new 4) = Inr s1 \<and>
    enqueue_each [(''first'', [''x''], True), (''second'', [], False)] s1 = Some (Inr s2) \<and>
    setAllTasks (world_tasks log_start) 4 s2 [] = Some (Inr (s3, [''first'', ''second'']))"
  using tasks_start_in_order [of "[(7 :: nat, ''x'')]"
      "[(''first'', [''x''], True), (''second'', [], False)]" 4 log_start "[]"]
  by (auto simp: call_start_def log_start_def)

definition one_task :: "(string, nat) concurrency_manager" where
  "one_task = with_task True False False ''job'' [''x''] one_variable"

lemma one_task_run:
  "cm_reach code 4 one_task" "runTask (world_tasks log_start) 4 True one_task [] =
     Some (Inr (True, after_run 4 one_task, [''job'']))"
proof -
  have inv: "cm_inv one_variable" using cm_reach_inv [OF one_variable_reach] .
  have e: "enqueueTask True False False ''job'' [''x''] one_variable = Some (Inr one_task)"
    using enqueueTask_eq [of one_variable True False False "''job''" "[''x'']"]
    by (simp add: cm_enlisted_def one_task_def)
  from cm_reach.step [OF one_variable_reach cm_step.enqueue [OF _ e]] show "cm_reach code 4 one_task" by simp
  from enqueueTask_inv [OF inv _ e] have "cm_inv one_task" by simp
  from runTask_eq [OF this, of log_start 4 True "[]"]
  show "runTask (world_tasks log_start) 4 True one_task [] = Some (Inr (True, after_run 4 one_task, [''job'']))"
    by (simp add: one_task_def log_start_def)
qed

theorem run_starts_one_shots_witness:
  "\<exists>q t. concurrency_task_queue one_task = q @ [t] \<and>
    concurrency_task_queue (after_run 4 one_task) = q \<and> \<not> is_permanent t \<and> \<not> is_reoccuring t"
  using run_starts_one_shots [OF one_task_run] by blast

end
