(* ===== verification/Nfs_Tasks.thy ===== *)
theory Nfs_Tasks
  imports Nfs_Concurrency
begin

text \<open>
  \<open>LIBS/defs_concurrency.h\<close>, \<open>concurrency_manager\<close> with tasks that call it back.  What a task does is
  given as an action: changes of the client's world and requests to the manager, the next action
  depending on the answers.  It is performed in two parts, one right after the task's thread has
  been created and one at the end, before the manager's thread joins or detaches it; what the
  manager's thread does in between is not interrupted.  A request that starts a task inside a task
  is one level deeper; \<open>cm_client\<close> is indexed by the levels there are.
\<close>

section \<open>Tasks\<close>

datatype ('f, 'p) cm_request =
    Tq_enlist 'p string bool
  | Tq_remove string
  | Tq_get_lock string
  | Tq_set_lock string bool
  | Tq_enqueue bool bool bool 'f "string list"
  | Tq_forward "16 word list"
  | Tq_force "16 word list"
  | Tq_run bool
  | Tq_set_tasks
  | Tq_end_tasks
  | Tq_set_all
  | Tq_end_all

datatype ('f, 'p, 'w) task_action =
    Tk_return
  | Tk_act "'w \<Rightarrow> 'w run" "('f, 'p, 'w) task_action"
  | Tk_look "'w \<Rightarrow> ('f, 'p, 'w) task_action"
  | Tk_request "('f, 'p) cm_request" "bool \<Rightarrow> ('f, 'p, 'w) task_action"

text \<open>Serving a request; the answer of a method that returns nothing or a lock is whether it is there.\<close>

primrec cm_serve ::
  "('f, 'p, 'w) task_code \<Rightarrow> 32 word \<Rightarrow> ('f, 'p) cm_request \<Rightarrow> ('f, 'p) concurrency_manager \<Rightarrow> 'w \<Rightarrow>
   (bool \<times> ('f, 'p) concurrency_manager \<times> 'w) run" where
  "cm_serve code hw (Tq_enlist v k g) s w =
     Some (bind_o (enlistCommonVariable v k g s) (\<lambda>(b, _, s1). Inr (b, s1, w)))"
| "cm_serve code hw (Tq_remove k) s w =
     Some (bind_o (removeCommonVariable k s) (\<lambda>(b, s1). Inr (b, s1, w)))"
| "cm_serve code hw (Tq_get_lock k) s w =
     Some (bind_o (getCommonVariableLock k s) (\<lambda>(l, s1). Inr (l \<noteq> None, s1, w)))"
| "cm_serve code hw (Tq_set_lock k b) s w =
     Some (bind_o (set_lock k b s) (\<lambda>s1. Inr (True, s1, w)))"
| "cm_serve code hw (Tq_enqueue j p r f ks) s w =
     bind_r (enqueueTask j p r f ks s) (\<lambda>s1. Some (Inr (True, s1, w)))"
| "cm_serve code hw (Tq_forward ids) s w =
     Some (bind_o (forwardTasks ids s) (\<lambda>s1. Inr (True, s1, w)))"
| "cm_serve code hw (Tq_force ids) s w =
     bind_r (forceTasks code hw ids s w) (\<lambda>(s1, w1). Some (Inr (True, s1, w1)))"
| "cm_serve code hw (Tq_run ignore) s w = runTask code hw ignore s w"
| "cm_serve code hw Tq_set_tasks s w = Some (bind_o (setTasks s) (\<lambda>s1. Inr (True, s1, w)))"
| "cm_serve code hw Tq_end_tasks s w = Some (bind_o (endTasks s) (\<lambda>s1. Inr (True, s1, w)))"
| "cm_serve code hw Tq_set_all s w =
     bind_r (setAllTasks code hw s w) (\<lambda>(s1, w1). Some (Inr (True, s1, w1)))"
| "cm_serve code hw Tq_end_all s w = Some (bind_o (endAllTasks s) (\<lambda>s1. Inr (True, s1, w)))"

primrec cm_perform ::
  "('f, 'p, 'w) task_code \<Rightarrow> 32 word \<Rightarrow> ('f, 'p, 'w) task_action \<Rightarrow> ('f, 'p) concurrency_manager \<Rightarrow>
   'w \<Rightarrow> (('f, 'p) concurrency_manager \<times> 'w) run" where
  "cm_perform code hw Tk_return s w = Some (Inr (s, w))"
| "cm_perform code hw (Tk_act g a) s w = bind_r (g w) (\<lambda>w1. cm_perform code hw a s w1)"
| "cm_perform code hw (Tk_look c) s w = cm_perform code hw (c w) s w"
| "cm_perform code hw (Tk_request rq c) s w =
     bind_r (cm_serve code hw rq s w) (\<lambda>(b, s1, w1). cm_perform code hw (c b) s1 w1)"

fun cm_client ::
  "nat \<Rightarrow> 32 word \<Rightarrow> (task_phase \<Rightarrow> 'f task_call \<Rightarrow> ('f, 'p, 'w) task_action) \<Rightarrow>
   ('f, 'p, 'w) task_code" where
  "cm_client 0 hw body ph c joined s w = Some (Inl Stack_Exhausted)"
| "cm_client (Suc n) hw body ph c joined s w = cm_perform (cm_client n hw body) hw (body ph c) s w"

section \<open>What tasks cannot break\<close>

text \<open>Every variable a queued task was given is in the table.\<close>

definition cm_safe :: "('f, 'p) concurrency_manager \<Rightarrow> bool" where
  "cm_safe s \<longleftrightarrow> umap_ok (concurrency_system_parameters s) \<and>
     (\<forall>t \<in> set (concurrency_task_queue s). task_ok t s)"

lemma cm_inv_safe: "cm_inv s \<Longrightarrow> cm_safe s"
  by (simp add: cm_inv_def cm_safe_def)

lemma cm_safe_grow:
  assumes "cm_safe s" and "umap_ok (concurrency_system_parameters s')"
    and "set (concurrency_task_queue s') \<subseteq> set (concurrency_task_queue s)"
    and "\<And>k. map_of (concurrency_system_parameters s) k \<noteq> None \<Longrightarrow>
      map_of (concurrency_system_parameters s') k \<noteq> None"
  shows "cm_safe s'"
  using assms unfolding cm_safe_def task_ok_def cm_enlisted_def by blast

lemma cm_safe_same [simp]:
  "cm_safe (s\<lparr>concurrency_critical_section := b\<rparr>) = cm_safe s"
  "cm_safe (setResources hw s) = cm_safe s"
  "cm_safe (s\<lparr>debug_class_return_code := c, debug_class_status := x\<rparr>) = cm_safe s"
  "cm_safe (s\<lparr>concurrency_scheduled_exit_set := e\<rparr>) = cm_safe s"
  "cm_safe (s\<lparr>concurrency_scheduled_exit_set := e, concurrency_permanent_exit_set := e',
     concurrency_primary_launch_ran := l\<rparr>) = cm_safe s"
  "cm_safe (s\<lparr>concurrency_running_scheduled_tasks := n1, concurrency_local_thread_count := n2,
     concurrency_last_id_death := ids, concurrency_scheduled_thread_count := n3\<rparr>) = cm_safe s"
  by (simp_all add: cm_safe_def task_ok_def cm_enlisted_def)

text \<open>
  What the requests other than those that start tasks do to the table, the queue and the critical
  section: the table only grows, tasks are only added, in front or, if permanent, at the back.
\<close>

definition cm_grows :: "('f, 'p) concurrency_manager \<Rightarrow> ('f, 'p) concurrency_manager \<Rightarrow> bool" where
  "cm_grows s s' \<longleftrightarrow> cm_safe s' \<and> concurrency_critical_section s' = concurrency_critical_section s \<and>
     (\<exists>xs ys. concurrency_task_queue s' = xs @ concurrency_task_queue s @ ys \<and>
       (\<forall>t \<in> set xs. \<not> is_permanent t) \<and> (\<forall>t \<in> set ys. is_permanent t))"

lemma cm_grows_sameI:
  "cm_safe s' \<Longrightarrow> concurrency_critical_section s' = concurrency_critical_section s \<Longrightarrow>
   concurrency_task_queue s' = concurrency_task_queue s \<Longrightarrow> cm_grows s s'"
  unfolding cm_grows_def by (intro conjI exI [of _ "[]"]) auto

lemma cm_grows_refl: "cm_safe s \<Longrightarrow> cm_grows s s"
  by (rule cm_grows_sameI) simp_all

lemma cm_grows_trans:
  assumes "cm_grows s s1" and "cm_grows s1 s2"
  shows "cm_grows s s2"
proof -
  obtain xs ys where 1: "concurrency_task_queue s1 = xs @ concurrency_task_queue s @ ys"
    "\<forall>t \<in> set xs. \<not> is_permanent t" "\<forall>t \<in> set ys. is_permanent t"
    using assms(1) by (auto simp: cm_grows_def)
  obtain xs' ys' where 2: "concurrency_task_queue s2 = xs' @ concurrency_task_queue s1 @ ys'"
    "\<forall>t \<in> set xs'. \<not> is_permanent t" "\<forall>t \<in> set ys'. is_permanent t"
    using assms(2) by (auto simp: cm_grows_def)
  have "concurrency_task_queue s2 = (xs' @ xs) @ concurrency_task_queue s @ (ys @ ys')"
    using 1 2 by simp
  moreover have "\<forall>t \<in> set (xs' @ xs). \<not> is_permanent t" "\<forall>t \<in> set (ys @ ys'). is_permanent t"
    using 1 2 by auto
  ultimately show ?thesis
    using assms unfolding cm_grows_def by blast
qed

lemma enlist_grows:
  assumes "cm_safe s" and "enlistCommonVariable v k g s = Inr (b, l, s')"
  shows "cm_grows s s'"
proof (cases "map_of (concurrency_system_parameters s) k = None")
  case True
  with assms(2) have s': "s' = s\<lparr>concurrency_system_parameters :=
      (k, (v, False), 0) # concurrency_system_parameters s\<rparr>"
    by (auto simp: enlistCommonVariable_def umap_emplace_def Let_def)
  have "cm_safe s'"
    by (rule cm_safe_grow [OF assms(1)]) (use assms(1) True s' in \<open>auto simp: cm_safe_def\<close>)
  with s' show ?thesis by (intro cm_grows_sameI) simp_all
next
  case False
  with assms show ?thesis
    by (auto simp: enlistCommonVariable_def Let_def intro!: cm_grows_sameI)
qed

lemma remove_grows:
  assumes "cm_safe s" and "removeCommonVariable k s = Inr (b, s')"
  shows "cm_grows s s'"
  using assms removeCommonVariable_eq [of s k]
  by (auto simp: cm_safe_def [of s] split: if_splits intro!: cm_grows_sameI)

lemma set_lock_grows:
  assumes "cm_safe s" and "set_lock k b s = Inr s'"
  shows "cm_grows s s'"
proof -
  obtain v where s': "s' = s\<lparr>concurrency_system_parameters :=
      umap_store k v (concurrency_system_parameters s)\<rparr>"
    using assms(2) by (auto simp: set_lock_def bind_o_eq_Inr_iff)
  have "cm_safe s'"
    by (rule cm_safe_grow [OF assms(1)])
      (use assms(1) s' in \<open>auto simp: cm_safe_def map_of_umap_store_eq simp del: not_None_eq\<close>)
  with s' show ?thesis by (intro cm_grows_sameI) simp_all
qed

lemma enqueue_grows:
  assumes "cm_safe s" and "enqueueTask j p r f ks s = Some (Inr s')"
  shows "cm_grows s s' \<and> (\<not> p \<longrightarrow> concurrency_task_queue s' =
    next_task j p r f ks s # concurrency_task_queue s)"
proof -
  have s': "s' = with_task j p r f ks s" "cm_enlisted ks s"
    using enqueueTask_eq [of s j p r f ks] assms by (auto simp: cm_safe_def split: if_splits)
  have ok: "task_ok t s' = task_ok t s" for t
    by (rule task_ok_parameters) (simp add: s'(1))
  have "task_ok (next_task j p r f ks s) s"
    using s'(2) by (simp add: task_ok_def)
  then have "cm_safe s'"
    using assms(1) ok s'(1) by (auto simp: cm_safe_def)
  moreover have "\<exists>xs ys. concurrency_task_queue s' = xs @ concurrency_task_queue s @ ys \<and>
      (\<forall>t \<in> set xs. \<not> is_permanent t) \<and> (\<forall>t \<in> set ys. is_permanent t)"
  proof (cases p)
    case True
    then show ?thesis
      by (intro exI [of _ "[]"] exI [of _ "[next_task j p r f ks s]"]) (simp add: s'(1))
  next
    case False
    then show ?thesis
      by (intro exI [of _ "[next_task j p r f ks s]"] exI [of _ "[]"]) (simp add: s'(1))
  qed
  ultimately show ?thesis
    using s'(1) by (simp add: cm_grows_def)
qed

lemma flags_grow:
  assumes "cm_safe s"
  shows "setTasks s = Inr s' \<Longrightarrow> cm_grows s s'" and "endTasks s = Inr s' \<Longrightarrow> cm_grows s s'"
    and "endAllTasks s = Inr s' \<Longrightarrow> cm_grows s s'" and "forwardTasks ids s = Inr s' \<Longrightarrow> cm_grows s s'"
    and "getCommonVariableLock k s = Inr (l, s') \<Longrightarrow> cm_grows s s'"
  using assms
  by (auto simp: setTasks_def endTasks_def endAllTasks_def getCommonVariableLock_def Let_def
      bind_o_eq_Inr_iff cm_grows_refl dest!: forwardTasks_same split: if_splits
      intro!: cm_grows_sameI)

section \<open>Starting a task while one is being started\<close>

text \<open>The critical section is taken: a nested \<open>runTask\<close> fails the assertion of its report.\<close>

lemma runTask_busy:
  "concurrency_critical_section s \<Longrightarrow> runTask code hw ignore s w = Some (Inl Assertion_Failed)"
  by (simp add: runTask_def Let_def)

lemma force_each_busy:
  "concurrency_critical_section s \<Longrightarrow> force_each code hw n s w =
     (if n = 0 then Some (Inr (s, w)) else Some (Inl Assertion_Failed))"
  by (cases n) (simp_all add: runTask_busy)

lemma launch_all_busy:
  "concurrency_critical_section s \<Longrightarrow> launch_all code hw n s w =
     (if n = 0 then Some (Inr (s, w)) else Some (Inl Assertion_Failed))"
  by (cases n) (simp_all add: runTask_busy run_until_started.simps [of code hw s])

lemma serve_grows:
  assumes "cm_safe s" and "concurrency_critical_section s"
    and "cm_serve code hw rq s w = Some (Inr (b, s', w'))"
  shows "cm_grows s s'"
proof (cases rq)
  case (Tq_force ids)
  with assms show ?thesis
    by (auto simp: forceTasks_def bind_r_eq_Inr_iff force_each_busy cm_grows_refl
        dest!: forwardTasks_same split: if_splits)
next
  case (Tq_run ignore)
  with assms show ?thesis by (simp add: runTask_busy)
next
  case Tq_set_all
  with assms show ?thesis
    by (auto simp: setAllTasks_def Let_def bind_r_eq_Inr_iff launch_all_busy split: if_splits
        intro!: cm_grows_sameI)
qed (use assms in \<open>auto simp: outcome_rules bind_r_eq_Inr_iff
  dest: enlist_grows remove_grows set_lock_grows enqueue_grows flags_grow\<close>)

lemma perform_grows:
  "cm_perform code hw a s w = Some (Inr (s', w')) \<Longrightarrow> cm_safe s \<Longrightarrow> concurrency_critical_section s \<Longrightarrow>
   cm_grows s s'"
proof (induction a arbitrary: s w)
  case (Tk_act g a)
  then show ?case by (auto simp: bind_r_eq_Inr_iff)
next
  case (Tk_look c)
  then show ?case using Tk_look.IH [OF rangeI] by auto
next
  case (Tk_request rq c)
  from Tk_request.prems(1) obtain b s1 w1 where 1: "cm_serve code hw rq s w = Some (Inr (b, s1, w1))"
    and 2: "cm_perform code hw (c b) s1 w1 = Some (Inr (s', w'))"
    by (auto simp: bind_r_eq_Inr_iff)
  have g: "cm_grows s s1"
    by (rule serve_grows [OF Tk_request.prems(2,3) 1])
  with Tk_request.prems(3) have "cm_safe s1" "concurrency_critical_section s1"
    by (simp_all add: cm_grows_def)
  from cm_grows_trans [OF g Tk_request.IH [OF rangeI 2 this]] show ?case .
qed (simp add: cm_grows_refl)

text \<open>The contract between the manager and the tasks it starts.\<close>

locale manager_tasks =
  fixes code :: "('f, 'p, 'w) task_code"
  assumes code_grows: "code ph c joined s w = Some (Inr (s', w')) \<Longrightarrow> cm_safe s \<Longrightarrow>
    concurrency_critical_section s \<Longrightarrow> cm_grows s s'"

interpretation cm_clients: manager_tasks "cm_client n hw body" for n hw body
proof unfold_locales
  fix ph c joined and s s' :: "('a, 'b) concurrency_manager" and w w'
  assume "cm_client n hw body ph c joined s w = Some (Inr (s', w'))" "cm_safe s"
    "concurrency_critical_section s"
  then show "cm_grows s s'" by (cases n) (auto intro: perform_grows)
qed

interpretation cm_worlds: manager_tasks "world_tasks start" for start
proof unfold_locales
  fix ph c joined and s s' :: "('a, 'c) concurrency_manager" and w w'
  assume "world_tasks start ph c joined s w = Some (Inr (s', w'))" "cm_safe s"
  then show "cm_grows s s'" by (cases ph) (auto simp: bind_r_eq_Inr_iff cm_grows_refl)
qed

section \<open>What a run does\<close>

text \<open>The destructor of a task on a manager whose table holds what the task was given.\<close>

lemma destroy_cases:
  assumes "umap_ok (concurrency_system_parameters s)" and "task_ok t s"
  shows "task_destroy t s =
    (if is_permanent t \<and> \<not> concurrency_permanent_exit_set s then Some (Inl Assertion_Failed)
     else if is_reoccuring t \<and> \<not> is_permanent t \<and> \<not> concurrency_scheduled_exit_set s then None
     else Some (Inr (s\<lparr>
      concurrency_running_scheduled_tasks := concurrency_running_scheduled_tasks s - 1,
      concurrency_system_parameters :=
        add_accesses (- 1) (task_access_count t) (concurrency_system_parameters s)\<rparr>)))"
  using assms
  by (auto simp: task_destroy_def task_dying_def exit_flag_of_def task_ok_def cm_enlisted_def assert_o_def
      recurring_never_ends release_accesses_eq simp del: not_None_eq)

text \<open>
  The counters when the task's thread exists, and the manager when the task at the back has been
  destroyed and the critical section left.
\<close>

definition task_counted ::
  "'f concurrency_thread_task \<Rightarrow> ('f, 'p) concurrency_manager \<Rightarrow> ('f, 'p) concurrency_manager" where
  "task_counted t s = s\<lparr>
     concurrency_running_scheduled_tasks := concurrency_running_scheduled_tasks s + 1,
     concurrency_local_thread_count := concurrency_local_thread_count s - 1,
     concurrency_last_id_death := task_id t # concurrency_last_id_death s,
     concurrency_scheduled_thread_count :=
       concurrency_scheduled_thread_count s - of_bool (\<not> is_permanent t)\<rparr>"

definition task_popped :: "('f, 'p) concurrency_manager \<Rightarrow> ('f, 'p) concurrency_manager" where
  "task_popped s = s\<lparr>
     concurrency_task_queue := butlast (concurrency_task_queue s),
     concurrency_running_scheduled_tasks := concurrency_running_scheduled_tasks s - 1,
     concurrency_system_parameters := add_accesses (- 1)
       (task_access_count (last (concurrency_task_queue s))) (concurrency_system_parameters s),
     concurrency_critical_section := False\<rparr>"

definition run_started :: "32 word \<Rightarrow> ('f, 'p) concurrency_manager \<Rightarrow> ('f, 'p) concurrency_manager" where
  "run_started hw s = setResources hw (s\<lparr>concurrency_critical_section := True\<rparr>)"

lemma run_started_simps [simp]:
  "concurrency_critical_section (run_started hw s)"
  "concurrency_task_queue (run_started hw s) = concurrency_task_queue s"
  "cm_safe (run_started hw s) = cm_safe s"
  by (simp_all add: run_started_def)

lemma task_counted_simps [simp]:
  "concurrency_critical_section (task_counted t s) = concurrency_critical_section s"
  "concurrency_task_queue (task_counted t s) = concurrency_task_queue s"
  "cm_safe (task_counted t s) = cm_safe s"
  by (simp_all add: task_counted_def)

lemma task_popped_simps [simp]:
  "concurrency_task_queue (task_popped s) = butlast (concurrency_task_queue s)"
  "concurrency_critical_section (task_popped s) = False"
  by (simp_all add: task_popped_def)

lemma task_popped_safe: "cm_safe s \<Longrightarrow> cm_safe (task_popped s)"
  by (auto simp: cm_safe_def task_popped_def task_ok_def cm_enlisted_def
      simp del: not_None_eq dest: in_set_butlastD)

definition run_finished ::
  "('f, 'p) concurrency_manager \<times> 'w \<Rightarrow> (bool \<times> ('f, 'p) concurrency_manager \<times> 'w) run" where
  "run_finished x = (case x of (s, w) \<Rightarrow> let t = last (concurrency_task_queue s) in
     if is_permanent t \<and> \<not> concurrency_permanent_exit_set s then Some (Inl Assertion_Failed)
     else if is_reoccuring t \<and> \<not> is_permanent t \<and> \<not> concurrency_scheduled_exit_set s then None
     else Some (Inr (True, task_popped s, w)))"

lemma run_finished_report [simp]:
  "bind_r (run_finished x) (\<lambda>(result, s, w). if \<not> result then f result s w else Some (Inr (result, s, w))) =
     run_finished x"
  by (cases x) (simp add: run_finished_def Let_def)

definition run_possible :: "32 word \<Rightarrow> bool \<Rightarrow> ('f, 'p) concurrency_manager \<Rightarrow> bool" where
  "run_possible hw ignore s \<longleftrightarrow> \<not> concurrency_critical_section s \<and>
     \<not> concurrency_scheduled_exit_set s \<and> concurrency_task_queue s \<noteq> [] \<and>
     (0 < sint (cm_available hw s) \<or> ignore)"

lemma run_finished_eq:
  assumes "cm_safe s" and "concurrency_task_queue s \<noteq> []"
  shows "bind_r (bind_r (Some (back_o (concurrency_task_queue s))) (\<lambda>dead.
      bind_r (task_destroy dead (s\<lparr>concurrency_task_queue := butlast (concurrency_task_queue s)\<rparr>))
        (\<lambda>s5. Some (Inr (True, s5, w))))) (\<lambda>(result, s6, w6).
      Some (Inr (result, s6\<lparr>concurrency_critical_section := False\<rparr>, w6))) = run_finished (s, w)"
proof -
  let ?s = "s\<lparr>concurrency_task_queue := butlast (concurrency_task_queue s)\<rparr>"
  have "last (concurrency_task_queue s) \<in> set (concurrency_task_queue s)"
    using assms(2) by simp
  with assms(1) have "umap_ok (concurrency_system_parameters ?s)"
    "task_ok (last (concurrency_task_queue s)) ?s"
    by (auto simp: cm_safe_def task_ok_def cm_enlisted_def)
  from destroy_cases [OF this] assms(2) show ?thesis
    by (simp add: run_finished_def task_popped_def Let_def)
qed

lemma run_cases [case_names forever fault returned]:
  fixes m :: "'a run"
  assumes "m = None \<Longrightarrow> P" and "\<And>e. m = Some (Inl e) \<Longrightarrow> P" and "\<And>x. m = Some (Inr x) \<Longrightarrow> P"
  shows P
  using assms by (cases m) (auto, metis sum.exhaust)

context manager_tasks
begin

lemma code_keeps:
  assumes "code ph c joined s w = Some (Inr (s', w'))" and "cm_safe s"
    and "concurrency_critical_section s"
  shows "cm_safe s'" and "concurrency_critical_section s'"
    and "concurrency_task_queue s \<noteq> [] \<Longrightarrow> concurrency_task_queue s' \<noteq> []"
  using code_grows [OF assms] assms(3) by (auto simp: cm_grows_def)

lemma runTask_spec:
  assumes "cm_safe s"
  defines "t \<equiv> last (concurrency_task_queue s)"
  shows "runTask code hw ignore s w = (if run_possible hw ignore s then
      bind_r (code At_creation (task_callback t) (is_join t) (run_started hw s) w) (\<lambda>(s1, w1).
      bind_r (code At_join (task_callback t) (is_join t) (task_counted t s1) w1) run_finished)
    else Some (Inl Assertion_Failed))"
proof (cases "run_possible hw ignore s")
  case False
  then show ?thesis
    by (auto simp: runTask_def run_possible_def Let_def cm_available_def setResources_def)
next
  case True
  then have free: "\<not> concurrency_critical_section s" "\<not> concurrency_scheduled_exit_set s"
    "concurrency_task_queue s \<noteq> []" "0 < sint (cm_available hw s) \<or> ignore"
    by (simp_all add: run_possible_def)
  have avail: "concurrency_cpu_count (run_started hw s) -
      concurrency_running_scheduled_tasks (run_started hw s) = cm_available hw s"
    by (simp add: run_started_def cm_available_def) (simp add: setResources_def Let_def)
  let ?c = "task_callback t" and ?j = "is_join t"
  have s: "cm_safe (run_started hw s)" "concurrency_critical_section (run_started hw s)"
    using assms(1) by simp_all
  show ?thesis
  proof (cases "code At_creation ?c ?j (run_started hw s) w" rule: run_cases)
    case (returned x)
    obtain s1 w1 where x: "x = (s1, w1)" by (cases x)
    have s1: "cm_safe (task_counted t s1)" "concurrency_critical_section (task_counted t s1)"
      "concurrency_task_queue (task_counted t s1) \<noteq> []"
      using code_keeps [OF returned [unfolded x] s] free(3) by simp_all
    show ?thesis
    proof (cases "code At_join ?c ?j (task_counted t s1) w1" rule: run_cases)
      case (returned y)
      obtain s4 w4 where y: "y = (s4, w4)" by (cases y)
      have s4: "cm_safe s4" "concurrency_task_queue s4 \<noteq> []"
        using code_keeps [OF returned [unfolded y] s1(1,2)] s1(3) by simp_all
      show ?thesis
        using True free avail \<open>code At_creation ?c ?j (run_started hw s) w = Some (Inr x)\<close> returned
          run_finished_eq [OF s4, of w4]
        by (simp add: runTask_def Let_def x y t_def flip: run_started_def task_counted_def)
    qed (use True free avail returned in
        \<open>simp_all add: runTask_def Let_def x t_def flip: run_started_def task_counted_def\<close>)
  qed (use True free avail in \<open>simp_all add: runTask_def Let_def t_def flip: run_started_def\<close>)
qed

lemma runTask_returned:
  assumes "cm_safe s" and "runTask code hw ignore s w = Some (Inr (b, s', w'))"
  shows "b \<and> run_possible hw ignore s \<and> cm_safe s' \<and> \<not> concurrency_critical_section s' \<and>
    (\<exists>xs ys. concurrency_task_queue s' = butlast (xs @ concurrency_task_queue s @ ys) \<and>
      (\<forall>t \<in> set xs. \<not> is_permanent t) \<and> (\<forall>t \<in> set ys. is_permanent t))"
proof -
  let ?t = "last (concurrency_task_queue s)"
  from assms(2) runTask_spec [OF assms(1), of hw ignore w] obtain s1 w1 s2 where
    ok: "run_possible hw ignore s"
    and 1: "code At_creation (task_callback ?t) (is_join ?t) (run_started hw s) w = Some (Inr (s1, w1))"
    and 2: "code At_join (task_callback ?t) (is_join ?t) (task_counted ?t s1) w1 = Some (Inr (s2, w'))"
    and 3: "b" "s' = task_popped s2"
    by (auto simp: bind_r_eq_Inr_iff run_finished_def Let_def split: if_splits)
  have safe: "cm_safe (run_started hw s)" using assms(1) by simp
  note g1 = code_grows [OF 1 safe run_started_simps(1)]
  then have s1: "cm_safe (task_counted ?t s1)" "concurrency_critical_section (task_counted ?t s1)"
    by (simp_all add: cm_grows_def)
  have "cm_grows (run_started hw s) (task_counted ?t s1)"
    using g1 by (simp add: cm_grows_def)
  from cm_grows_trans [OF this code_grows [OF 2 s1]]
  have "cm_grows (run_started hw s) s2" .
  then show ?thesis
    using ok 3 by (auto simp: cm_grows_def task_popped_safe) blast
qed

lemma run_until_started_once:
  assumes "cm_safe s"
  shows "run_until_started code hw s w =
    bind_r (runTask code hw False s w) (\<lambda>(_, s1, w1). Some (Inr (s1, w1)))"
proof -
  have "\<And>b s1 w1. runTask code hw False s w = Some (Inr (b, s1, w1)) \<Longrightarrow> b"
    using runTask_returned [OF assms] by blast
  then show ?thesis
    by (subst run_until_started.simps) (auto simp: bind_r_def split: option.splits sum.splits)
qed

abbreviation idle_safe :: "('f, 'p) concurrency_manager \<Rightarrow> bool" where
  "idle_safe s \<equiv> cm_safe s \<and> \<not> concurrency_critical_section s"

lemma launch_all_safe:
  "idle_safe s \<Longrightarrow> launch_all code hw n s w = Some (Inr (s', w')) \<Longrightarrow> idle_safe s'"
proof (induction n arbitrary: s w)
  case (Suc n)
  from Suc.prems obtain b s1 w1 where run: "runTask code hw False s w = Some (Inr (b, s1, w1))"
    and rest: "launch_all code hw n s1 w1 = Some (Inr (s', w'))"
    by (auto simp: run_until_started_once bind_r_eq_Inr_iff)
  from runTask_returned [OF _ run] Suc.prems(1) have "idle_safe s1" by blast
  from Suc.IH [OF this rest] show ?case .
qed simp

lemma force_each_safe:
  "idle_safe s \<Longrightarrow> force_each code hw n s w = Some (Inr (s', w')) \<Longrightarrow> idle_safe s'"
proof (induction n arbitrary: s w)
  case (Suc n)
  from Suc.prems(2) obtain b s1 w1 where run: "runTask code hw True s w = Some (Inr (b, s1, w1))"
    and rest: "force_each code hw n s1 w1 = Some (Inr (s', w'))"
    by (auto simp: bind_r_eq_Inr_iff)
  from runTask_returned [OF _ run] Suc.prems(1) have "idle_safe s1" by blast
  from Suc.IH [OF this rest] show ?case .
qed simp

lemma grows_idle: "cm_grows s s' \<Longrightarrow> idle_safe s \<Longrightarrow> idle_safe s'"
  by (simp add: cm_grows_def)

lemma step_safe: "cm_step code hw s s' \<Longrightarrow> idle_safe s \<Longrightarrow> idle_safe s'"
proof (induction rule: cm_step.induct)
  case (force ids s w s' w')
  then have "force_each code hw (length ids) s w = Some (Inr (s', w'))"
    by (auto simp: forceTasks_def bind_r_eq_Inr_iff dest!: forwardTasks_same)
  with force_each_safe [OF force.prems] show ?case .
next
  case (set_all s w s' w')
  then obtain n s1 where "launch_all code hw n s w = Some (Inr (s1, w'))"
    and s': "s' = s1\<lparr>concurrency_scheduled_exit_set := False, concurrency_permanent_exit_set := False,
      concurrency_primary_launch_ran := True\<rparr>"
    by (auto simp: setAllTasks_def Let_def bind_r_eq_Inr_iff)
  with launch_all_safe [OF set_all.prems] show ?case by simp
next
  case (run ignore s w b s' w')
  then show ?case using runTask_returned by blast
next
  case (enqueue s j p r f ks s')
  then show ?case
    using enqueue_grows [of s] grows_idle [of s s'] by blast
next
  case (enlist v k g s b l s')
  then show ?case using grows_idle [OF enlist_grows [OF _ enlist.hyps(1)]] by blast
next
  case (remove k s b s')
  then show ?case using grows_idle [OF remove_grows [OF _ remove.hyps(1)]] by blast
next
  case (get_lock k s l s')
  then show ?case using grows_idle [OF flags_grow(5) [OF _ get_lock.hyps(1)]] by blast
next
  case (use_lock k b s s')
  then show ?case using grows_idle [OF set_lock_grows [OF _ use_lock.hyps(1)]] by blast
next
  case (forward ids s s')
  then show ?case using grows_idle [OF flags_grow(4) [OF _ forward.hyps(1)]] by blast
next
  case (set_tasks s s')
  then show ?case using grows_idle [OF flags_grow(1) [OF _ set_tasks.hyps(1)]] by blast
next
  case (end_tasks s s')
  then show ?case using grows_idle [OF flags_grow(2) [OF _ end_tasks.hyps(1)]] by blast
next
  case (end_all s s')
  then show ?case using grows_idle [OF flags_grow(3) [OF _ end_all.hyps(1)]] by blast
qed

lemma reach_safe: "cm_reach code hw s \<Longrightarrow> idle_safe s"
proof (induction rule: cm_reach.induct)
  case initial
  have "cm_inv (manager_new hw :: ('f, 'p) concurrency_manager)" by (rule cm_inv_new)
  then show ?case using cm_inv_safe cm_inv_def by blast
next
  case (step s s')
  then show ?case using step_safe by blast
qed

end

section \<open>Properties\<close>

text \<open>A manager with one variable and two one-shot tasks, \<open>job\<close> at the back, that is joined.\<close>

definition two_jobs :: "(string, nat) concurrency_manager" where
  "two_jobs = with_task False False False ''other'' [] one_task"

lemma two_jobs_reach: "cm_reach code 4 two_jobs"
proof -
  have inv: "cm_inv one_task" using cm_reach_inv [OF one_task_run(1)] .
  have e: "enqueueTask False False False ''other'' [] one_task = Some (Inr two_jobs)"
    using enqueueTask_eq [of one_task False False False "''other''" "[]"] inv
    by (simp add: cm_inv_def cm_enlisted_def two_jobs_def)
  from cm_reach.step [OF one_task_run(1) cm_step.enqueue [OF _ e]] show ?thesis by (simp add: one_task_def)
qed

lemma two_jobs_simps [simp]:
  "map task_callback (concurrency_task_queue two_jobs) =
     [(''other'', [], Scheduled_exit), (''job'', [''x''], Scheduled_exit)]"
  "concurrency_task_queue two_jobs \<noteq> []"
  "task_callback (last (concurrency_task_queue two_jobs)) = (''job'', [''x''], Scheduled_exit)"
  by (simp_all add: two_jobs_def one_task_def exit_flag_of_def)

subsection \<open>A task that starts tasks\<close>

text \<open>An action that comes to ask for another task to be started, and changes nothing but its own
  world before.\<close>

inductive asks_run :: "('f, 'p, 'w) task_action \<Rightarrow> bool" where
  run: "asks_run (Tk_request (Tq_run ignore) c)"
| act: "(\<And>w. \<exists>w'. g w = Some (Inr w')) \<Longrightarrow> asks_run a \<Longrightarrow> asks_run (Tk_act g a)"
| look: "(\<And>w. asks_run (c w)) \<Longrightarrow> asks_run (Tk_look c)"

lemma asks_run_perform:
  "asks_run a \<Longrightarrow> concurrency_critical_section s \<Longrightarrow>
   cm_perform code hw a s w = Some (Inl Assertion_Failed)"
proof (induction a arbitrary: w rule: asks_run.induct)
  case (act g a)
  then obtain w' where "g w = Some (Inr w')" by blast
  with act show ?case by simp
qed (simp_all add: runTask_busy)

text \<open>Claim C27.  A task cannot start another task while it is being started.  On every manager that
  tasks and their owner can build, if the function of the task at the back calls \<open>runTask\<close> before
  its thread is joined or detached, right away or only at the end, the critical section is taken,
  that call has nothing to report but \<open>Cannot run task\<close>, and the report is an assertion that
  fails: \<open>runTask\<close> never returns.\<close>

theorem task_starting_tasks_aborts:
  assumes "cm_reach (cm_client n hw body) hw s"
    and "c = task_callback (last (concurrency_task_queue s))"
    and "asks_run (body At_creation c) \<or> body At_creation c = Tk_return \<and> asks_run (body At_join c)"
  shows "runTask (cm_client (Suc m) hw body) hw ignore s w = Some (Inl Assertion_Failed)"
proof -
  have s: "cm_safe s" using cm_clients.reach_safe [OF assms(1)] by simp
  let ?c = "task_callback (last (concurrency_task_queue s))"
  consider "asks_run (body At_creation ?c)"
    | "body At_creation ?c = Tk_return" "asks_run (body At_join ?c)"
    using assms(2,3) by blast
  then show ?thesis
    by cases (simp_all add: cm_clients.runTask_spec [OF s] asks_run_perform)
qed

text \<open>A task that logs its name and then has the next one started.\<close>

definition relay_body :: "task_phase \<Rightarrow> string task_call \<Rightarrow> (string, nat, string list) task_action" where
  "relay_body ph c = (case ph of At_creation \<Rightarrow> Tk_return
     | At_join \<Rightarrow> Tk_act (\<lambda>w. Some (Inr (w @ [fst c]))) (Tk_request (Tq_run True) (\<lambda>_. Tk_return)))"

theorem task_starting_tasks_aborts_witness:
  "runTask (cm_client 1 4 relay_body) 4 True two_jobs [] = Some (Inl Assertion_Failed)"
proof -
  have "relay_body At_creation c = Tk_return \<and> asks_run (relay_body At_join c)" for c
    unfolding relay_body_def by (auto intro: asks_run.intros)
  with task_starting_tasks_aborts [OF two_jobs_reach [of "cm_client 1 4 relay_body"] refl, of 0 True "[]"]
  show ?thesis by simp
qed

text \<open>Claim C26.  What tasks cannot break, whatever they ask of the manager while they are started.
  Between the calls of the owner the critical section is free, every variable that a queued task
  was given is in the table, and a call of \<open>runTask\<close> that returns has returned true and has left
  the queue it found with new scheduled tasks in front and new permanent ones at the back, less
  the one element at the back.\<close>

theorem tasks_keep_manager_usable:
  assumes "cm_reach (cm_client n hw body) hw s"
  shows "\<not> concurrency_critical_section s \<and>
    (\<forall>t \<in> set (concurrency_task_queue s). \<forall>k \<in> set (task_access_count t).
       map_of (concurrency_system_parameters s) k \<noteq> None) \<and>
    (\<forall>m ignore w b s' w'. runTask (cm_client m hw body) hw ignore s w = Some (Inr (b, s', w')) \<longrightarrow>
       b \<and> (\<exists>xs ys. concurrency_task_queue s' = butlast (xs @ concurrency_task_queue s @ ys) \<and>
         (\<forall>t \<in> set xs. \<not> is_permanent t) \<and> (\<forall>t \<in> set ys. is_permanent t)))"
proof -
  have s: "cm_safe s" "\<not> concurrency_critical_section s"
    using cm_clients.reach_safe [OF assms] by simp_all
  have "\<forall>t \<in> set (concurrency_task_queue s). \<forall>k \<in> set (task_access_count t).
       map_of (concurrency_system_parameters s) k \<noteq> None"
    using s(1) unfolding cm_safe_def task_ok_def cm_enlisted_def by blast
  moreover have "b \<and> (\<exists>xs ys. concurrency_task_queue s' =
        butlast (xs @ concurrency_task_queue s @ ys) \<and>
      (\<forall>t \<in> set xs. \<not> is_permanent t) \<and> (\<forall>t \<in> set ys. is_permanent t))"
    if "runTask (cm_client m hw body) hw ignore s w = Some (Inr (b, s', w'))" for m ignore w b s' w'
    using cm_clients.runTask_returned [OF s(1) that] by simp
  ultimately show ?thesis using s(2) by blast
qed

theorem tasks_keep_manager_usable_witness:
  "\<not> concurrency_critical_section two_jobs \<and> length (concurrency_task_queue two_jobs) = 2 \<and>
   list_all (\<lambda>t. list_all (\<lambda>k. map_of (concurrency_system_parameters two_jobs) k \<noteq> None)
     (task_access_count t)) (concurrency_task_queue two_jobs)"
proof -
  have "length (concurrency_task_queue two_jobs) = 2"
    by (simp add: two_jobs_def one_task_def)
  with tasks_keep_manager_usable [OF two_jobs_reach [of "cm_client 1 4 relay_body"]] show ?thesis
    unfolding list_all_iff by blast
qed

subsection \<open>A task that queues its successor\<close>

text \<open>
  A task that does its work and queues a one-shot task, at the beginning or at the end of what it
  does while it is started; \<open>succ\<close> gives the new task's function, variables and whether to join it.
\<close>

definition follow_up ::
  "task_phase \<Rightarrow> ('f task_call \<Rightarrow> bool \<times> 'f \<times> string list) \<Rightarrow> ('f \<Rightarrow> 'w \<Rightarrow> 'w) \<Rightarrow> task_phase \<Rightarrow>
   'f task_call \<Rightarrow> ('f, 'p, 'w) task_action" where
  "follow_up at succ g ph c = (if ph = at then
     Tk_act (\<lambda>w. Some (Inr (g (fst c) w))) (case succ c of (j, f, ks) \<Rightarrow>
       Tk_request (Tq_enqueue j False False f ks) (\<lambda>_. Tk_return))
   else Tk_return)"

lemma enlisted_same [simp]:
  "cm_enlisted ks (run_started hw s) = cm_enlisted ks s"
  "cm_enlisted ks (task_counted t s) = cm_enlisted ks s"
  "cm_enlisted ks (task_popped s) = cm_enlisted ks s"
  "cm_enlisted ks (with_task j p r f ks' s) = cm_enlisted ks s"
  by (simp_all add: cm_enlisted_def run_started_def task_counted_def task_popped_def
      del: not_None_eq)

lemma exit_same [simp]:
  "concurrency_scheduled_exit_set (run_started hw s) = concurrency_scheduled_exit_set s"
  "concurrency_scheduled_exit_set (task_counted t s) = concurrency_scheduled_exit_set s"
  "concurrency_scheduled_exit_set (task_popped s) = concurrency_scheduled_exit_set s"
  by (simp_all add: run_started_def task_counted_def task_popped_def)

lemma next_id_counted [simp]:
  "next_id (task_counted t s) = task_id t" "next_id (run_started hw s) = next_id s"
  by (simp_all add: next_id_def task_counted_def run_started_def split: list.split)

lemma enqueue_one_shot:
  "cm_safe s \<Longrightarrow> cm_enlisted ks s \<Longrightarrow>
   enqueueTask j False False f ks s = Some (Inr (with_task j False False f ks s))"
  by (simp add: enqueueTask_eq cm_safe_def)

lemma follow_up_run:
  assumes s: "cm_safe s" and ok: "run_possible hw ignore s"
    and t_def: "last (concurrency_task_queue s) = t"
    and t: "\<not> is_permanent t" "\<not> is_reoccuring t"
    and nx: "succ (task_callback t) = (j, f, ks)" and ks: "cm_enlisted ks s"
  shows "\<exists>s'. runTask (cm_client (Suc m) hw (follow_up at succ g)) hw ignore s w =
       Some (Inr (True, s', g (fst (task_callback t)) w)) \<and>
    concurrency_task_queue s' = next_task j False False f ks
      (if at = At_creation then s else task_counted t s) # butlast (concurrency_task_queue s) \<and>
    concurrency_scheduled_exit_set s' = concurrency_scheduled_exit_set s \<and> cm_enlisted ks s'"
proof -
  let ?s0 = "run_started hw s"
  let ?s1 = "if at = At_creation then task_counted t (with_task j False False f ks ?s0)
    else with_task j False False f ks (task_counted t ?s0)"
  have q: "concurrency_task_queue s \<noteq> []" using ok by (simp add: run_possible_def)
  have last: "last (concurrency_task_queue ?s1) = t"
    using q by (cases at) (simp_all add: t_def)
  have fin: "run_finished (?s1, g (fst (task_callback t)) w) =
      Some (Inr (True, task_popped ?s1, g (fst (task_callback t)) w))"
    unfolding run_finished_def using t last by simp
  have "runTask (cm_client (Suc m) hw (follow_up at succ g)) hw ignore s w =
      Some (Inr (True, task_popped ?s1, g (fst (task_callback t)) w))"
    using fin s ok ks nx
    by (cases at) (simp_all add: cm_clients.runTask_spec follow_up_def enqueue_one_shot t_def)
  moreover have "next_task j False False f ks ?s0 = next_task j False False f ks s"
    "next_task j False False f ks (task_counted t ?s0) = next_task j False False f ks (task_counted t s)"
    by (simp_all add: next_task_def)
  ultimately show ?thesis
    using q ks by (intro exI [of _ "task_popped ?s1"]) (cases at; simp)
qed

text \<open>A task may queue its successor, and when it does decides the identifier.  On every
  manager that tasks and their owner can build, if the task at the back can be started and is a
  one-shot task that, while it is started, queues a one-shot scheduled task on enlisted variables,
  then \<open>runTask\<close> returns true, the new task is in front of the queue and the started one is gone.  If
  it was queued before the counters of the run were changed, it has the identifier the next task
  would have had; if after, it has the identifier of the task that queued it and still runs.\<close>

theorem successor_takes_identifier:
  assumes "cm_reach (cm_client n hw (follow_up at succ g)) hw s" and "run_possible hw ignore s"
    and "t = last (concurrency_task_queue s)" and "\<not> is_permanent t" and "\<not> is_reoccuring t"
    and "succ (task_callback t) = (j, f, ks)" and "cm_enlisted ks s"
  shows "\<exists>s' u. runTask (cm_client (Suc m) hw (follow_up at succ g)) hw ignore s w =
      Some (Inr (True, s', g (fst (task_callback t)) w)) \<and>
    concurrency_task_queue s' = u # butlast (concurrency_task_queue s) \<and>
    task_callback u = (f, ks, Scheduled_exit) \<and> is_join u = j \<and>
    task_id u = (case at of At_creation \<Rightarrow> next_id s | At_join \<Rightarrow> task_id t)"
proof -
  have s: "cm_safe s" using cm_clients.reach_safe [OF assms(1)] by simp
  from follow_up_run [where succ = succ, OF s assms(2) assms(3) [symmetric] assms(4-7), of m at g w] show ?thesis
    by (cases at) (auto simp: exit_flag_of_def)
qed

text \<open>Claim C28.  The way to have a recurring task.  A one-shot task that is joined, and that queues
  itself again, joined, as a one-shot task, can be started any number of times with \<open>runTask(true)\<close>
  while scheduled tasks may run: the call waits for the thread, so that each call returns when the
  function has done its work once more and has queued its successor, and the queue holds one task,
  joined and one-shot, of the same function and variables.  This holds whether the thread acts before
  or after the caller has changed the counters (\<open>at\<close>).\<close>

theorem self_queueing_task_recurs:
  assumes "cm_reach (cm_client m hw (follow_up at (\<lambda>(f, ks, e). (True, f, ks)) g)) hw s"
    and "\<not> concurrency_scheduled_exit_set s" and "concurrency_task_queue s = [t]"
    and "is_join t" and "\<not> is_permanent t" and "\<not> is_reoccuring t"
    and "task_callback t = (f, ks, e)" and "cm_enlisted ks s"
  shows "\<exists>s' u. force_each (cm_client (Suc m) hw (follow_up at (\<lambda>(f, ks, e). (True, f, ks)) g)) hw k s w =
      Some (Inr (s', (g f ^^ k) w)) \<and>
    concurrency_task_queue s' = [u] \<and> is_join u \<and> \<not> is_permanent u \<and> \<not> is_reoccuring u \<and>
    fst (task_callback u) = f \<and> fst (snd (task_callback u)) = ks"
proof -
  let ?next = "\<lambda>(f, ks, e :: exit_flag). (True, f, ks)"
  let ?code = "cm_client (Suc m) hw (follow_up at ?next g)"
  have "\<exists>s' u e. force_each ?code hw k s w = Some (Inr (s', (g f ^^ k) w)) \<and>
      concurrency_task_queue s' = [u] \<and> is_join u \<and> \<not> is_permanent u \<and> \<not> is_reoccuring u \<and>
      task_callback u = (f, ks, e)"
    if "cm_safe s" "\<not> concurrency_critical_section s" "\<not> concurrency_scheduled_exit_set s"
      "concurrency_task_queue s = [t]" "\<not> is_permanent t" "\<not> is_reoccuring t"
      "task_callback t = (f, ks, e)" "cm_enlisted ks s" "is_join t"
    for s :: "('a, 'b) concurrency_manager" and t e w
    using that
  proof (induction k arbitrary: s t e w)
    case (Suc k)
    have ok: "run_possible hw True s" using Suc.prems by (simp add: run_possible_def)
    have t: "last (concurrency_task_queue s) = t" "?next (task_callback t) = (True, f, ks)"
      using Suc.prems by simp_all
    define u where "u = next_task True False False f ks (if at = At_creation then s else task_counted t s)"
    from follow_up_run [where succ = ?next, OF Suc.prems(1) ok t(1) Suc.prems(5,6) t(2) Suc.prems(8),
        of m at g w] obtain s1
      where 1: "runTask ?code hw True s w = Some (Inr (True, s1, g f w))"
        and 2: "concurrency_task_queue s1 = [u]"
        and 3: "\<not> concurrency_scheduled_exit_set s1" "cm_enlisted ks s1"
      using Suc.prems(3,4,7) by (auto simp: u_def)
    have "cm_safe s1" "\<not> concurrency_critical_section s1"
      using cm_clients.runTask_returned [OF Suc.prems(1) 1] by simp_all
    from Suc.IH [OF this 3(1) 2 _ _ _ 3(2), of Scheduled_exit "g f w"] 1 show ?case
      by (simp add: u_def exit_flag_of_def funpow_swap1 del: cm_client.simps)
  qed auto
  moreover have "cm_safe s" "\<not> concurrency_critical_section s"
    using cm_clients.reach_safe [OF assms(1)] by simp_all
  ultimately show ?thesis using assms(2-8) by fastforce
qed

text \<open>The task \<open>job\<close> of \<open>one_task\<close>, alone in its queue, and of \<open>two_jobs\<close>.\<close>

lemma one_task_simps [simp]:
  "concurrency_task_queue one_task = [next_task True False False ''job'' [''x''] one_variable]"
  "concurrency_scheduled_exit_set one_task = False"
  "concurrency_critical_section one_task = False"
  "concurrency_system_parameters one_task = [(''x'', (7, False), 0)]"
  "next_id one_task = 2" "next_id one_variable = 1"
  by (simp_all add: one_task_def one_variable_def manager_new_def)
    (simp_all add: next_id_def with_task_def one_variable_def manager_new_def)

theorem self_queueing_task_recurs_witness:
  "\<exists>s' u. force_each (cm_client 1 4 (follow_up At_join (\<lambda>(f, ks, e). (True, f, ks)) (\<lambda>f w. w @ [f])))
      4 3 one_task [] = Some (Inr (s', [''job'', ''job'', ''job''])) \<and>
    concurrency_task_queue s' = [u] \<and> fst (task_callback u) = ''job''"
proof -
  let ?body = "follow_up At_join (\<lambda>(f, ks, e). (True, f, ks)) (\<lambda>f w. w @ [f])"
  have "cm_reach (cm_client 0 4 ?body) 4 one_task" by (rule one_task_run(1))
  from self_queueing_task_recurs [OF this, of "next_task True False False ''job'' [''x''] one_variable"
      "''job''" "[''x'']" Scheduled_exit 3 "[]"]
  show ?thesis
    by (auto simp: exit_flag_of_def cm_enlisted_def numeral_3_eq_3)
qed

theorem successor_takes_identifier_witness:
  "\<exists>s' u. runTask (cm_client 1 4 (follow_up At_join (\<lambda>_. (True, ''next'', [])) (\<lambda>f w. w @ [f])))
      4 True one_task [] = Some (Inr (True, s', [''job''])) \<and>
    concurrency_task_queue s' = [u] \<and> task_id u = 1"
proof -
  let ?body = "follow_up At_join (\<lambda>_. (True, ''next'', [])) (\<lambda>f w. w @ [f])"
  have "cm_reach (cm_client 0 4 ?body) 4 one_task" by (rule one_task_run(1))
  moreover have "run_possible 4 True one_task" by (simp add: run_possible_def)
  ultimately show ?thesis
    using successor_takes_identifier [of 0 4 At_join "\<lambda>_. (True, ''next'', [])" "\<lambda>f w. w @ [f]" one_task
      True "next_task True False False ''job'' [''x''] one_variable" True "''next''" "[]" 0 "[]"]
    by (auto simp: cm_enlisted_def)
qed

subsection \<open>A task that ends all tasks\<close>

text \<open>
  A task that ends all tasks and queues a permanent one for the next launch.
\<close>

definition renewing :: "'f \<Rightarrow> task_phase \<Rightarrow> 'f task_call \<Rightarrow> ('f, 'p, 'w) task_action" where
  "renewing f ph c = (case ph of At_creation \<Rightarrow> Tk_return
     | At_join \<Rightarrow> Tk_request Tq_end_all (\<lambda>_. Tk_request (Tq_enqueue False True False f []) (\<lambda>_. Tk_return)))"

text \<open>The element that is removed need not be the task that was started.  If a task, while
  it is started on a launched manager, ends all tasks and queues a permanent task for the next
  launch, \<open>runTask\<close> returns true and the queue is as it was before: the new permanent task, which
  went to the back, has been removed in place of the started task, which is still queued.\<close>

theorem renewed_permanent_task_is_lost:
  assumes "cm_reach (cm_client n hw (renewing f)) hw s" and "run_possible hw ignore s"
    and "concurrency_primary_launch_ran s"
  shows "\<exists>s'. runTask (cm_client (Suc m) hw (renewing f)) hw ignore s w = Some (Inr (True, s', w)) \<and>
    concurrency_task_queue s' = concurrency_task_queue s \<and> concurrency_permanent_exit_set s'"
proof -
  have s: "cm_safe s" using cm_clients.reach_safe [OF assms(1)] by simp
  let ?t = "last (concurrency_task_queue s)"
  let ?s1 = "task_counted ?t (run_started hw s)"
  let ?s2 = "?s1\<lparr>concurrency_scheduled_exit_set := True, concurrency_permanent_exit_set := True,
    concurrency_primary_launch_ran := False\<rparr>"
  have "endAllTasks ?s1 = Inr ?s2"
    using assms(3) by (simp add: endAllTasks_def task_counted_def run_started_def)
  moreover have "umap_ok (concurrency_system_parameters ?s2)"
    using s by (simp add: cm_safe_def task_counted_def run_started_def)
  from enqueueTask_eq [OF this, of False True False f "[]"] have
    "enqueueTask False True False f [] ?s2 = Some (Inr (with_task False True False f [] ?s2))"
    by (simp add: cm_enlisted_def)
  ultimately have "cm_perform (cm_client m hw (renewing f)) hw (renewing f At_join (task_callback ?t)) ?s1 w =
      Some (Inr (with_task False True False f [] ?s2, w))"
    by (simp add: renewing_def)
  moreover have "run_finished (with_task False True False f [] ?s2, w) =
      Some (Inr (True, task_popped (with_task False True False f [] ?s2), w))"
    by (simp add: run_finished_def)
  ultimately show ?thesis
    using assms(2) by (simp add: cm_clients.runTask_spec [OF s] renewing_def task_popped_def)
qed

text \<open>The manager \<open>one_variable\<close>, launched, with one task.\<close>

definition launched :: "(string, nat) concurrency_manager" where
  "launched = with_task True False False ''job'' [''x''] (one_variable\<lparr>concurrency_scheduled_exit_set := False,
     concurrency_permanent_exit_set := False, concurrency_primary_launch_ran := True\<rparr>)"

lemma launched_reach: "cm_reach code 4 launched"
proof -
  let ?s = "one_variable\<lparr>concurrency_scheduled_exit_set := False, concurrency_permanent_exit_set := False,
     concurrency_primary_launch_ran := True\<rparr>"
  have "setAllTasks code 4 one_variable w = Some (Inr (?s, w))" for w
    by (simp add: setAllTasks_def)
  then have "cm_reach code 4 ?s" by (rule cm_reach.step [OF one_variable_reach cm_step.set_all])
  moreover have "enqueueTask True False False ''job'' [''x''] ?s = Some (Inr launched)"
    using enqueueTask_eq [of ?s True False False "''job''" "[''x'']"]
    by (simp add: cm_enlisted_def launched_def)
  ultimately show ?thesis using cm_reach.step cm_step.enqueue [of ?s True False False "''job''" "[''x'']" launched code 4] by fastforce
qed

theorem renewed_permanent_task_is_lost_witness:
  "\<exists>s'. runTask (cm_client 1 4 (renewing ''watch'')) 4 True launched [] = Some (Inr (True, s', [])) \<and>
    map task_callback (concurrency_task_queue s') = [(''job'', [''x''], Scheduled_exit)]"
proof -
  have "run_possible 4 True launched"
    by (simp add: run_possible_def launched_def) (simp add: one_variable_def manager_new_def)
  from renewed_permanent_task_is_lost [OF launched_reach [of "cm_client 0 4 (renewing ''watch'')"] this,
      of 0 "[]"]
  show ?thesis by (auto simp: launched_def exit_flag_of_def)
qed

end
