(* ===== verification/Nfs_Managers.thy ===== *)
theory Nfs_Managers
  imports Nfs_Tasks
begin

text \<open>
  \<open>LIBS/defs_concurrency.h\<close>: several \<open>concurrency_manager\<close> objects in one program, and one of them
  over a long time.  The critical section and three counters are static members: every manager of
  the program has the same ones.  Here each manager carries a copy of them, and \<open>share_statics\<close>
  brings the copy of one manager up to date with that of the manager that was used last.
\<close>

section \<open>Static members\<close>

definition share_statics ::
  "('f, 'p) concurrency_manager \<Rightarrow> ('g, 'q) concurrency_manager \<Rightarrow> ('g, 'q) concurrency_manager" where
  "share_statics a b = b\<lparr>
     concurrency_critical_section := concurrency_critical_section a,
     concurrency_permanent_thread_count := concurrency_permanent_thread_count a,
     concurrency_scheduled_thread_count := concurrency_scheduled_thread_count a,
     concurrency_running_scheduled_tasks := concurrency_running_scheduled_tasks a\<rparr>"

lemma share_statics_simps [simp]:
  "concurrency_critical_section (share_statics a b) = concurrency_critical_section a"
  "concurrency_permanent_thread_count (share_statics a b) = concurrency_permanent_thread_count a"
  "concurrency_scheduled_thread_count (share_statics a b) = concurrency_scheduled_thread_count a"
  "concurrency_running_scheduled_tasks (share_statics a b) = concurrency_running_scheduled_tasks a"
  "concurrency_task_queue (share_statics a b) = concurrency_task_queue b"
  "concurrency_system_parameters (share_statics a b) = concurrency_system_parameters b"
  "concurrency_scheduled_exit_set (share_statics a b) = concurrency_scheduled_exit_set b"
  "share_statics a (share_statics a' b) = share_statics a b"
  "share_statics (share_statics a b) c = share_statics a c"
  "share_statics a a = a"
  by (simp_all add: share_statics_def)

lemma share_statics_inv:
  "\<not> concurrency_critical_section a \<Longrightarrow> cm_inv b \<Longrightarrow> cm_inv (share_statics a b)"
  by (simp add: cm_inv_def share_statics_def task_ok_def cm_enlisted_def ids_ok_def cm_ids_def)

lemma share_statics_safe [simp]: "cm_safe (share_statics a b) = cm_safe b"
  by (simp add: cm_safe_def task_ok_def cm_enlisted_def)

definition statics :: "('f, 'p) concurrency_manager \<Rightarrow> bool \<times> 16 word \<times> 16 word \<times> 16 word" where
  "statics m = (concurrency_critical_section m, concurrency_permanent_thread_count m,
     concurrency_scheduled_thread_count m, concurrency_running_scheduled_tasks m)"

lemma statics_shared [simp]: "statics (share_statics a b) = statics a"
  by (simp add: statics_def)

section \<open>Programs with several managers\<close>

text \<open>
  The constructor of a later manager finds the static members as the others left them.  A call of
  a method of one manager changes them for all.
\<close>

definition manager_next ::
  "32 word \<Rightarrow> ('f, 'p) concurrency_manager \<Rightarrow> ('f, 'p) concurrency_manager" where
  "manager_next hw a = setResources hw (share_statics a manager_members)"

inductive managers_reach ::
  "('f, 'p, 'w) task_code \<Rightarrow> 32 word \<Rightarrow> ('f, 'p) concurrency_manager list \<Rightarrow> bool"
  for code :: "('f, 'p, 'w) task_code" and hw :: "32 word" where
  first: "managers_reach code hw [manager_new hw]"
| construct: "managers_reach code hw ms \<Longrightarrow> ms \<noteq> [] \<Longrightarrow>
    managers_reach code hw (ms @ [manager_next hw (hd ms)])"
| step: "managers_reach code hw ms \<Longrightarrow> i < length ms \<Longrightarrow> cm_step code hw (ms ! i) s' \<Longrightarrow>
    managers_reach code hw (map (share_statics s') (ms[i := s']))"

lemma manager_next_inv: "\<not> concurrency_critical_section a \<Longrightarrow> cm_inv (manager_next hw a)"
  by (simp add: cm_inv_def manager_next_def ids_ok_def cm_ids_def)
    (simp add: share_statics_def)

lemma statics_manager_next [simp]: "statics (manager_next hw a) = statics a"
  by (simp add: statics_def manager_next_def) (simp add: setResources_def Let_def)

lemma managers_inv:
  "managers_reach (world_tasks start) hw ms \<Longrightarrow>
     (\<forall>a \<in> set ms. cm_inv a \<and> statics a = statics (hd ms))"
proof (induction rule: managers_reach.induct)
  case first
  then show ?case by (simp add: cm_inv_new)
next
  case (construct ms)
  then have "hd ms \<in> set ms" by simp
  with construct.IH have "cm_inv (hd ms)" by blast
  then have next': "cm_inv (manager_next hw (hd ms))"
    by (intro manager_next_inv) (simp add: cm_inv_def)
  have hd: "hd (ms @ [manager_next hw (hd ms)]) = hd ms"
    using construct.hyps(2) by simp
  show ?case
    unfolding hd
  proof
    fix a assume "a \<in> set (ms @ [manager_next hw (hd ms)])"
    then consider "a \<in> set ms" | "a = manager_next hw (hd ms)" by auto
    then show "cm_inv a \<and> statics a = statics (hd ms)"
      using construct.IH next' by cases (blast, simp)
  qed
next
  case (step ms i s')
  then have s': "cm_inv s'"
    using cm_step_inv by (metis nth_mem)
  then have "\<not> concurrency_critical_section s'" by (simp add: cm_inv_def)
  moreover have "cm_inv m" if "m \<in> set (ms[i := s'])" for m
    using that step.IH s' set_update_subset_insert [of ms i s'] by blast
  ultimately have "cm_inv (share_statics s' m)" if "m \<in> set (ms[i := s'])" for m
    using that by (simp add: share_statics_inv)
  moreover have "statics (hd (map (share_statics s') (ms[i := s']))) = statics s'"
    using step.hyps(2) by (cases ms; cases i) simp_all
  ultimately show ?case by auto
qed

text \<open>Several managers in one program.  They agree on the static members because \<open>share_statics\<close> says
  so; what is shown is that sharing them breaks no manager.  As long as tasks leave the managers
  alone and no queue is as long as \<open>2 ^ 15 - 1\<close> (the guard of \<open>cm_step.enqueue\<close>, beyond which
  identifiers turn negative), the critical section is free between calls, and in each manager the
  queued tasks have different positive identifiers and only variables of that manager's table.\<close>

theorem managers_share_consistently:
  assumes "managers_reach (world_tasks start) hw ms" and "a \<in> set ms"
  shows "\<not> concurrency_critical_section a \<and> statics a = statics (hd ms) \<and>
    distinct (map task_id (concurrency_task_queue a)) \<and>
    list_all (\<lambda>t. 1 \<le> sint (task_id t) \<and> cm_enlisted (task_access_count t) a) (concurrency_task_queue a)"
proof -
  from managers_inv [OF assms(1)] assms(2) have "cm_inv a" "statics a = statics (hd ms)" by auto
  with task_id_range [OF this(1)] show ?thesis
    by (auto simp: cm_inv_def ids_ok_def cm_ids_def task_ok_def list_all_iff)
qed

section \<open>A task of one manager that calls another\<close>

text \<open>
  The task calls \<open>runTask\<close> of another manager, which is part of its world, in one of its two parts.
  The other manager finds the static members as the task's own manager left them, and the other
  way round.
\<close>

definition runs_other ::
  "task_phase \<Rightarrow> ('g, 'q, 'v) task_code \<Rightarrow> 32 word \<Rightarrow> bool \<Rightarrow>
   ('f, 'p, ('g, 'q) concurrency_manager \<times> 'v) task_code" where
  "runs_other at code hw ignore ph c joined s x = (if ph = at then (case x of (b, v) \<Rightarrow>
       bind_r (runTask code hw ignore (share_statics s b) v) (\<lambda>(_, b1, v1).
         Some (Inr (share_statics b1 s, (b1, v1)))))
     else Some (Inr (s, x)))"

interpretation cm_others: manager_tasks "runs_other at code hw ignore" for at code hw ignore
proof unfold_locales
  fix ph c joined and s s' :: "('d, 'e) concurrency_manager" and x x'
  assume "runs_other at code hw ignore ph c joined s x = Some (Inr (s', x'))" "cm_safe s"
    "concurrency_critical_section s"
  then show "cm_grows s s'"
    by (cases x) (auto simp: runs_other_def runTask_busy cm_grows_refl split: if_splits)
qed

text \<open>Claim C31.  The critical section is one for all managers.  Take any two managers of a program: if
  a task of the first, while it is started, calls \<open>runTask\<close> of the second, whatever that one has to
  run, then the call fails the assertion of its report and \<open>runTask\<close> of the first never returns.\<close>

theorem managers_exclude_each_other:
  assumes "managers_reach (world_tasks start) hw ms" and "a \<in> set ms"
  shows "runTask (runs_other at code hw' ignore') hw ignore a (b, v) = Some (Inl Assertion_Failed)"
proof -
  have "cm_safe a" using managers_inv [OF assms(1)] assms(2) cm_inv_safe by blast
  then show ?thesis
    by (cases at) (simp_all add: cm_others.runTask_spec runs_other_def runTask_busy)
qed

section \<open>A manager over a long time\<close>

text \<open>Enqueueing a one-shot task and starting it, again and again.\<close>

fun work_cycles ::
  "('f, 'p, 'w) task_code \<Rightarrow> 32 word \<Rightarrow> bool \<Rightarrow> 'f \<Rightarrow> string list \<Rightarrow> nat \<Rightarrow>
   ('f, 'p) concurrency_manager \<Rightarrow> 'w \<Rightarrow> (('f, 'p) concurrency_manager \<times> 'w) run" where
  "work_cycles code hw j f ks 0 s w = Some (Inr (s, w))"
| "work_cycles code hw j f ks (Suc n) s w =
     bind_r (enqueueTask j False False f ks s) (\<lambda>s1.
     bind_r (runTask code hw False s1 w) (\<lambda>(_, s2, w2). work_cycles code hw j f ks n s2 w2))"

lemma sint_word16_Suc:
  "sint (x + 1 :: 16 word) = (if sint x = 2 ^ 15 - 1 then - (2 ^ 15) else sint x + 1)"
proof -
  have b: "- (2 ^ 15) \<le> sint x" "sint x < 2 ^ 15"
    using sint_range_size [of x] by (simp_all add: word_size)
  have "sint (x + 1) = signed_take_bit 15 (sint x + 1)"
    by (simp add: sint_word_ariths)
  also have "\<dots> = (if sint x = 2 ^ 15 - 1 then - (2 ^ 15) else sint x + 1)"
  proof (cases "sint x = 2 ^ 15 - 1")
    case True
    then show ?thesis by (simp add: signed_take_bit_def bit_iff_odd take_bit_eq_mod
        mask_eq_exp_minus_1 not_eq_complement)
  next
    case False
    with b show ?thesis by (simp add: signed_take_bit_int_eq_self)
  qed
  finally show ?thesis .
qed

lemma available_with_task: "cm_available hw (with_task j False r f ks s) = cm_available hw s + 1"
  by (simp add: cm_available_def) (simp add: setResources_def with_task_def Let_def)

lemma work_cycle:
  assumes s: "cm_inv s" "concurrency_task_queue s = []" "\<not> concurrency_scheduled_exit_set s"
    and ks: "cm_enlisted ks s" and c: "0 \<le> sint (cm_available hw s)"
  shows "bind_r (enqueueTask j False False f ks s) (\<lambda>s1.
      runTask (world_tasks (\<lambda>c _ w. Some (Inr (g (fst c) w)))) hw False s1 w) =
    (if sint (cm_available hw s) = 2 ^ 15 - 1 then Some (Inl Assertion_Failed)
     else Some (Inr (True, after_run hw (with_task j False False f ks s), g f w)))"
proof -
  let ?s1 = "with_task j False False f ks s"
  have e: "enqueueTask j False False f ks s = Some (Inr ?s1)"
    using s(1) ks by (simp add: enqueueTask_eq cm_inv_def)
  have "cm_inv ?s1" by (rule enqueueTask_inv [OF s(1) _ e]) (simp add: s(2))
  from runTask_eq [OF this, of "\<lambda>c _ w. Some (Inr (g (fst c) w))" hw False w] s c show ?thesis
    by (simp add: e available_with_task sint_word16_Suc)
qed

text \<open>Claim C29.  Every task ever enqueued counts as one more free processor, until the count overflows.
  On a manager that any calls can build, with an empty queue and \<open>c\<close> processors counted as free, let
  one-shot tasks be enqueued and started one after the other.  As long as \<open>c + n < 2 ^ 15\<close>, the first
  \<open>n\<close> cycles return, each having done its task's work; the next cycle after that, and so every
  longer run, ends the program, since the 16-bit difference turns negative, nothing is started, and
  the report of that is an assertion that fails.\<close>

theorem manager_wears_out:
  assumes "cm_reach (world_tasks start) hw s" and "concurrency_task_queue s = []"
    and "\<not> concurrency_scheduled_exit_set s" and "cm_enlisted ks s"
    and "0 \<le> sint (cm_available hw s)"
  shows "if sint (cm_available hw s) + int n < 2 ^ 15
    then \<exists>s'. work_cycles (world_tasks (\<lambda>c _ w. Some (Inr (g (fst c) w)))) hw j f ks n s w =
      Some (Inr (s', (g f ^^ n) w))
    else work_cycles (world_tasks (\<lambda>c _ w. Some (Inr (g (fst c) w)))) hw j f ks n s w =
      Some (Inl Assertion_Failed)"
proof -
  let ?code = "world_tasks (\<lambda>c _ w. Some (Inr (g (fst c) w)))"
  have "if sint (cm_available hw s) + int n < 2 ^ 15
    then \<exists>s'. work_cycles ?code hw j f ks n s w = Some (Inr (s', (g f ^^ n) w))
    else work_cycles ?code hw j f ks n s w = Some (Inl Assertion_Failed)"
    if "cm_inv s" "concurrency_task_queue s = []" "\<not> concurrency_scheduled_exit_set s"
      "cm_enlisted ks s" "0 \<le> sint (cm_available hw s)" for s :: "('a, 'b) concurrency_manager" and w
    using that
  proof (induction n arbitrary: s w)
    case 0
    have "sint (cm_available hw s) < 2 ^ 15"
      using sint_range_size [of "cm_available hw s"] by (simp add: word_size)
    then show ?case by simp
  next
    case (Suc n)
    let ?s2 = "after_run hw (with_task j False False f ks s)"
    have cycle: "work_cycles ?code hw j f ks (Suc n) s w =
        (if sint (cm_available hw s) = 2 ^ 15 - 1 then Some (Inl Assertion_Failed)
         else work_cycles ?code hw j f ks n ?s2 (g f w))"
    proof -
      have "work_cycles ?code hw j f ks (Suc n) s w = bind_r (bind_r
          (enqueueTask j False False f ks s) (\<lambda>s1. runTask ?code hw False s1 w))
          (\<lambda>(_, s2, w2). work_cycles ?code hw j f ks n s2 w2)"
        by (simp add: bind_r_def split: option.split sum.split)
      then show ?thesis
        by (simp add: work_cycle [OF Suc.prems])
    qed
    show ?case
    proof (cases "sint (cm_available hw s) = 2 ^ 15 - 1")
      case True
      then show ?thesis by (simp add: cycle del: work_cycles.simps)
    next
      case False
      have avail: "sint (cm_available hw ?s2) = sint (cm_available hw s) + 1"
        using False by (simp add: available_with_task sint_word16_Suc)
      have "enqueueTask j False False f ks s = Some (Inr (with_task j False False f ks s))"
        using Suc.prems by (simp add: enqueueTask_eq cm_inv_def)
      then have "cm_inv (with_task j False False f ks s)"
        using enqueueTask_inv [OF Suc.prems(1)] Suc.prems(2) by simp
      then have "cm_inv ?s2" by (rule after_run_inv) simp
      moreover have "cm_enlisted ks ?s2"
        using Suc.prems(4) by (simp add: cm_enlisted_def after_run_def Let_def del: not_None_eq)
      ultimately show ?thesis
        using Suc.IH [of ?s2 "g f w"] Suc.prems avail False
        by (simp add: cycle funpow_swap1 algebra_simps del: work_cycles.simps)
    qed
  qed
  from this [OF cm_reach_inv [OF assms(1)] assms(2-5)] show ?thesis .
qed

lemma one_variable_available: "cm_available 4 one_variable = 3"
  by (simp add: cm_available_def one_variable_def manager_new_def setResources_def Let_def)

theorem manager_wears_out_witness:
  "work_cycles (world_tasks (\<lambda>c _ w. Some (Inr (Suc w)))) 4 False ''job'' [''x''] 32765 one_variable 0 =
    Some (Inl Assertion_Failed)"
  using manager_wears_out [OF one_variable_reach [of "world_tasks log_start"], of "[''x'']" 32765 "\<lambda>_. Suc" False "''job''" 0]
  by (simp add: one_variable_available cm_enlisted_def del: work_cycles.simps)

text \<open>Two managers, the first of which is \<open>one_task\<close> but for the static members.\<close>

lemma first_manager_step:
  "managers_reach code hw [a, b] \<Longrightarrow> cm_step code hw a s' \<Longrightarrow>
   managers_reach code hw [s', share_statics s' b]"
  using managers_reach.step [of code hw "[a, b]" 0 s'] by simp

lemma two_managers_reach:
  "managers_reach code 4 [one_task, share_statics one_task (manager_next 4 (manager_new 4))]"
proof -
  have "managers_reach code 4 [manager_new 4, manager_next 4 (manager_new 4)]"
    using managers_reach.construct [OF managers_reach.first [of code 4]] by simp
  moreover have "enlistCommonVariable 7 ''x'' False (manager_new 4) = Inr (True, None, one_variable)"
    by (simp add: enlistCommonVariable_def one_variable_def manager_new_def umap_emplace_def)
  ultimately have one: "managers_reach code 4
      [one_variable, share_statics one_variable (manager_next 4 (manager_new 4))]"
    by (blast intro: first_manager_step cm_step.enlist)
  have "enqueueTask True False False ''job'' [''x''] one_variable = Some (Inr one_task)"
    using enqueueTask_eq [of one_variable True False False "''job''" "[''x'']"]
    by (simp add: cm_enlisted_def one_task_def)
  then have "cm_step code 4 one_variable one_task"
    by (rule cm_step.enqueue [rotated]) simp
  from first_manager_step [OF one this] show ?thesis by simp
qed

theorem managers_share_consistently_witness:
  "\<not> concurrency_critical_section one_task \<and>
    distinct (map task_id (concurrency_task_queue one_task)) \<and>
    list_all (\<lambda>t. 1 \<le> sint (task_id t) \<and> cm_enlisted (task_access_count t) one_task)
      (concurrency_task_queue one_task)"
proof -
  have "one_task \<in> set [one_task, share_statics one_task (manager_next 4 (manager_new 4))]" by simp
  from managers_share_consistently [OF two_managers_reach [of "world_tasks log_start"] this]
  show ?thesis by blast
qed

theorem managers_exclude_each_other_witness:
  "runTask (runs_other At_join (world_tasks log_start) 4 True) 4 True one_task
     (share_statics one_task (manager_next 4 (manager_new 4) :: (string, nat) concurrency_manager), []) =
    Some (Inl Assertion_Failed)"
  using managers_exclude_each_other [OF two_managers_reach [of "world_tasks log_start"], of one_task
      At_join "world_tasks log_start" 4 True True
      "share_statics one_task (manager_next 4 (manager_new 4))" "[]"] by simp

end
