(* ===== verification/Nfs_Rsa.thy ===== *)
theory Nfs_Rsa
  imports Nfs_Debug
begin

text \<open>
  \<open>LIBS/defs_encryption.h\<close>, classes \<open>encryption_libraries\<close> and \<open>encryption_networked\<close>: the guard
  around the global state of OpenSSL, and RSA with keys held in memory.

  The OpenSSL calls are the record parameter \<open>rsa_lib\<close>, acting on the world \<open>'w\<close> and on handles
  \<open>'b\<close> (a \<open>BIO\<close>) and \<open>'r\<close> (an \<open>RSA\<close>).  \<open>BIO_new_mem_buf(p, -1)\<close> reads a C string.  A null
  pointer is \<open>None\<close>.
\<close>

section \<open>encryption_libraries\<close>

text \<open>
  The object has no members of its own; the state is the static \<open>encryption_is_init\<close>.  The
  calls that fill and free OpenSSL's tables are not observed by the program.
\<close>

definition encryption_is_init :: bool where
  "encryption_is_init = False"

definition libraries_new :: "bool \<Rightarrow> bool outcome" where
  "libraries_new is_init = bind_o (assert_o (\<not> is_init)) (\<lambda>_. Inr is_init)"

definition libraries_delete :: "bool \<Rightarrow> bool outcome" where
  "libraries_delete is_init = bind_o (assert_o is_init) (\<lambda>_. Inr False)"

text \<open>Nothing ever sets the flag, so the destructor of every such object ends the program.\<close>

lemma libraries_object_aborts:
  "bind_o (libraries_new encryption_is_init) libraries_delete = Inl Assertion_Failed"
  by (simp add: libraries_new_def libraries_delete_def encryption_is_init_def)

section \<open>Memory\<close>

text \<open>\<open>memcpy\<close>: the first \<open>n\<close> cells of \<open>src\<close> replace those of \<open>dst\<close>; a negative \<open>n\<close> is a huge one.\<close>

definition memcpy_o :: "cell list \<Rightarrow> cell list \<Rightarrow> int \<Rightarrow> cell list outcome" where
  "memcpy_o dst src n =
     (if n < 0 \<or> int (length src) < n \<or> int (length dst) < n then Inl Undefined_Behaviour
      else Inr (take (nat n) src @ drop (nat n) dst))"

lemma memcpy_o_length: "memcpy_o dst src n = Inr dst' \<Longrightarrow> length dst' = length dst"
  by (auto simp: memcpy_o_def split: if_splits)

text \<open>\<open>strlen\<close>.\<close>

definition strlen_o :: "cell list \<Rightarrow> int outcome" where
  "strlen_o cs = bind_o (c_string cs) (\<lambda>s. Inr (int (length s)))"

section \<open>encryption_networked\<close>

subsection \<open>State\<close>

datatype rsa_call = Public_encrypt | Private_encrypt | Public_decrypt | Private_decrypt

record ('b, 'r, 'w) rsa_lib =
  rl_bio_new_mem_buf :: "string \<Rightarrow> 'w \<Rightarrow> 'b option \<times> 'w"
  rl_pem_private :: "'b \<Rightarrow> 'w \<Rightarrow> 'r option \<times> 'w"
  rl_pem_public :: "'b \<Rightarrow> 'w \<Rightarrow> 'r option \<times> 'w"
  rl_bio_free :: "'b \<Rightarrow> 'w \<Rightarrow> 'w"
  rl_rsa_free :: "'r \<Rightarrow> 'w \<Rightarrow> 'w"
  rl_size :: "'r \<Rightarrow> int"
  rl_crypt :: "rsa_call \<Rightarrow> string \<Rightarrow> 'r \<Rightarrow> int \<Rightarrow> 'w \<Rightarrow> int \<times> string \<times> 'w"

definition RSA_STOCK_LENGTH :: int where
  "RSA_STOCK_LENGTH = 4096"

definition RSA_PKCS1_PADDING :: int where
  "RSA_PKCS1_PADDING = 1"

datatype rsa_error =
    Rsa_cannot_init_private_keyBIO
  | Rsa_cannot_init_private_RSA
  | Rsa_cannot_init_public_keyBIO
  | Rsa_cannot_init_public_RSA

primrec rsa_error_code :: "rsa_error \<Rightarrow> int" where
  "rsa_error_code Rsa_cannot_init_private_keyBIO = 0"
| "rsa_error_code Rsa_cannot_init_private_RSA = 1"
| "rsa_error_code Rsa_cannot_init_public_keyBIO = 2"
| "rsa_error_code Rsa_cannot_init_public_RSA = 3"

definition rsa_local_errors :: "string list" where
  "rsa_local_errors =
     [''Cannot init private keyBIO'', ''Cannot init private RSA'', ''Cannot init public keyBIO'',
      ''Cannot init public RSA'']"

definition RSA_ERROR_COUNT :: nat where
  "RSA_ERROR_COUNT = 4"

record ('b, 'r) encryption_networked = debug_status +
  ENCRYPTION_RSA_LENGTH :: int
  ENCRYPTION_PADDING_MODE :: int
  encryption_remote_public_key_loaded :: bool
  encryption_local_private_key_loaded :: bool
  encryption_local_private_key :: "cell list"
  encryption_remote_public_key :: "cell list"
  encryption_public_RSA :: "'r option"
  encryption_private_RSA :: "'r option"
  encryption_public_keyBIO :: "'b option"
  encryption_private_keyBIO :: "'b option"

definition rsa_report ::
  "rsa_error \<Rightarrow> ('b, 'r) encryption_networked \<Rightarrow> ('b, 'r) encryption_networked outcome" where
  "rsa_report e n = setReturnCode (rsa_error_code e) n"

definition networked_new :: "int \<Rightarrow> ('b, 'r) encryption_networked outcome" where
  "networked_new length_in =
     bind_o (assert_o (length_in \<le> RSA_STOCK_LENGTH)) (\<lambda>_. Inr
       (debug_status.extend
         (debug_status_new rsa_local_errors (getMinClassError + int RSA_ERROR_COUNT - 1))
         (encryption_networked.fields length_in RSA_PKCS1_PADDING False False
           (replicate (nat RSA_STOCK_LENGTH) None) (replicate (nat RSA_STOCK_LENGTH) None)
           None None None None)))"

subsection \<open>Encrypting and decrypting\<close>

text \<open>The length of the input: \<open>*size\<close> when it is given and positive, else the C string's.\<close>

definition rsa_text_length :: "cell list \<Rightarrow> int option \<Rightarrow> int outcome" where
  "rsa_text_length input sz =
     (case sz of Some k \<Rightarrow> if 0 < k then Inr k else strlen_o input | None \<Rightarrow> strlen_o input)"

text \<open>
  The common rest of the four functions.  All of them, the ones for the private key too, take the
  size and the key from \<open>encryption_public_RSA\<close>.  The result is the new array and, when \<open>size\<close> was
  given, its new value.
\<close>

definition rsa_crypt ::
  "('b, 'r, 'w) rsa_lib \<Rightarrow> rsa_call \<Rightarrow> cell list \<Rightarrow> int option \<Rightarrow> ('b, 'r) encryption_networked \<Rightarrow> 'w \<Rightarrow>
   (cell list \<times> int option \<times> 'w) outcome" where
  "rsa_crypt lib call input sz e w =
     bind_o (rsa_text_length input sz) (\<lambda>text_length.
     bind_o (defined_o (encryption_public_RSA e)) (\<lambda>rsa.
     bind_o (new_chars (rl_size lib rsa)) (\<lambda>result.
     bind_o (read_cells input text_length) (\<lambda>text.
     let (text_length', written, w1) = rl_crypt lib call text rsa (ENCRYPTION_PADDING_MODE e) w in
     bind_o (memcpy_o result (map Some written) (int (length written))) (\<lambda>result'.
       Inr (result', map_option (\<lambda>_. text_length') sz, w1))))))"

definition rsaEncryptPublic ::
  "('b, 'r, 'w) rsa_lib \<Rightarrow> cell list \<Rightarrow> int option \<Rightarrow> ('b, 'r) encryption_networked \<Rightarrow> 'w \<Rightarrow>
   (cell list \<times> int option \<times> 'w) outcome" where
  "rsaEncryptPublic lib input sz e w =
     bind_o (assert_o (encryption_remote_public_key_loaded e \<and> encryption_public_RSA e \<noteq> None))
       (\<lambda>_. rsa_crypt lib Public_encrypt input sz e w)"

definition rsaEncryptPrivate ::
  "('b, 'r, 'w) rsa_lib \<Rightarrow> cell list \<Rightarrow> int option \<Rightarrow> ('b, 'r) encryption_networked \<Rightarrow> 'w \<Rightarrow>
   (cell list \<times> int option \<times> 'w) outcome" where
  "rsaEncryptPrivate lib input sz e w =
     bind_o (assert_o (encryption_local_private_key_loaded e \<and> encryption_private_RSA e \<noteq> None))
       (\<lambda>_. rsa_crypt lib Private_encrypt input sz e w)"

definition rsaDecryptPublic ::
  "('b, 'r, 'w) rsa_lib \<Rightarrow> cell list \<Rightarrow> int option \<Rightarrow> ('b, 'r) encryption_networked \<Rightarrow> 'w \<Rightarrow>
   (cell list \<times> int option \<times> 'w) outcome" where
  "rsaDecryptPublic lib input sz e w =
     bind_o (assert_o (encryption_remote_public_key_loaded e \<and> encryption_public_RSA e \<noteq> None))
       (\<lambda>_. rsa_crypt lib Public_decrypt input sz e w)"

definition rsaDecryptPrivate ::
  "('b, 'r, 'w) rsa_lib \<Rightarrow> cell list \<Rightarrow> int option \<Rightarrow> ('b, 'r) encryption_networked \<Rightarrow> 'w \<Rightarrow>
   (cell list \<times> int option \<times> 'w) outcome" where
  "rsaDecryptPrivate lib input sz e w =
     bind_o (assert_o (encryption_local_private_key_loaded e \<and> encryption_private_RSA e \<noteq> None))
       (\<lambda>_. rsa_crypt lib Private_decrypt input sz e w)"

subsection \<open>Loading and dropping keys\<close>

definition load_private ::
  "cell list option \<Rightarrow> ('b, 'r) encryption_networked \<Rightarrow> ('b, 'r) encryption_networked outcome" where
  "load_private key e = (case key of
     Some k \<Rightarrow> bind_o (memcpy_o (encryption_local_private_key e) k (ENCRYPTION_RSA_LENGTH e))
       (\<lambda>buf. Inr (e\<lparr>encryption_local_private_key := buf\<rparr>))
   | None \<Rightarrow> Inr (e\<lparr>encryption_local_private_key_loaded := False\<rparr>))"

definition load_public ::
  "cell list option \<Rightarrow> ('b, 'r) encryption_networked \<Rightarrow> ('b, 'r) encryption_networked outcome" where
  "load_public key e = (case key of
     Some k \<Rightarrow> bind_o (memcpy_o (encryption_remote_public_key e) k (ENCRYPTION_RSA_LENGTH e))
       (\<lambda>buf. Inr (e\<lparr>encryption_remote_public_key := buf\<rparr>))
   | None \<Rightarrow> Inr (e\<lparr>encryption_remote_public_key_loaded := False\<rparr>))"

definition loadPublicKeys ::
  "cell list option \<Rightarrow> cell list option \<Rightarrow> ('b, 'r) encryption_networked \<Rightarrow>
   ('b, 'r) encryption_networked outcome" where
  "loadPublicKeys local_unencrypted_private_key remote_unencrypted_public_key e =
     bind_o (load_private local_unencrypted_private_key e) (load_public remote_unencrypted_public_key)"

definition rearmPrivateKey ::
  "cell list option \<Rightarrow> ('b, 'r) encryption_networked \<Rightarrow> ('b, 'r) encryption_networked outcome" where
  "rearmPrivateKey local_decrypted_private_key e = load_private local_decrypted_private_key e"

text \<open>The default of \<open>privateOnly\<close> is \<open>false\<close>; both branches assert the public key's flag.\<close>

definition free_private ::
  "('b, 'r, 'w) rsa_lib \<Rightarrow> ('b, 'r) encryption_networked \<Rightarrow> 'w \<Rightarrow> ('b, 'r) encryption_networked \<times> 'w"
  where
  "free_private lib e w =
     (let (e1, w1) = (case encryption_private_RSA e of
            Some r \<Rightarrow> (e\<lparr>encryption_private_RSA := None\<rparr>, rl_rsa_free lib r w) | None \<Rightarrow> (e, w)) in
      case encryption_private_keyBIO e1 of
        Some b \<Rightarrow> (e1\<lparr>encryption_private_keyBIO := None\<rparr>, rl_bio_free lib b w1) | None \<Rightarrow> (e1, w1))"

definition free_public ::
  "('b, 'r, 'w) rsa_lib \<Rightarrow> ('b, 'r) encryption_networked \<Rightarrow> 'w \<Rightarrow> ('b, 'r) encryption_networked \<times> 'w"
  where
  "free_public lib e w =
     (let (e1, w1) = (case encryption_public_RSA e of
            Some r \<Rightarrow> (e\<lparr>encryption_public_RSA := None\<rparr>, rl_rsa_free lib r w) | None \<Rightarrow> (e, w)) in
      case encryption_public_keyBIO e1 of
        Some b \<Rightarrow> (e1\<lparr>encryption_public_keyBIO := None\<rparr>, rl_bio_free lib b w1) | None \<Rightarrow> (e1, w1))"

definition cleanRSA ::
  "('b, 'r, 'w) rsa_lib \<Rightarrow> bool \<Rightarrow> ('b, 'r) encryption_networked \<Rightarrow> 'w \<Rightarrow>
   (('b, 'r) encryption_networked \<times> 'w) outcome" where
  "cleanRSA lib privateOnly e w =
     bind_o (if \<not> privateOnly
        then bind_o (assert_o (encryption_remote_public_key_loaded e)) (\<lambda>_. Inr (free_public lib e w))
        else bind_o (assert_o (encryption_remote_public_key_loaded e)) (\<lambda>_. Inr (e, w)))
       (\<lambda>(e1, w1). Inr (free_private lib e1 w1))"

definition flushDecryptedPrivateKey ::
  "('b, 'r, 'w) rsa_lib \<Rightarrow> ('b, 'r) encryption_networked \<Rightarrow> 'w \<Rightarrow>
   (('b, 'r) encryption_networked \<times> 'w) outcome" where
  "flushDecryptedPrivateKey lib e w =
     (let zero = [Some nul] in
      bind_o (memcpy_o (encryption_local_private_key e) zero (ENCRYPTION_RSA_LENGTH e)) (\<lambda>buf.
      bind_o (cleanRSA lib True (e\<lparr>encryption_local_private_key := buf\<rparr>) w) (\<lambda>(e1, w1).
        Inr (e1\<lparr>encryption_local_private_key_loaded := False\<rparr>, w1))))"

definition networked_delete ::
  "('b, 'r, 'w) rsa_lib \<Rightarrow> ('b, 'r) encryption_networked \<Rightarrow> 'w \<Rightarrow>
   (('b, 'r) encryption_networked \<times> 'w) outcome" where
  "networked_delete lib e w =
     (let mode = (\<not> encryption_remote_public_key_loaded e) in
      if \<not> mode \<or> encryption_local_private_key_loaded e then cleanRSA lib mode e w
      else Inr (e, w))"

subsection \<open>Reading the keys\<close>

definition init_private ::
  "('b, 'r, 'w) rsa_lib \<Rightarrow> ('b, 'r) encryption_networked \<Rightarrow> 'w \<Rightarrow>
   (('b, 'r) encryption_networked \<times> 'w) outcome" where
  "init_private lib e w =
     (if encryption_local_private_key_loaded e \<and> encryption_private_RSA e = None then
        bind_o (c_string (encryption_local_private_key e)) (\<lambda>text.
        let (bio, w1) = rl_bio_new_mem_buf lib text w;
            e1 = e\<lparr>encryption_private_keyBIO := bio\<rparr> in
        case bio of
          None \<Rightarrow> bind_o (rsa_report Rsa_cannot_init_private_keyBIO e1) (\<lambda>e2. Inr (e2, w1))
        | Some b \<Rightarrow>
            (let (rsa, w2) = rl_pem_private lib b w1; e2 = e1\<lparr>encryption_private_RSA := rsa\<rparr> in
             if rsa = None
             then bind_o (rsa_report Rsa_cannot_init_private_RSA e2) (\<lambda>e3.
               Inr (e3\<lparr>encryption_private_keyBIO := None\<rparr>, rl_bio_free lib b w2))
             else Inr (e2, w2)))
      else Inr (e, w))"

definition init_public ::
  "('b, 'r, 'w) rsa_lib \<Rightarrow> ('b, 'r) encryption_networked \<Rightarrow> 'w \<Rightarrow>
   (('b, 'r) encryption_networked \<times> 'w) outcome" where
  "init_public lib e w =
     (if encryption_remote_public_key_loaded e \<and> encryption_public_RSA e = None then
        bind_o (c_string (encryption_remote_public_key e)) (\<lambda>text.
        let (bio, w1) = rl_bio_new_mem_buf lib text w;
            e1 = e\<lparr>encryption_public_keyBIO := bio\<rparr> in
        case bio of
          None \<Rightarrow> bind_o (rsa_report Rsa_cannot_init_public_keyBIO e1) (\<lambda>e2. Inr (e2, w1))
        | Some b \<Rightarrow>
            (let (rsa, w2) = rl_pem_public lib b w1; e2 = e1\<lparr>encryption_public_RSA := rsa\<rparr> in
             if rsa = None
             then bind_o (rsa_report Rsa_cannot_init_public_RSA e2) (\<lambda>e3.
               Inr (e3\<lparr>encryption_public_keyBIO := None\<rparr>, rl_bio_free lib b w2))
             else Inr (e2, w2)))
      else Inr (e, w))"

definition initRSA ::
  "('b, 'r, 'w) rsa_lib \<Rightarrow> ('b, 'r) encryption_networked \<Rightarrow> 'w \<Rightarrow>
   (('b, 'r) encryption_networked \<times> 'w) outcome" where
  "initRSA lib e w =
     bind_o (assert_o (encryption_local_private_key_loaded e \<or>
               encryption_remote_public_key_loaded e)) (\<lambda>_.
     bind_o (init_private lib e w) (\<lambda>(e1, w1). init_public lib e1 w1))"

section \<open>Reports\<close>

interpretation rsa_errors: class_errors rsa_error_code rsa_local_errors
proof unfold_locales
  fix e
  show "0 \<le> rsa_error_code e \<and> rsa_error_code e < int (length rsa_local_errors)"
    by (cases e) (simp_all add: rsa_local_errors_def)
qed (simp add: rsa_local_errors_def)

section \<open>Invariant\<close>

text \<open>
  No statement of the class sets one of the two flags, and the handles are only ever assigned in
  \<open>initRSA\<close>, which asserts a flag.
\<close>

definition networked_inv :: "int \<Rightarrow> ('b, 'r) encryption_networked \<Rightarrow> bool" where
  "networked_inv len e \<longleftrightarrow> ENCRYPTION_RSA_LENGTH e = len \<and> len \<le> RSA_STOCK_LENGTH \<and>
     \<not> encryption_remote_public_key_loaded e \<and> \<not> encryption_local_private_key_loaded e \<and>
     length (encryption_local_private_key e) = nat RSA_STOCK_LENGTH \<and>
     length (encryption_remote_public_key e) = nat RSA_STOCK_LENGTH \<and>
     encryption_public_RSA e = None \<and> encryption_private_RSA e = None \<and>
     encryption_public_keyBIO e = None \<and> encryption_private_keyBIO e = None"

inductive networked_reach ::
  "('b, 'r, 'w) rsa_lib \<Rightarrow> int \<Rightarrow> ('b, 'r) encryption_networked \<Rightarrow> bool"
  for lib :: "('b, 'r, 'w) rsa_lib" and len :: int where
  new: "networked_new len = Inr e \<Longrightarrow> networked_reach lib len e"
| load: "networked_reach lib len e \<Longrightarrow> loadPublicKeys l r e = Inr e' \<Longrightarrow> networked_reach lib len e'"
| rearm: "networked_reach lib len e \<Longrightarrow> rearmPrivateKey l e = Inr e' \<Longrightarrow> networked_reach lib len e'"
| flush: "networked_reach lib len e \<Longrightarrow> flushDecryptedPrivateKey lib e w = Inr (e', w') \<Longrightarrow>
    networked_reach lib len e'"
| init: "networked_reach lib len e \<Longrightarrow> initRSA lib e w = Inr (e', w') \<Longrightarrow> networked_reach lib len e'"
| clean: "networked_reach lib len e \<Longrightarrow> cleanRSA lib b e w = Inr (e', w') \<Longrightarrow>
    networked_reach lib len e'"

lemma networked_new_inv: "networked_new len = Inr e \<Longrightarrow> networked_inv len e"
  by (auto simp: networked_new_def networked_inv_def bind_o_eq_Inr_iff debug_status.defs
      encryption_networked.defs)

lemma load_private_inv: "networked_inv len e \<Longrightarrow> load_private k e = Inr e' \<Longrightarrow> networked_inv len e'"
  by (auto simp: load_private_def networked_inv_def bind_o_eq_Inr_iff memcpy_o_length
      split: option.splits)

lemma load_public_inv: "networked_inv len e \<Longrightarrow> load_public k e = Inr e' \<Longrightarrow> networked_inv len e'"
  by (auto simp: load_public_def networked_inv_def bind_o_eq_Inr_iff memcpy_o_length
      split: option.splits)

lemma networked_guards:
  assumes "networked_inv len e"
  shows "cleanRSA lib b e w = Inl Assertion_Failed" and "initRSA lib e w = Inl Assertion_Failed"
    and "flushDecryptedPrivateKey lib e w =
      Inl (if len = 0 \<or> len = 1 then Assertion_Failed else Undefined_Behaviour)"
  using assms
  by (auto simp: cleanRSA_def initRSA_def flushDecryptedPrivateKey_def networked_inv_def
      memcpy_o_def RSA_STOCK_LENGTH_def)

lemma networked_reach_inv: "networked_reach lib len e \<Longrightarrow> networked_inv len e"
proof (induction rule: networked_reach.induct)
  case (load e l r e')
  then show ?case
    by (auto simp: loadPublicKeys_def bind_o_eq_Inr_iff intro: load_private_inv load_public_inv)
next
  case (rearm e l e')
  then show ?case by (auto simp: rearmPrivateKey_def intro: load_private_inv)
qed (auto simp: networked_guards dest: networked_new_inv)

section \<open>Properties\<close>

text \<open>Claim C22.  RSA is never available.  Whatever keys a client loads, no flag is ever set: each of
  the four operations and \<open>initRSA\<close> fails its assertion, dropping the private key ends the program
  (for buffer lengths other than 0 and 1 it first reads past the one zero it copies from), and the
  destructor has nothing to free.\<close>

theorem rsa_never_available:
  assumes "networked_reach lib len e"
  shows "rsaEncryptPublic lib input sz e w = Inl Assertion_Failed \<and>
    rsaEncryptPrivate lib input sz e w = Inl Assertion_Failed \<and>
    rsaDecryptPublic lib input sz e w = Inl Assertion_Failed \<and>
    rsaDecryptPrivate lib input sz e w = Inl Assertion_Failed \<and>
    initRSA lib e w = Inl Assertion_Failed \<and>
    flushDecryptedPrivateKey lib e w =
      Inl (if len = 0 \<or> len = 1 then Assertion_Failed else Undefined_Behaviour) \<and>
    networked_delete lib e w = Inr (e, w)"
proof -
  have inv: "networked_inv len e" by (rule networked_reach_inv [OF assms])
  then have "\<not> encryption_remote_public_key_loaded e" "\<not> encryption_local_private_key_loaded e"
    by (simp_all add: networked_inv_def)
  then show ?thesis
    by (simp add: networked_guards [OF inv] rsaEncryptPublic_def rsaEncryptPrivate_def
        rsaDecryptPublic_def rsaDecryptPrivate_def networked_delete_def)
qed

text \<open>A library whose every call succeeds, and an object with both keys loaded.\<close>

definition willing_lib :: "(nat, nat, unit) rsa_lib" where
  "willing_lib = \<lparr>rl_bio_new_mem_buf = (\<lambda>_ w. (Some 1, w)), rl_pem_private = (\<lambda>_ w. (Some 2, w)),
     rl_pem_public = (\<lambda>_ w. (Some 3, w)), rl_bio_free = (\<lambda>_ w. w), rl_rsa_free = (\<lambda>_ w. w),
     rl_size = (\<lambda>_. 8), rl_crypt = (\<lambda>_ s _ _ w. (int (length s), s, w))\<rparr>"

theorem rsa_never_available_witness:
  "\<exists>e :: (nat, nat) encryption_networked.
     bind_o (networked_new 4) (loadPublicKeys (Some (c_str ''key'')) (Some (c_str ''pub''))) = Inr e \<and>
     rsaEncryptPublic willing_lib (c_str ''hello'') None e () = Inl Assertion_Failed"
proof -
  obtain e0 :: "(nat, nat) encryption_networked" where e0: "networked_new 4 = Inr e0"
    by (simp add: networked_new_def RSA_STOCK_LENGTH_def)
  have inv: "networked_inv 4 e0" using networked_new_inv [OF e0] .
  then obtain e where e: "loadPublicKeys (Some (c_str ''key'')) (Some (c_str ''pub'')) e0 = Inr e"
    by (auto simp: loadPublicKeys_def load_private_def load_public_def memcpy_o_def networked_inv_def
        RSA_STOCK_LENGTH_def c_str_def)
  have "networked_reach willing_lib 4 e" using networked_reach.load [OF networked_reach.new [OF e0] e] .
  from rsa_never_available [OF this] e0 e show ?thesis by auto
qed

end
