(* ===== verification/Nfs_Offline.thy ===== *)
theory Nfs_Offline
  imports Nfs_Rsa
begin

text \<open>
  \<open>LIBS/defs_encryption.h\<close>, class \<open>encryption_offline\<close>: AES 256 in GCM mode with a tag appended to
  the text, base64, SHA-512, and the tables of secrets, keys and initial vectors by address.

  The OpenSSL calls are parameters: the record \<open>evp_lib\<close> (contexts \<open>'c\<close>, world \<open>'w\<close>), the base64
  filter and the digest.  A call that the code gives a null output buffer returns its status and the
  new \<open>length\<close>; a context must not be null, a key has 32 bytes and an initial vector 16.  In
  \<open>AESEncrypt\<close> and \<open>AESDecrypt\<close> the output pointer is set to null and never allocated, and the
  pointer \<open>tag\<close> of \<open>AESEncrypt\<close> has no value: it is \<open>None\<close>, and reading it is undefined.
\<close>

section \<open>State\<close>

record ('c, 'w) evp_lib =
  ev_ctx_new :: "'w \<Rightarrow> 'c option \<times> 'w"
  ev_encrypt_init :: "'c \<Rightarrow> 'w \<Rightarrow> int \<times> 'w"
  ev_decrypt_init :: "'c \<Rightarrow> 'w \<Rightarrow> int \<times> 'w"
  ev_set_ivlen :: "'c \<Rightarrow> int \<Rightarrow> 'w \<Rightarrow> int \<times> 'w"
  ev_encrypt_key :: "'c \<Rightarrow> string \<Rightarrow> string \<Rightarrow> 'w \<Rightarrow> int \<times> 'w"
  ev_decrypt_key :: "'c \<Rightarrow> string \<Rightarrow> string \<Rightarrow> 'w \<Rightarrow> int \<times> 'w"
  ev_encrypt_update :: "'c \<Rightarrow> string \<Rightarrow> int \<Rightarrow> 'w \<Rightarrow> int \<times> int \<times> 'w"
  ev_decrypt_update :: "'c \<Rightarrow> string \<Rightarrow> int \<Rightarrow> 'w \<Rightarrow> int \<times> int \<times> 'w"
  ev_encrypt_final :: "'c \<Rightarrow> int \<Rightarrow> 'w \<Rightarrow> int \<times> int \<times> 'w"
  ev_decrypt_final :: "'c \<Rightarrow> int \<Rightarrow> 'w \<Rightarrow> int \<times> int \<times> 'w"
  ev_get_tag :: "'c \<Rightarrow> int \<Rightarrow> 'w \<Rightarrow> int \<times> string \<times> 'w"
  ev_set_tag :: "'c \<Rightarrow> string \<Rightarrow> 'w \<Rightarrow> int \<times> 'w"
  ev_ctx_free :: "'c \<Rightarrow> 'w \<Rightarrow> 'w"

definition OFFLINE_512BIT :: int where "OFFLINE_512BIT = 64"
definition OFFLINE_256BIT :: int where "OFFLINE_256BIT = 32"
definition OFFLINE_128BIT :: int where "OFFLINE_128BIT = 16"
definition OFFLINE_SECRET_MAX :: int where "OFFLINE_SECRET_MAX = 125"
definition OFFLINE_ERROR_COUNT :: nat where "OFFLINE_ERROR_COUNT = 15"

definition TAG_DELIMETER :: string where
  "TAG_DELIMETER = [newline, newline]"

definition ENCRYPTION_STARTUP_KEY :: string where
  "ENCRYPTION_STARTUP_KEY = ''93853810395438910475691239120591''"

definition ENCRYPTION_STARTUP_IV :: string where
  "ENCRYPTION_STARTUP_IV = ''1123789831053045''"

definition ENCRYPTION_STARTUP_ADDRESS :: string where
  "ENCRYPTION_STARTUP_ADDRESS = ''_default''"

datatype offline_error =
    Off_cannot_initialize_context
  | Off_cannot_initialize_encryption
  | Off_cannot_initialize_decryption
  | Off_cannot_set_iv_length
  | Off_cannot_initialize_key_and_iv
  | Off_cannot_append_additional_phrase
  | Off_cannot_provide_plaintext
  | Off_cannot_provide_ciphertext
  | Off_cannot_finalize_encryption
  | Off_cannot_finalize_decryption
  | Off_cannot_obtain_tag
  | Off_cannot_set_tag
  | Off_cannot_verify_decryption
  | Off_improper_ciphertext_format
  | Off_cannot_get_SHA

primrec offline_error_code :: "offline_error \<Rightarrow> int" where
  "offline_error_code Off_cannot_initialize_context = 0"
| "offline_error_code Off_cannot_initialize_encryption = 1"
| "offline_error_code Off_cannot_initialize_decryption = 2"
| "offline_error_code Off_cannot_set_iv_length = 3"
| "offline_error_code Off_cannot_initialize_key_and_iv = 4"
| "offline_error_code Off_cannot_append_additional_phrase = 5"
| "offline_error_code Off_cannot_provide_plaintext = 6"
| "offline_error_code Off_cannot_provide_ciphertext = 7"
| "offline_error_code Off_cannot_finalize_encryption = 8"
| "offline_error_code Off_cannot_finalize_decryption = 9"
| "offline_error_code Off_cannot_obtain_tag = 10"
| "offline_error_code Off_cannot_set_tag = 11"
| "offline_error_code Off_cannot_verify_decryption = 12"
| "offline_error_code Off_improper_ciphertext_format = 13"
| "offline_error_code Off_cannot_get_SHA = 14"

definition offline_local_errors :: "string list" where
  "offline_local_errors =
     [''Cannot initialize context'', ''Cannot initialize encryption'',
      ''Cannot initialize decryption'', ''Cannot set iv length'', ''Cannot initialize key and iv'',
      ''Cannot append additional phrase'', ''Cannot provide plaintext'',
      ''Cannot provide ciphertext'', ''Cannot finalize encryption'', ''Cannot finalize decryption'',
      ''Cannot obtain tag'', ''Cannot set tag'', ''Cannot verify decryption'',
      ''Improper ciphertext format'', ''Cannot get SHA'']"

record encryption_offline = debug_status +
  encryption_key_buffer :: "cell list"
  encryption_iv_buffer :: "cell list"
  encryption_secret :: "cell list"
  encryption_sha512 :: "cell list"
  encryption_secrets :: "(string, string) umap"
  encryption_keys :: "(string, string) umap"
  encryption_ivs :: "(string, string) umap"

definition off_report :: "offline_error \<Rightarrow> encryption_offline \<Rightarrow> encryption_offline outcome" where
  "off_report e s = setReturnCode (offline_error_code e) s"

definition offline_new :: encryption_offline where
  "offline_new = debug_status.extend
     (debug_status_new offline_local_errors (getMinClassError + int OFFLINE_ERROR_COUNT - 1))
     (encryption_offline.fields (replicate (nat OFFLINE_256BIT) None)
        (replicate (nat OFFLINE_128BIT) None) (replicate (nat OFFLINE_SECRET_MAX) None)
        (replicate (nat OFFLINE_512BIT) None) [] [] [])"

section \<open>Tables of keys and secrets\<close>

text \<open>
  \<open>key != ""\<close> and \<open>iv != ""\<close> compare the address of the caller's array with the address of a
  literal, which differ whatever the array holds; only the comparison of the \<open>string\<close> can fail.
\<close>

definition setKeys ::
  "cell list \<Rightarrow> cell list \<Rightarrow> string \<Rightarrow> encryption_offline \<Rightarrow> encryption_offline outcome" where
  "setKeys key iv address s =
     bind_o (assert_o (address \<noteq> [])) (\<lambda>_.
     bind_o (c_string key) (\<lambda>key_text.
     let s1 = s\<lparr>encryption_keys := snd (umap_emplace address key_text (encryption_keys s))\<rparr> in
     bind_o (c_string iv) (\<lambda>iv_text.
       Inr (s1\<lparr>encryption_ivs := snd (umap_emplace address iv_text (encryption_ivs s1))\<rparr>))))"

definition wipeKeys :: "string \<Rightarrow> encryption_offline \<Rightarrow> encryption_offline" where
  "wipeKeys address s = s\<lparr>encryption_keys := umap_erase address (encryption_keys s),
     encryption_ivs := umap_erase address (encryption_ivs s)\<rparr>"

definition addAddressSecret ::
  "string \<Rightarrow> string \<Rightarrow> encryption_offline \<Rightarrow> encryption_offline outcome" where
  "addAddressSecret address secret s =
     bind_o (assert_o (address \<noteq> [] \<and> secret \<noteq> [])) (\<lambda>_.
       Inr (s\<lparr>encryption_secrets := snd (umap_emplace address secret (encryption_secrets s))\<rparr>))"

definition wipeAddressSecret :: "string \<Rightarrow> encryption_offline \<Rightarrow> encryption_offline" where
  "wipeAddressSecret address s =
     s\<lparr>encryption_secrets := umap_erase address (encryption_secrets s)\<rparr>"

definition getMaxSecret :: int where
  "getMaxSecret = OFFLINE_SECRET_MAX"

definition setDefault :: "string \<Rightarrow> encryption_offline \<Rightarrow> encryption_offline outcome" where
  "setDefault secret s =
     bind_o (addAddressSecret ENCRYPTION_STARTUP_ADDRESS secret s)
       (setKeys (c_str ENCRYPTION_STARTUP_KEY) (c_str ENCRYPTION_STARTUP_IV)
          ENCRYPTION_STARTUP_ADDRESS)"

definition wipeDefault :: "encryption_offline \<Rightarrow> encryption_offline" where
  "wipeDefault s = wipeAddressSecret ENCRYPTION_STARTUP_ADDRESS
     (wipeKeys ENCRYPTION_STARTUP_ADDRESS s)"

section \<open>The tag behind the text\<close>

text \<open>
  \<open>new (p) char[n]\<close> on storage that is there: for a negative \<open>n\<close> the result is null, since the
  placement allocation does not throw; an array longer than its storage is undefined; otherwise its
  elements are indeterminate, and the new array ends after \<open>n\<close> of them.
\<close>

definition placement_new :: "cell list \<Rightarrow> int \<Rightarrow> cell list option outcome" where
  "placement_new storage n =
     (if n < 0 then Inr None
      else if int (length storage) < n then Inl Undefined_Behaviour
      else Inr (Some (replicate (nat n) None)))"

text \<open>Writing through a pointer to the first element of an array.\<close>

definition write_cells :: "cell list option \<Rightarrow> int \<Rightarrow> cell list \<Rightarrow> cell list option outcome" where
  "write_cells arr pos xs = (case arr of
     None \<Rightarrow> Inl Undefined_Behaviour
   | Some cs \<Rightarrow> if pos < 0 \<or> int (length cs) < pos + int (length xs) then Inl Undefined_Behaviour
       else Inr (Some (take (nat pos) cs @ xs @ drop (nat pos + length xs) cs)))"

text \<open>\<open>tag_length = tag_length;\<close> reads the variable before it has a value.\<close>

definition insertTag ::
  "cell list option \<Rightarrow> int \<Rightarrow> cell list \<Rightarrow> (cell list option \<times> int) outcome" where
  "insertTag input sz tag =
     (let tag_length = (None :: int option); delimeter_length = int (length TAG_DELIMETER) in
      bind_o (defined_o tag_length) (\<lambda>tag_length.
      bind_o (defined_o input) (\<lambda>storage.
      bind_o (placement_new storage (tag_length + delimeter_length)) (\<lambda>in1.
      bind_o (write_cells in1 sz (map Some TAG_DELIMETER)) (\<lambda>in2.
      let sz1 = sz + delimeter_length in
      bind_o (read_cells tag tag_length) (\<lambda>tag_text.
      bind_o (write_cells in2 sz1 (map Some tag_text)) (\<lambda>in3.
      let sz2 = sz1 + tag_length in
      bind_o (write_cells in3 sz2 [Some nul]) (\<lambda>in4. Inr (in4, sz2)))))))))"

definition cell_at :: "cell list \<Rightarrow> int \<Rightarrow> char outcome" where
  "cell_at cs i = (if i < 0 \<or> int (length cs) \<le> i then Inl Undefined_Behaviour
     else defined_o (cs ! nat i))"

text \<open>
  The loop \<open>while(i != -1 && --size >= -1 + delimeter_length)\<close>: \<open>size\<close> is decremented when the
  second operand is evaluated.
\<close>

function tag_scan :: "cell list \<Rightarrow> int \<Rightarrow> int \<Rightarrow> (int \<times> int) outcome" where
  "tag_scan cs i sz =
     (if i = - 1 then Inr (i, sz)
      else let sz1 = sz - 1 in
        if - 1 + int (length TAG_DELIMETER) \<le> sz1 then
          bind_o (cell_at cs sz1) (\<lambda>c.
          let char_match = (TAG_DELIMETER ! nat i = c);
              i1 = i * of_bool char_match + int (length TAG_DELIMETER) * of_bool (\<not> char_match) in
          tag_scan cs (i1 - 1) sz1)
        else Inr (i, sz1))"
  by auto
termination
  by (relation "measure (\<lambda>(cs, i, sz). nat sz)") (simp_all add: TAG_DELIMETER_def)

declare tag_scan.simps [simp del]

text \<open>The offset of the tag in the text; a null text has no cells.\<close>

definition getTagOffsetAndSplice ::
  "cell list option \<Rightarrow> int \<Rightarrow> encryption_offline \<Rightarrow> (int option \<times> encryption_offline) outcome" where
  "getTagOffsetAndSplice input sz s =
     (let delimeter_length = int (length TAG_DELIMETER);
          cells = (case input of None \<Rightarrow> [] | Some cs \<Rightarrow> cs) in
      bind_o (tag_scan cells (delimeter_length - 1) sz) (\<lambda>(i, sz1).
      if sz \<noteq> sz1 \<and> i = - 1 then Inr (Some (sz1 + delimeter_length), s)
      else bind_o (off_report Off_improper_ciphertext_format s) (\<lambda>s1. Inr (None, s1))))"

section \<open>AES\<close>

definition known_address :: "string \<Rightarrow> encryption_offline \<Rightarrow> bool" where
  "known_address address s \<longleftrightarrow> map_of (encryption_secrets s) address \<noteq> None \<and>
     map_of (encryption_keys s) address \<noteq> None \<and> map_of (encryption_ivs s) address \<noteq> None"

text \<open>\<open>if(!ok) setReturnCode(e);\<close>: the function goes on after the report.\<close>

definition unless_report ::
  "bool \<Rightarrow> offline_error \<Rightarrow> encryption_offline \<Rightarrow> encryption_offline outcome" where
  "unless_report ok e s = (if \<not> ok then off_report e s else Inr s)"

text \<open>Reading the key and the initial vector through \<open>c_str()\<close>, as the library does.\<close>

definition key_and_iv :: "string \<Rightarrow> encryption_offline \<Rightarrow> (string \<times> string) outcome" where
  "key_and_iv address s =
     bind_o (read_cells (c_str (fst (umap_subscript [] address (encryption_keys s)))) OFFLINE_256BIT)
       (\<lambda>key.
     bind_o (read_cells (c_str (fst (umap_subscript [] address (encryption_ivs s)))) OFFLINE_128BIT)
       (\<lambda>iv. Inr (key, iv)))"

definition additional_phrase :: "string \<Rightarrow> encryption_offline \<Rightarrow> string" where
  "additional_phrase address s = fst (umap_subscript [] address (encryption_secrets s))"

text \<open>A null pointer plus an offset other than 0 is undefined.\<close>

definition null_plus :: "int \<Rightarrow> unit outcome" where
  "null_plus n = (if n = 0 then Inr () else Inl Undefined_Behaviour)"

definition AESEncrypt ::
  "('c, 'w) evp_lib \<Rightarrow> cell list option \<Rightarrow> int \<Rightarrow> string \<Rightarrow> encryption_offline \<Rightarrow> 'w \<Rightarrow>
   (cell list option \<times> int \<times> encryption_offline \<times> 'w) outcome" where
  "AESEncrypt lib plaintext plaintext_length address s w =
     (let ciphertext = (None :: cell list option); tag = (None :: cell list option) in
      bind_o (assert_o (known_address address s)) (\<lambda>_.
      let (ctx, w1) = ev_ctx_new lib w in
      bind_o (unless_report (ctx \<noteq> None) Off_cannot_initialize_context s) (\<lambda>s1.
      bind_o (defined_o ctx) (\<lambda>c.
      let (ok, w2) = ev_encrypt_init lib c w1 in
      bind_o (unless_report (ok = 1) Off_cannot_initialize_encryption s1) (\<lambda>s2.
      let (ok, w3) = ev_set_ivlen lib c OFFLINE_128BIT w2 in
      bind_o (unless_report (ok = 1) Off_cannot_set_iv_length s2) (\<lambda>s3.
      bind_o (key_and_iv address s3) (\<lambda>(key, iv).
      let (ok, w4) = ev_encrypt_key lib c key iv w3 in
      bind_o (unless_report (ok = 1) Off_cannot_initialize_key_and_iv s3) (\<lambda>s4.
      bind_o (if address \<noteq> [] then
          let (ok, length1, w5) = ev_encrypt_update lib c (additional_phrase address s4) 0 w4 in
          bind_o (unless_report (ok = 1) Off_cannot_append_additional_phrase s4) (\<lambda>s5.
            Inr (length1, s5, w5))
        else Inr (0, s4, w4)) (\<lambda>(length1, s5, w5).
      bind_o (case plaintext of
          Some p \<Rightarrow>
            bind_o (read_cells p plaintext_length) (\<lambda>text.
            let (ok, length2, w6) = ev_encrypt_update lib c text length1 w5 in
            bind_o (unless_report (ok = 1) Off_cannot_provide_plaintext s5) (\<lambda>s6.
              Inr (length2, length2, s6, w6)))
        | None \<Rightarrow> Inr (length1, 0, s5, w5)) (\<lambda>(length2, ciphertext_length, s6, w6).
      bind_o (null_plus length2) (\<lambda>_.
      let (ok, length3, w7) = ev_encrypt_final lib c length2 w6 in
      bind_o (unless_report (ok = 1) Off_cannot_finalize_encryption s6) (\<lambda>s7.
      let ciphertext_length1 = ciphertext_length + length3 in
      bind_o (defined_o tag) (\<lambda>tag_storage.
      let (ok, tag_text, w8) = ev_get_tag lib c OFFLINE_128BIT w7 in
      bind_o (memcpy_o tag_storage (map Some tag_text) OFFLINE_128BIT) (\<lambda>tag1.
      bind_o (unless_report (ok = 1) Off_cannot_obtain_tag s7) (\<lambda>s8.
      let w9 = ev_ctx_free lib c w8 in
      bind_o (insertTag ciphertext ciphertext_length1 tag1) (\<lambda>(ciphertext1, ciphertext_length2).
        Inr (ciphertext1, ciphertext_length2, s8, w9)))))))))))))))))"

text \<open>
  In \<open>AESDecrypt\<close> the test of the call that sets the key is followed by a semicolon, so its report
  is unconditional.
\<close>

definition AESDecrypt ::
  "('c, 'w) evp_lib \<Rightarrow> cell list option \<Rightarrow> int \<Rightarrow> string \<Rightarrow> encryption_offline \<Rightarrow> 'w \<Rightarrow>
   (cell list option \<times> int \<times> encryption_offline \<times> 'w) outcome" where
  "AESDecrypt lib ciphertext ciphertext_length address s w =
     (let plaintext = (None :: cell list option) in
      bind_o (assert_o (known_address address s)) (\<lambda>_.
      let (ctx, w1) = ev_ctx_new lib w in
      bind_o (unless_report (ctx \<noteq> None) Off_cannot_initialize_context s) (\<lambda>s1.
      bind_o (defined_o ctx) (\<lambda>c.
      let (ok, w2) = ev_decrypt_init lib c w1 in
      bind_o (unless_report (ok \<noteq> 0) Off_cannot_initialize_decryption s1) (\<lambda>s2.
      let (ok, w3) = ev_set_ivlen lib c OFFLINE_128BIT w2 in
      bind_o (unless_report (ok \<noteq> 0) Off_cannot_set_iv_length s2) (\<lambda>s3.
      bind_o (key_and_iv address s3) (\<lambda>(key, iv).
      let (ok, w4) = ev_decrypt_key lib c key iv w3 in
      bind_o (off_report Off_cannot_initialize_key_and_iv s3) (\<lambda>s4.
      bind_o (if address \<noteq> [] then
          let (ok, length1, w5) = ev_decrypt_update lib c (additional_phrase address s4) 0 w4 in
          bind_o (unless_report (ok \<noteq> 0) Off_cannot_append_additional_phrase s4) (\<lambda>s5.
            Inr (length1, s5, w5))
        else Inr (0, s4, w4)) (\<lambda>(length1, s5, w5).
      bind_o (case ciphertext of
          Some p \<Rightarrow>
            bind_o (read_cells p ciphertext_length) (\<lambda>text.
            let (ok, length2, w6) = ev_decrypt_update lib c text length1 w5 in
            bind_o (unless_report (ok \<noteq> 0) Off_cannot_provide_ciphertext s5) (\<lambda>s6.
              Inr (length2, length2, s6, w6)))
        | None \<Rightarrow> Inr (length1, 0, s5, w5)) (\<lambda>(length2, plaintext_length, s6, w6).
      bind_o (getTagOffsetAndSplice ciphertext ciphertext_length s6) (\<lambda>(tag, s7).
      bind_o (defined_o tag) (\<lambda>offset.
      bind_o (read_cells (drop (nat offset) (case ciphertext of None \<Rightarrow> [] | Some cs \<Rightarrow> cs))
                OFFLINE_128BIT) (\<lambda>tag_text.
      let (ok, w7) = ev_set_tag lib c tag_text w6 in
      bind_o (unless_report (ok \<noteq> 0) Off_cannot_set_tag s7) (\<lambda>s8.
      bind_o (null_plus length2) (\<lambda>_.
      let (status, length3, w8) = ev_decrypt_final lib c length2 w7; w9 = ev_ctx_free lib c w8 in
      if 0 < status then Inr (plaintext, plaintext_length + length3, s8, w9)
      else bind_o (off_report Off_cannot_verify_decryption s8) (\<lambda>s9.
        Inr (plaintext, plaintext_length, s9, w9)))))))))))))))))"

text \<open>The two default functions call each other's counterpart.\<close>

definition AESDecryptDefault ::
  "('c, 'w) evp_lib \<Rightarrow> cell list option \<Rightarrow> int \<Rightarrow> encryption_offline \<Rightarrow> 'w \<Rightarrow>
   (cell list option \<times> int \<times> encryption_offline \<times> 'w) outcome" where
  "AESDecryptDefault lib ciphertext ciphertext_length s w =
     AESEncrypt lib ciphertext ciphertext_length ENCRYPTION_STARTUP_ADDRESS s w"

definition AESEncryptDefault ::
  "('c, 'w) evp_lib \<Rightarrow> cell list option \<Rightarrow> int \<Rightarrow> encryption_offline \<Rightarrow> 'w \<Rightarrow>
   (cell list option \<times> int \<times> encryption_offline \<times> 'w) outcome" where
  "AESEncryptDefault lib plaintext plaintext_length s w =
     AESDecrypt lib plaintext plaintext_length ENCRYPTION_STARTUP_ADDRESS s w"

section \<open>Base64 and digests\<close>

text \<open>
  \<open>encode\<close> is the text the base64 filter produces without line breaks.  The result is assigned from
  a C string; \<open>*length\<close> is the length of the text.
\<close>

definition base64Encode :: "(string \<Rightarrow> string) \<Rightarrow> cell list \<Rightarrow> int \<Rightarrow> (string \<times> int) outcome" where
  "base64Encode encode input len =
     bind_o (read_cells input len) (\<lambda>bytes.
     let text = encode bytes; len1 = int (length text) in
     bind_o (new_chars (len1 + 1)) (\<lambda>c_string_storage.
     bind_o (memcpy_o c_string_storage (map Some text) len1) (\<lambda>copied.
     bind_o (write_cells (Some copied) len1 [Some nul]) (\<lambda>terminated.
     bind_o (defined_o terminated) (\<lambda>cs.
     bind_o (c_string cs) (\<lambda>result. Inr (result, len1)))))))"

text \<open>
  \<open>decode\<close> is \<open>BIO_read\<close> through the filter: the count it returns and the bytes it stores, at most
  as many as it was asked for.
\<close>

definition base64Decode ::
  "(string \<Rightarrow> int \<Rightarrow> int \<times> string) \<Rightarrow> cell list \<Rightarrow> (cell list option \<times> int) outcome" where
  "base64Decode decode input =
     bind_o (c_string input) (\<lambda>text.
     let old_length = int (length text) in
     bind_o (new_chars old_length) (\<lambda>result.
     let (local_length, bytes) = decode text old_length in
     bind_o (memcpy_o result (map Some bytes) (int (length bytes))) (\<lambda>result1.
     bind_o (placement_new result1 (local_length - old_length + 1)) (\<lambda>result2.
     bind_o (write_cells result2 local_length [Some nul]) (\<lambda>result3.
       Inr (result3, local_length))))))"

definition getSHA ::
  "(string \<Rightarrow> string option) \<Rightarrow> cell list \<Rightarrow> int \<Rightarrow> encryption_offline \<Rightarrow>
   (cell list \<times> encryption_offline) outcome" where
  "getSHA sha payload payload_length s =
     bind_o (new_chars OFFLINE_512BIT) (\<lambda>result.
     bind_o (read_cells payload payload_length) (\<lambda>text.
     case sha text of
       None \<Rightarrow> bind_o (off_report Off_cannot_get_SHA s) (\<lambda>s1. Inr (result, s1))
     | Some digest \<Rightarrow>
         bind_o (memcpy_o (encryption_sha512 s) (map Some digest) OFFLINE_512BIT) (\<lambda>buffer.
         let s1 = s\<lparr>encryption_sha512 := buffer\<rparr> in
         bind_o (memcpy_o result (encryption_sha512 s1) OFFLINE_512BIT) (\<lambda>result1.
           Inr (result1, s1)))))"

text \<open>\<open>strncmp(a, b, n) == 0\<close>: the comparison ends at the first difference or common NUL.\<close>

fun strncmp_equal :: "cell list \<Rightarrow> cell list \<Rightarrow> nat \<Rightarrow> bool outcome" where
  "strncmp_equal a b 0 = Inr True"
| "strncmp_equal (Some x # a) (Some y # b) (Suc n) =
     (if x \<noteq> y then Inr False else if x = nul then Inr True else strncmp_equal a b n)"
| "strncmp_equal a b (Suc n) = Inl Undefined_Behaviour"

definition compareSHA ::
  "(string \<Rightarrow> string option) \<Rightarrow> cell list \<Rightarrow> int \<Rightarrow> cell list \<Rightarrow> int \<Rightarrow> encryption_offline \<Rightarrow>
   (bool \<times> encryption_offline) outcome" where
  "compareSHA sha message message_size SHA_text SHA_size s =
     bind_o (getSHA sha message message_size s) (\<lambda>(message_SHA, s1).
     bind_o (strncmp_equal SHA_text message_SHA (nat OFFLINE_512BIT)) (\<lambda>result.
       Inr (result, s1)))"

section \<open>Reports\<close>

interpretation off_errors: class_errors offline_error_code offline_local_errors
proof unfold_locales
  fix e
  show "0 \<le> offline_error_code e \<and> offline_error_code e < int (length offline_local_errors)"
    by (cases e) (simp_all add: offline_local_errors_def)
qed (simp add: offline_local_errors_def)

lemma off_report_simps [simp]:
  "off_report Off_cannot_initialize_context s =
     Inr (s\<lparr>debug_class_return_code := Some 0, debug_class_status := ''OK''\<rparr>)"
  "off_report Off_cannot_initialize_encryption s =
     Inr (s\<lparr>debug_class_return_code := Some 1, debug_class_status := ''Allocation failed''\<rparr>)"
  "off_report Off_cannot_initialize_decryption s = Inl Assertion_Failed"
  "off_report Off_cannot_set_iv_length s = Inl Assertion_Failed"
  "off_report Off_cannot_initialize_key_and_iv s = Inl Assertion_Failed"
  "off_report Off_improper_ciphertext_format s = Inl Assertion_Failed"
  "off_report Off_cannot_get_SHA s = Inl Assertion_Failed"
  unfolding off_report_def off_errors.report_cases by simp_all

lemma unless_report_simps [simp]:
  "unless_report True e s = Inr s" "unless_report False e s = off_report e s"
  by (simp_all add: unless_report_def)

section \<open>AES never returns\<close>

lemma on_return_True [simp]: "on_return m (\<lambda>_. True)"
  by (cases m) simp_all

lemma on_return_False_iff: "on_return m (\<lambda>_. False) \<longleftrightarrow> (\<exists>f. m = Inl f)"
  by (cases m) simp_all

lemma AESEncrypt_faults: "\<exists>f. AESEncrypt lib plaintext n address s w = Inl f"
  unfolding on_return_False_iff [symmetric] AESEncrypt_def Let_def on_return_bind
  by (simp split: prod.splits option.splits)

definition key_usable :: "string \<Rightarrow> encryption_offline \<Rightarrow> bool" where
  "key_usable address s \<longleftrightarrow>
     31 \<le> length (fst (umap_subscript [] address (encryption_keys s))) \<and>
     15 \<le> length (fst (umap_subscript [] address (encryption_ivs s)))"

lemma read_cells_c_str_prefix:
  "0 \<le> n \<Longrightarrow> read_cells (c_str k) n =
     (if n \<le> int (length k) + 1 then Inr (take (nat n) (k @ [nul])) else Inl Undefined_Behaviour)"
proof -
  have c: "c_str k = map Some (k @ [nul])" by (simp add: c_str_def)
  show "0 \<le> n \<Longrightarrow> ?thesis"
    unfolding c by (auto simp: read_cells_def take_map simp del: map_append)
qed

lemma key_and_iv_cases:
  "key_usable address s \<Longrightarrow> \<exists>k. key_and_iv address s = Inr k"
  "\<not> key_usable address s \<Longrightarrow> key_and_iv address s = Inl Undefined_Behaviour"
  by (auto simp: key_and_iv_def key_usable_def read_cells_c_str_prefix OFFLINE_256BIT_def
      OFFLINE_128BIT_def)

text \<open>Claim C23.  Neither AES function ever returns, whatever the library does.  Encryption faults on
  every input (at the latest where it passes the pointer \<open>tag\<close>, which has no value); decryption
  fails an assertion in the report that a stray semicolon makes unconditional, except that without
  a context, or with a stored key or initial vector that is too short, it is undefined before.\<close>

theorem aes_never_returns:
  "(\<exists>f. AESEncrypt lib plaintext n address s w = Inl f) \<and>
   AESDecrypt lib ciphertext m address s w = Inl
     (if \<not> known_address address s then Assertion_Failed
      else case ev_ctx_new lib w of (None, _) \<Rightarrow> Undefined_Behaviour
        | (Some ctx, w1) \<Rightarrow>
            (let (ok1, w2) = ev_decrypt_init lib ctx w1;
                 (ok2, _) = ev_set_ivlen lib ctx OFFLINE_128BIT w2 in
             if ok1 \<noteq> 0 \<and> ok2 \<noteq> 0 \<and> \<not> key_usable address s then Undefined_Behaviour
             else Assertion_Failed))"
proof (rule conjI [OF AESEncrypt_faults])
  show "AESDecrypt lib ciphertext m address s w = Inl
     (if \<not> known_address address s then Assertion_Failed
      else case ev_ctx_new lib w of (None, _) \<Rightarrow> Undefined_Behaviour
        | (Some ctx, w1) \<Rightarrow>
            (let (ok1, w2) = ev_decrypt_init lib ctx w1;
                 (ok2, _) = ev_set_ivlen lib ctx OFFLINE_128BIT w2 in
             if ok1 \<noteq> 0 \<and> ok2 \<noteq> 0 \<and> \<not> key_usable address s then Undefined_Behaviour
             else Assertion_Failed))"
  proof (cases "known_address address s")
    case True
    obtain ctx w1 where new: "ev_ctx_new lib w = (ctx, w1)" by fastforce
    show ?thesis
    proof (cases ctx)
      case None
      with True new show ?thesis by (simp add: AESDecrypt_def)
    next
      case (Some c)
      obtain ok1 w2 where init: "ev_decrypt_init lib c w1 = (ok1, w2)" by fastforce
      obtain ok2 w3 where ivlen: "ev_set_ivlen lib c OFFLINE_128BIT w2 = (ok2, w3)" by fastforce
      from True new Some init ivlen show ?thesis
        by (cases "key_usable address s"; cases "ok1 = 0"; cases "ok2 = 0")
           (auto simp: AESDecrypt_def Let_def key_and_iv_cases(2) split: prod.splits
             dest: key_and_iv_cases(1))
    qed
  qed (simp add: AESDecrypt_def)
qed

section \<open>The search for the tag\<close>

text \<open>
  The reference: the delimiter starts at position \<open>p\<close> of a text; the search must find the last
  such position, leaving out position 0.
\<close>

definition delimiter_at :: "string \<Rightarrow> nat \<Rightarrow> bool" where
  "delimiter_at t p \<longleftrightarrow> p + 1 < length t \<and> t ! p = newline \<and> t ! (p + 1) = newline"

definition delimiter_positions :: "string \<Rightarrow> nat \<Rightarrow> nat list" where
  "delimiter_positions t n = filter (delimiter_at t) [1..<n]"

lemma cell_at_text: "n < length t \<Longrightarrow> cell_at (map Some t) (int n) = Inr (t ! n)"
  by (simp add: cell_at_def)

lemma delimiter_positions_Suc:
  "delimiter_positions t (Suc n) =
     delimiter_positions t n @ (if 1 \<le> n \<and> delimiter_at t n then [n] else [])"
  by (simp add: delimiter_positions_def)

lemma tag_scan_text:
  "n \<le> length t \<Longrightarrow>
   (case tag_scan (map Some t) 1 (int n) of Inl _ \<Rightarrow> False | Inr (i, z) \<Rightarrow>
      if delimiter_positions t (n - 1) = [] then i \<noteq> - 1
      else i = - 1 \<and> z = int (last (delimiter_positions t (n - 1)))) \<and>
   (n < length t \<and> t ! n = newline \<longrightarrow>
    (case tag_scan (map Some t) 0 (int n) of Inl _ \<Rightarrow> False | Inr (i, z) \<Rightarrow>
       if delimiter_positions t n = [] then i \<noteq> - 1
       else i = - 1 \<and> z = int (last (delimiter_positions t n))))"
proof (induction n)
  case 0
  then show ?case
    by (simp add: tag_scan.simps [of _ _ 0] TAG_DELIMETER_def delimiter_positions_def)
next
  case (Suc n)
  show ?case
  proof (cases n)
    case 0
    then show ?thesis
      by (simp add: tag_scan.simps [of _ _ "1"] TAG_DELIMETER_def delimiter_positions_def)
  next
    case (Suc k)
    have c: "cell_at (map Some t) (int n) = Inr (t ! n)" using Suc.prems by (simp add: cell_at_text)
    have step: "tag_scan (map Some t) 1 (int (Suc n)) = tag_scan (map Some t)
        (if t ! n = newline then 0 else 1) (int n)"
      "tag_scan (map Some t) 0 (int (Suc n)) =
        (if t ! n = newline then Inr (- 1, int n) else tag_scan (map Some t) 1 (int n))"
      using c Suc by (simp_all add: tag_scan.simps [of _ _ "2 + int k"] TAG_DELIMETER_def
          tag_scan.simps [of _ "- 1"])
    have IH: "case tag_scan (map Some t) 1 (int n) of Inl _ \<Rightarrow> False | Inr (i, z) \<Rightarrow>
        if delimiter_positions t (n - 1) = [] then i \<noteq> - 1
        else i = - 1 \<and> z = int (last (delimiter_positions t (n - 1)))"
      "t ! n = newline \<Longrightarrow> case tag_scan (map Some t) 0 (int n) of Inl _ \<Rightarrow> False | Inr (i, z) \<Rightarrow>
        if delimiter_positions t n = [] then i \<noteq> - 1
        else i = - 1 \<and> z = int (last (delimiter_positions t n))"
      using Suc.IH Suc.prems by simp_all
    show ?thesis
    proof (cases "t ! n = newline")
      case True
      have "delimiter_at t n" if "Suc n < length t" "t ! Suc n = newline"
        using that True by (simp add: delimiter_at_def)
      then have "delimiter_positions t (Suc n) = delimiter_positions t n @ [n]"
        if "Suc n < length t" "t ! Suc n = newline"
        using that Suc by (simp add: delimiter_positions_Suc)
      with IH(2) [OF True] step True show ?thesis unfolding diff_Suc_1 by auto
    next
      case False
      then have "\<not> delimiter_at t n" "\<not> delimiter_at t k" using Suc by (simp_all add: delimiter_at_def)
      then have same: "delimiter_positions t n = delimiter_positions t (n - 1)"
        "delimiter_positions t (Suc n) = delimiter_positions t (n - 1)"
        using Suc by (simp_all add: delimiter_positions_Suc)
      from IH(1) step False show ?thesis unfolding diff_Suc_1 same by simp
    qed
  qed
qed

lemma tag_search_text:
  "getTagOffsetAndSplice (Some (map Some t)) (int (length t)) s =
    (let ps = filter (delimiter_at t) [1..<length t] in
     if ps = [] then Inl Assertion_Failed else Inr (Some (int (last ps) + 2), s))"
proof -
  have "delimiter_positions t (length t) = delimiter_positions t (length t - 1)"
  proof (cases "length t")
    case (Suc n)
    then show ?thesis by (simp add: delimiter_positions_Suc delimiter_at_def)
  qed simp
  then have ps: "filter (delimiter_at t) [1..<length t] = delimiter_positions t (length t - 1)"
    by (simp add: delimiter_positions_def)
  have below: "last (delimiter_positions t (length t - 1)) < length t"
    if "delimiter_positions t (length t - 1) \<noteq> []"
    using last_in_set [OF that] by (auto simp: delimiter_positions_def)
  obtain r where r: "tag_scan (map Some t) 1 (int (length t)) = r" by simp
  from tag_scan_text [of "length t" t, unfolded r] below show ?thesis
    unfolding ps by (cases r) (auto simp: getTagOffsetAndSplice_def r Let_def TAG_DELIMETER_def
      split: if_splits)
qed

text \<open>Claim C9.  The backward scan for the tag is equivalent to its specification: on every text it
  returns the offset behind the last delimiter that does not start at position 0, and fails the
  assertion of its report when there is none.\<close>

theorem tag_search_last_delimiter:
  "getTagOffsetAndSplice (Some (map Some t)) (int (length t)) s =
    (let ps = filter (delimiter_at t) [1..<length t] in
     if ps = [] then Inl Assertion_Failed else Inr (Some (int (last ps) + 2), s))"
  by (rule tag_search_text)

lemma last_filter_upt:
  "filter P [m..<n] \<noteq> [] \<and> last (filter P [m..<n]) = k \<longleftrightarrow>
   m \<le> k \<and> k < n \<and> P k \<and> (\<forall>j. k < j \<and> j < n \<longrightarrow> \<not> P j)"
proof (induction n)
  case (Suc n)
  show ?case
  proof (cases "m \<le> n \<and> P n")
    case True
    then show ?thesis by (auto simp: less_Suc_eq)
  next
    case False
    then have "filter P [m..<Suc n] = filter P [m..<n]" by auto
    with Suc.IH False show ?thesis by (auto simp: less_Suc_eq)
  qed
qed simp

lemma delimiter_behind:
  "delimiter_at (ct @ TAG_DELIMETER @ tag) (length ct + Suc p) = delimiter_at (newline # tag) p"
  by (auto simp: delimiter_at_def TAG_DELIMETER_def nth_append nth_Cons')

text \<open>Claim C24.  When the tag is found again: for a text laid out as the ciphertext, the delimiter
  and the tag, the search returns the offset of the tag exactly if the ciphertext is not empty, the
  tag does not start with a newline and the tag does not contain the delimiter itself.\<close>

theorem tag_offset_roundtrip:
  "getTagOffsetAndSplice (Some (map Some (ct @ TAG_DELIMETER @ tag)))
      (int (length (ct @ TAG_DELIMETER @ tag))) s = Inr (Some (int (length ct) + 2), s) \<longleftrightarrow>
   ct \<noteq> [] \<and> (\<forall>p < length tag. \<not> delimiter_at (newline # tag) p)"
proof -
  let ?t = "ct @ TAG_DELIMETER @ tag"
  have at: "delimiter_at ?t (length ct)" by (simp add: delimiter_at_def TAG_DELIMETER_def nth_append)
  have n: "length ?t = length ct + 2 + length tag" by (simp add: TAG_DELIMETER_def)
  have "(\<forall>j. length ct < j \<and> j < length ?t \<longrightarrow> \<not> delimiter_at ?t j) \<longleftrightarrow>
      (\<forall>p < length tag + 1. \<not> delimiter_at (newline # tag) p)"
  proof (intro iffI allI impI)
    fix p
    assume "\<forall>j. length ct < j \<and> j < length ?t \<longrightarrow> \<not> delimiter_at ?t j" and "p < length tag + 1"
    then show "\<not> delimiter_at (newline # tag) p"
      using delimiter_behind [of ct tag p] n by auto
  next
    fix j
    assume a: "\<forall>p < length tag + 1. \<not> delimiter_at (newline # tag) p" and j: "length ct < j \<and> j < length ?t"
    then obtain p where "j = length ct + Suc p" by (metis add_Suc_right less_imp_Suc_add)
    with a j n delimiter_behind [of ct tag p] show "\<not> delimiter_at ?t j" by simp
  qed
  moreover have "\<not> delimiter_at (newline # tag) (length tag)" by (simp add: delimiter_at_def)
  ultimately have behind: "(\<forall>j. length ct < j \<and> j < length ?t \<longrightarrow> \<not> delimiter_at ?t j) \<longleftrightarrow>
      (\<forall>p < length tag. \<not> delimiter_at (newline # tag) p)"
    by (auto simp: less_Suc_eq)
  have "(let ps = filter (delimiter_at ?t) [1..<length ?t] in
      if ps = [] then Inl Assertion_Failed else Inr (Some (int (last ps) + 2), s)) =
        (Inr (Some (int (length ct) + 2), s) :: (int option \<times> encryption_offline) outcome) \<longleftrightarrow>
      filter (delimiter_at ?t) [1..<length ?t] \<noteq> [] \<and>
      last (filter (delimiter_at ?t) [1..<length ?t]) = length ct"
    by (simp add: Let_def)
  also have "\<dots> \<longleftrightarrow> ct \<noteq> [] \<and> (\<forall>p < length tag. \<not> delimiter_at (newline # tag) p)"
    unfolding last_filter_upt behind using at n by (cases ct) auto
  finally show ?thesis unfolding tag_search_text .
qed

theorem tag_offset_roundtrip_witness:
  "getTagOffsetAndSplice (Some (map Some (''ab'' @ TAG_DELIMETER @ ''tag''))) 7 offline_new =
     Inr (Some 4, offline_new)"
proof -
  have "\<not> delimiter_at (newline # ''tag'') p" for p
    by (auto simp: delimiter_at_def newline_def nth_Cons' split: if_splits)
  then show ?thesis
    using tag_offset_roundtrip [of "''ab''" "''tag''" offline_new] by (simp add: TAG_DELIMETER_def)
qed

section \<open>Base64\<close>

text \<open>Encoding returns the text of the base64 filter and its length, for every input whose
  bytes can be read and whose encoding has no NUL; decoding is undefined on every input: the second
  \<open>new\<close> asks for \<open>local_length - old_length + 1\<close> characters, which never leaves room for the
  terminator.\<close>

theorem base64_one_way:
  assumes "nul \<notin> set (encode bytes)"
    and "\<And>t n. 0 \<le> n \<Longrightarrow> fst (decode t n) \<le> n"
    and "\<And>t n. 0 \<le> n \<Longrightarrow> int (length (snd (decode t n))) \<le> n"
  shows "base64Encode encode (map Some bytes) (int (length bytes)) =
      Inr (encode bytes, int (length (encode bytes))) \<and>
    base64Decode decode input = Inl Undefined_Behaviour"
proof
  let ?t = "encode bytes"
  have "c_string (map Some ?t @ [Some nul]) = Inr ?t" using assms(1) by (simp add: c_string_eq_Inr_iff)
  then show "base64Encode encode (map Some bytes) (int (length bytes)) = Inr (?t, int (length ?t))"
    by (simp add: base64Encode_def Let_def new_chars_def memcpy_o_def write_cells_def nat_add_distrib)
next
  show "base64Decode decode input = Inl Undefined_Behaviour"
  proof (cases "c_string input")
    case (Inl f)
    then show ?thesis using c_string_fault [OF Inl] by (simp add: base64Decode_def)
  next
    case (Inr t)
    let ?old = "int (length t)"
    obtain k out where d: "decode t ?old = (k, out)" by fastforce
    with assms(2,3) [of ?old t] have "k \<le> ?old" "int (length out) \<le> ?old" by simp_all
    with Inr d show ?thesis
      by (auto simp: base64Decode_def Let_def new_chars_def memcpy_o_def placement_new_def
          write_cells_def)
  qed
qed

theorem base64_one_way_witness:
  "base64Encode rev (map Some ''abc'') 3 = Inr (''cba'', 3) \<and>
   base64Decode (\<lambda>t n. (n, [])) (map Some ''abc'' @ [Some nul]) = Inl Undefined_Behaviour"
  using base64_one_way [of rev "''abc''" "\<lambda>t n. (n, [])" "map Some ''abc'' @ [Some nul]"]
  by (simp add: nul_def)

section \<open>Comparing digests\<close>

lemma strncmp_equal_text:
  "length a = length b \<Longrightarrow>
   strncmp_equal (map Some a) (map Some b) (length a) =
     Inr (takeWhile (\<lambda>c. c \<noteq> nul) a = takeWhile (\<lambda>c. c \<noteq> nul) b)"
  by (induction a b rule: list_induct2) auto

text \<open>Claim C30.  \<open>compareSHA\<close> compares digests as C strings.  With a digest function that succeeds,
  the result says whether the two digests agree up to their first zero byte: what follows it is
  never looked at, so that different digests can compare as equal.  The size of the other digest
  is not looked at either, and the object keeps the digest of the message.\<close>

theorem compareSHA_up_to_zero:
  assumes "sha message = Some digest" and "length digest = 64" and "length other = 64"
    and "length (encryption_sha512 s) = 64"
  shows "compareSHA sha (map Some message) (int (length message)) (map Some other) n s =
    Inr (takeWhile (\<lambda>c. c \<noteq> nul) other = takeWhile (\<lambda>c. c \<noteq> nul) digest,
      s\<lparr>encryption_sha512 := map Some digest\<rparr>)"
proof -
  have "getSHA sha (map Some message) (int (length message)) s =
      Inr (map Some digest, s\<lparr>encryption_sha512 := map Some digest\<rparr>)"
    using assms by (simp add: getSHA_def new_chars_def OFFLINE_512BIT_def memcpy_o_def)
  then show ?thesis
    using assms strncmp_equal_text [of other digest] by (simp add: compareSHA_def OFFLINE_512BIT_def)
qed

theorem compareSHA_up_to_zero_witness:
  "\<exists>s. compareSHA (\<lambda>_. Some (nul # replicate 63 (CHR ''a''))) [] 0
     (map Some (nul # replicate 63 (CHR ''b''))) 64 offline_new = Inr (True, s)"
  using compareSHA_up_to_zero [of "\<lambda>_. Some (nul # replicate 63 (CHR ''a''))" "[]"
      "nul # replicate 63 (CHR ''a'')" "nul # replicate 63 (CHR ''b'')" offline_new 64]
  by (simp add: offline_new_def debug_status.defs encryption_offline.defs OFFLINE_512BIT_def)

section \<open>The tables\<close>

datatype offline_op =
    Set_keys string string string
  | Wipe_keys string
  | Add_secret string string
  | Wipe_secret string
  | Set_default string
  | Wipe_default

primrec offline_step :: "offline_op \<Rightarrow> encryption_offline \<Rightarrow> encryption_offline outcome" where
  "offline_step (Set_keys key iv a) s = setKeys (c_str key) (c_str iv) a s"
| "offline_step (Wipe_keys a) s = Inr (wipeKeys a s)"
| "offline_step (Add_secret a secret) s = addAddressSecret a secret s"
| "offline_step (Wipe_secret a) s = Inr (wipeAddressSecret a s)"
| "offline_step (Set_default secret) s = setDefault secret s"
| "offline_step Wipe_default s = Inr (wipeDefault s)"

primrec offline_run ::
  "offline_op list \<Rightarrow> encryption_offline \<Rightarrow> encryption_offline outcome" where
  "offline_run [] s = Inr s"
| "offline_run (op # ops) s = bind_o (offline_step op s) (offline_run ops)"

primrec offline_valid :: "offline_op \<Rightarrow> bool" where
  "offline_valid (Set_keys key iv a) \<longleftrightarrow> a \<noteq> [] \<and> nul \<notin> set key \<and> nul \<notin> set iv"
| "offline_valid (Wipe_keys a) \<longleftrightarrow> True"
| "offline_valid (Add_secret a secret) \<longleftrightarrow> a \<noteq> [] \<and> secret \<noteq> []"
| "offline_valid (Wipe_secret a) \<longleftrightarrow> True"
| "offline_valid (Set_default secret) \<longleftrightarrow> secret \<noteq> []"
| "offline_valid Wipe_default \<longleftrightarrow> True"

text \<open>The specification: one map from addresses to pairs of key and vector, and one to secrets.\<close>

type_synonym key_tables = "(string \<rightharpoonup> string \<times> string) \<times> (string \<rightharpoonup> string)"

definition insert_new :: "'k \<Rightarrow> 'v \<Rightarrow> ('k \<rightharpoonup> 'v) \<Rightarrow> 'k \<rightharpoonup> 'v" where
  "insert_new k v m = (if m k = None then m(k \<mapsto> v) else m)"

primrec offline_spec :: "offline_op \<Rightarrow> key_tables \<Rightarrow> key_tables" where
  "offline_spec (Set_keys key iv a) t = (insert_new a (key, iv) (fst t), snd t)"
| "offline_spec (Wipe_keys a) t = ((fst t)(a := None), snd t)"
| "offline_spec (Add_secret a secret) t = (fst t, insert_new a secret (snd t))"
| "offline_spec (Wipe_secret a) t = (fst t, (snd t)(a := None))"
| "offline_spec (Set_default secret) t =
     (insert_new ''_default'' (''93853810395438910475691239120591'', ''1123789831053045'') (fst t),
      insert_new ''_default'' secret (snd t))"
| "offline_spec Wipe_default t = ((fst t)(''_default'' := None), (snd t)(''_default'' := None))"

text \<open>The two tables of keys and vectors always have the same addresses.\<close>

definition offline_view :: "encryption_offline \<Rightarrow> key_tables" where
  "offline_view s =
     (\<lambda>a. case (map_of (encryption_keys s) a, map_of (encryption_ivs s) a) of
        (Some key, Some iv) \<Rightarrow> Some (key, iv) | _ \<Rightarrow> None, map_of (encryption_secrets s))"

definition offline_inv :: "encryption_offline \<Rightarrow> bool" where
  "offline_inv s \<longleftrightarrow> (\<forall>a. map_of (encryption_keys s) a = None \<longleftrightarrow> map_of (encryption_ivs s) a = None)"

lemma map_of_emplace: "map_of (snd (umap_emplace k v m)) = insert_new k v (map_of m)"
  by (auto simp: umap_emplace_def insert_new_def)

lemma setKeys_refines:
  assumes "offline_inv s" and "a \<noteq> []" and "nul \<notin> set key" and "nul \<notin> set iv"
  shows "\<exists>s'. setKeys (c_str key) (c_str iv) a s = Inr s' \<and> offline_inv s' \<and>
    offline_view s' = (insert_new a (key, iv) (fst (offline_view s)), snd (offline_view s))"
  using assms
  by (auto simp: setKeys_def offline_inv_def offline_view_def map_of_emplace insert_new_def fun_eq_iff
      split: option.splits)

lemma wipeKeys_refines:
  assumes "offline_inv s"
  shows "offline_inv (wipeKeys a s) \<and>
    offline_view (wipeKeys a s) = ((fst (offline_view s))(a := None), snd (offline_view s))"
  using assms by (auto simp: wipeKeys_def offline_inv_def offline_view_def fun_eq_iff)

lemma addAddressSecret_refines:
  assumes "offline_inv s" and "a \<noteq> []" and "secret \<noteq> []"
  shows "\<exists>s'. addAddressSecret a secret s = Inr s' \<and> offline_inv s' \<and>
    offline_view s' = (fst (offline_view s), insert_new a secret (snd (offline_view s)))"
  using assms
  by (auto simp: addAddressSecret_def offline_inv_def offline_view_def map_of_emplace fun_eq_iff
      split: option.splits)

lemma wipeAddressSecret_refines:
  assumes "offline_inv s"
  shows "offline_inv (wipeAddressSecret a s) \<and>
    offline_view (wipeAddressSecret a s) = (fst (offline_view s), (snd (offline_view s))(a := None))"
  using assms
  by (auto simp: wipeAddressSecret_def offline_inv_def offline_view_def fun_eq_iff split: option.splits)

lemma startup_text:
  "ENCRYPTION_STARTUP_ADDRESS \<noteq> []" "nul \<notin> set ENCRYPTION_STARTUP_KEY" "nul \<notin> set ENCRYPTION_STARTUP_IV"
  by (simp_all add: ENCRYPTION_STARTUP_ADDRESS_def ENCRYPTION_STARTUP_KEY_def
      ENCRYPTION_STARTUP_IV_def nul_def)

lemma offline_step_refines:
  assumes "offline_inv s" and "offline_valid op"
  shows "\<exists>s'. offline_step op s = Inr s' \<and> offline_inv s' \<and>
    offline_view s' = offline_spec op (offline_view s)"
proof (cases op)
  case (Set_default secret)
  with assms obtain s1 where s1: "addAddressSecret ENCRYPTION_STARTUP_ADDRESS secret s = Inr s1"
    "offline_inv s1" "offline_view s1 =
      (fst (offline_view s), insert_new ENCRYPTION_STARTUP_ADDRESS secret (snd (offline_view s)))"
    using addAddressSecret_refines startup_text(1) by (metis offline_valid.simps(5))
  from setKeys_refines [OF s1(2) startup_text] s1 Set_default show ?thesis
    by (auto simp: setDefault_def ENCRYPTION_STARTUP_ADDRESS_def ENCRYPTION_STARTUP_KEY_def
        ENCRYPTION_STARTUP_IV_def)
next
  case Wipe_default
  with assms wipeKeys_refines [OF assms(1)] wipeAddressSecret_refines show ?thesis
    by (simp add: wipeDefault_def ENCRYPTION_STARTUP_ADDRESS_def)
qed (use assms setKeys_refines wipeKeys_refines addAddressSecret_refines wipeAddressSecret_refines
     in \<open>simp_all\<close>)

text \<open>Claim C7.  The tables of keys, vectors and secrets refine two maps.  Any sequence of valid calls
  returns and leaves what the maps have, in which an address keeps its first key, vector and secret
  until they are wiped: setting new ones, as the comments ask for, has no effect.\<close>

theorem offline_refines_maps:
  assumes "list_all offline_valid ops"
  shows "\<exists>s'. offline_run ops offline_new = Inr s' \<and>
    offline_view s' = fold offline_spec ops (Map.empty, Map.empty)"
proof -
  have "offline_inv s \<Longrightarrow> list_all offline_valid ops \<Longrightarrow>
      \<exists>s'. offline_run ops s = Inr s' \<and> offline_view s' = fold offline_spec ops (offline_view s)" for s
  proof (induction ops arbitrary: s)
    case (Cons op ops)
    from Cons.prems offline_step_refines [of s op] obtain s1 where "offline_step op s = Inr s1"
      "offline_inv s1" "offline_view s1 = offline_spec op (offline_view s)" by auto
    with Cons.IH [of s1] Cons.prems show ?case by simp
  qed simp
  from this [of offline_new] assms show ?thesis
    by (simp add: offline_inv_def offline_view_def offline_new_def debug_status.defs
        encryption_offline.defs)
qed

theorem offline_refines_maps_witness:
  "\<exists>s. offline_run [Set_keys ''k1'' ''v1'' ''host'', Set_keys ''k2'' ''v2'' ''host''] offline_new = Inr s \<and>
     fst (offline_view s) ''host'' = Some (''k1'', ''v1'')"
  using offline_refines_maps [of "[Set_keys ''k1'' ''v1'' ''host'', Set_keys ''k2'' ''v2'' ''host'']"]
  by (auto simp: nul_def insert_new_def)

end
