(* ===== verification/Nfs_Revisioning.thy ===== *)
theory Nfs_Revisioning
  imports Nfs_Debug
begin

text \<open>
  \<open>LIBS/defs_revisioning.h\<close>: \<open>revisioning_file\<close> and \<open>revisioning_filesystem\<close>.  The two classes have
  no members besides the base class, one placeholder error each, a constructor and an empty
  destructor; every other method is a comment.
\<close>

datatype revisioning_error = Generic_placeholder

primrec revisioning_error_code :: "revisioning_error \<Rightarrow> int" where
  "revisioning_error_code Generic_placeholder = 0"

definition revisioning_file_local_errors :: "string list" where
  "revisioning_file_local_errors = [''Generic placeholder'']"

definition revisioning_filesystem_local_errors :: "string list" where
  "revisioning_filesystem_local_errors = [''Generic placeholder'']"

definition REVISIONING_ERROR_COUNT :: int where
  "REVISIONING_ERROR_COUNT = 1"

definition revisioning_file_new :: debug_status where
  "revisioning_file_new = debug_status_new revisioning_file_local_errors
     (getMinClassError + REVISIONING_ERROR_COUNT - 1)"

definition revisioning_filesystem_new :: debug_status where
  "revisioning_filesystem_new = debug_status_new revisioning_filesystem_local_errors
     (getMinClassError + REVISIONING_ERROR_COUNT - 1)"

interpretation rev_errors: class_errors revisioning_error_code revisioning_file_local_errors
proof unfold_locales
  fix e
  show "0 \<le> revisioning_error_code e \<and>
      revisioning_error_code e < int (length revisioning_file_local_errors)"
    by (cases e) (simp add: revisioning_file_local_errors_def)
qed (simp add: revisioning_file_local_errors_def)

text \<open>The one error of the classes can be reported on a new object, with the class minimum added.\<close>

lemma revisioning_report:
  "setReturnCode (getMinClassError + revisioning_error_code e) revisioning_file_new =
     Inr (revisioning_file_new\<lparr>debug_class_return_code := Some 2500,
       debug_class_status := ''Generic placeholder''\<rparr>)"
  using rev_errors.report_intended [of revisioning_file_new e]
  by (cases e) (simp add: class_status_ok_def revisioning_file_new_def debug_status_new_def
      revisioning_file_local_errors_def REVISIONING_ERROR_COUNT_def getMinClassError_def)

lemma revisioning_new_same: "revisioning_filesystem_new = revisioning_file_new"
  by (simp add: revisioning_file_new_def revisioning_filesystem_new_def
      revisioning_file_local_errors_def revisioning_filesystem_local_errors_def)

end
