(* ===== verification/Spec2Isabelle.thy ===== *)
theory Spec2Isabelle
  imports Nfs_Reentrant Nfs_Callbacks Nfs_Internal Nfs_Network Nfs_Managers Nfs_Offline Nfs_Revisioning
begin

text \<open>
  A verification library for the Networked File System, the C++14 program under
  \<open>src/SRC_FS_MERGE\<close>.  The program is a set of class libraries, one header per component in
  \<open>LIBS/\<close>; \<open>mgr.cpp\<close> has an empty \<open>main\<close> and \<open>CORE/\<close> only includes the headers.  What can be
  verified is therefore each class, for every way a client may use it, and the classes together
  where one is built from others.

  \<^bold>\<open>The parts and how they interact.\<close>
  \<open>file_descriptor\<close> (\<open>defs_file.h\<close>) wraps an \<open>fstream\<close> and is used by the logger and by the file
  system head.  \<open>debug_status\<close> (\<open>defs_debug.h\<close>) is the base class of every class that reports
  errors: it keeps a return code and a text.  \<open>handler_callback\<close> (\<open>defs_handler.h\<close>) stores a
  function with its arguments; the two schedulers (\<open>defs_scheduler.h\<close>) keep tables and queues of
  them, one drained by calls of \<open>run\<close>, the other by signals.  \<open>filesystem_head\<close>
  (\<open>defs_filesystem.h\<close>) walks and changes a directory tree; \<open>internal_filesystem\<close>
  (\<open>defs_internal.h\<close>) moves such a head together with a cursor on a tree of its own, and keeps a
  table of what other hosts hold; \<open>network_instance\<close> (\<open>defs_network.h\<close>) carries framed payloads;
  \<open>concurrency_manager\<close> (\<open>defs_concurrency.h\<close>) starts queued tasks on threads of their own.
  \<open>encryption_networked\<close> and \<open>encryption_offline\<close> (\<open>defs_encryption.h\<close>) wrap RSA, AES, base64 and
  SHA-512 of OpenSSL for the payloads; \<open>defs_revisioning.h\<close> declares two classes that have nothing
  but a constructor yet.

  \<^bold>\<open>Which theory models what.\<close>
  \<^item> \<open>Nfs_Prelude\<close>: faults and outcomes, memory cells and C strings, \<open>unordered_map\<close>,
    \<open>find_if\<close>/\<open>erase\<close>, number output and stream extraction, with the lemmas all theories share.
  \<^item> \<open>Nfs_Registry\<close>: the locale \<open>simulation\<close>, operations that follow a specification of their
    results and of an abstract state, and that any sequence of them does; the locale \<open>registry\<close>, the
    contract of a store indexed by identifiers, which is a simulation of a map.
  \<^item> \<open>Nfs_Time\<close> (\<open>defs_time.h\<close>): \<open>time_setter_getter\<close>, \<open>time_now\<close>.
  \<^item> \<open>Nfs_File\<close> (\<open>defs_file.h\<close>): \<open>file_descriptor\<close>, every method and the destructor, over a model of
    the disk and of the buffered \<open>std::fstream\<close>: what is written reaches the file when the library
    empties the put area, at a seek, or when the descriptor is destroyed (\<open>file_destroy\<close>).
  \<^item> \<open>Nfs_Debug\<close> (\<open>defs_debug.h\<close>): \<open>debug_status\<close> and \<open>debug_logger\<close>, every method; the locale
    \<open>class_errors\<close> is the interface between a derived class (its error enumeration and its texts)
    and \<open>setReturnCode\<close>.
  \<^item> \<open>Nfs_Handler\<close> (\<open>defs_handler.h\<close>): \<open>handler_callback\<close>, every method.
  \<^item> \<open>Nfs_Runslice\<close>, \<open>Nfs_Interrupt\<close> (\<open>defs_scheduler.h\<close>): the two schedulers, every method.
    Each interprets \<open>registry\<close> (the table), \<open>simulation\<close> (the table and the queues) and \<open>class_errors\<close>
    on its own definitions.
  \<^item> \<open>Nfs_Reentrant\<close> (\<open>defs_scheduler.h\<close>): clients of the run queue whose callbacks call it back
    (\<open>rs_action\<close>, \<open>rs_client\<close>), and what \<open>run\<close> does for them; the locale \<open>runslice_client\<close> of
    \<open>Nfs_Runslice\<close> is the contract they keep.
  \<^item> \<open>Nfs_Filesystem\<close> (\<open>defs_filesystem.h\<close>): \<open>filesystem_head\<close>, every method.
  \<^item> \<open>Nfs_Tree\<close>, \<open>Nfs_Internal\<close> (\<open>defs_internal.h\<close>): the tree with its cursor, and the
    \<open>internal_filesystem\<close> above it, every method.
  \<^item> \<open>Nfs_Network\<close> (\<open>defs_network.h\<close>): \<open>network_instance\<close>, every method.
  \<^item> \<open>Nfs_Concurrency\<close> (\<open>defs_concurrency.h\<close>): \<open>concurrency_manager\<close>, every method.
  \<^item> \<open>Nfs_Tasks\<close> (\<open>defs_concurrency.h\<close>): tasks that call the manager that starts them
    (\<open>task_action\<close>, \<open>cm_client\<close>), under the locale \<open>manager_tasks\<close>.
  \<^item> \<open>Nfs_Managers\<close> (\<open>defs_concurrency.h\<close>): several managers that share the static members, and
    one manager over a long time.
  \<^item> \<open>Nfs_Interleaving\<close> (\<open>defs_scheduler.h\<close>): the operations of the interrupt scheduler as programs
    of atomic sections between calls of its mutexes, and that each of them, run alone, is the
    operation of \<open>Nfs_Interrupt\<close> (\<open>programs_run_alone\<close>).
  \<^item> \<open>Nfs_Threads\<close> (\<open>defs_scheduler.h\<close>): any number of threads that run those programs in any
    interleaving, their locking discipline and the races.
  \<^item> \<open>Nfs_Callbacks\<close> (\<open>defs_scheduler.h\<close>): registered functions that call the interrupt scheduler
    back, and what becomes of the threads when they do.
  \<^item> \<open>Nfs_Rsa\<close>, \<open>Nfs_Offline\<close> (\<open>defs_encryption.h\<close>): \<open>encryption_libraries\<close> and
    \<open>encryption_networked\<close>; \<open>encryption_offline\<close>; every method.
  \<^item> \<open>Nfs_Revisioning\<close> (\<open>defs_revisioning.h\<close>): the two constructors.

  \<^bold>\<open>How the model reads.\<close>  A class is a record with the member names of the code; a derived class
  extends the record of its base.  A method is a definition with the method's name (prefixed
  \<open>rs_\<close>, \<open>si_\<close>, \<open>fs_\<close>, \<open>net_\<close>, \<open>cm_\<close>, \<open>rsa_\<close>, \<open>off_\<close>, \<open>logger_\<close> where several classes share it) that takes the object and
  returns it updated beside the result.  A member without an initialiser is \<open>None\<close> until it is
  assigned, and an array element that nothing has written is the cell \<open>None\<close>.  The program is
  compiled without \<open>NDEBUG\<close>, so a failed \<open>assert\<close> ends it.  A method that can end that way, be
  undefined, throw on an array of negative size or lock a mutex its thread holds returns
  \<open>fault + 'a\<close>; \<open>bind_o\<close> sequences such steps.  Debugging output to \<open>cout\<close> is not modelled,
  nor is the release of memory: that \<open>delete\<close> is used on what \<open>new[]\<close> made is not counted as a fault.

  \<^bold>\<open>Parameters.\<close>  What is not under \<open>src/\<close> is an argument: the directory and status calls of the
  operating system (record \<open>posix\<close>), when the library empties the put area of a stream by itself
  (\<open>dk_spills\<close>), the socket calls (record \<open>sockets\<close>), the text of the clock,
  the functions a client registers (\<open>user_code\<close>), the number of processors, what a started
  thread does, and the calls of OpenSSL (records \<open>rsa_lib\<close> and \<open>evp_lib\<close>, the base64 filter and the
  digest as functions).  The tests at concrete inputs instantiate
  them with \<open>small_system\<close>, a loopback socket and callbacks that log their names.

  \<^bold>\<open>Threads.\<close>  The theories of the schedulers and of the concurrency manager show what one thread
  sees.  The mutexes of the interrupt scheduler are flags; a callback run by the signal handler may
  call back into the scheduler, and locking a held mutex is the fault \<open>Self_Deadlock\<close>.
  \<open>Nfs_Interleaving\<close> and \<open>Nfs_Threads\<close> then let threads interleave: a \<open>program\<close> is a sequence of
  \<open>Lock\<close>, \<open>Unlock\<close> and atomic steps (the search and the insertion of a registration are two, so
  that only the mutex keeps them together), \<open>thread_step\<close> is one step of one thread (no step if it waits),
  \<open>run_schedule\<close> follows a list of thread numbers, and \<open>reachable\<close> holds of every state that any
  calls of any threads lead to.  The functions that are registered are programs themselves, made of
  changes of their world and calls of the scheduler (\<open>si_action\<close>), which the handler runs with its
  mutexes locked.  An iterator
  that outlives its element is a fault when it is used, and accesses the code leaves unlocked count
  as atomic.  \<open>calls_never_deadlock\<close>, \<open>calls_terminate\<close> and \<open>pending_calls_complete\<close> show that the
  locking itself is right, for functions that do not lock anything (\<open>keeps_out\<close>, under the locale
  \<open>keeping_out\<close>); \<open>calling_back_blocks_all\<close> is what happens for the others, and
  \<open>update_races_remove\<close>, \<open>register_races_clean\<close> and \<open>interrupted_holder_is_stuck\<close> are what the
  locks do not cover.  The other classes take no mutex.

  \<^bold>\<open>Functions of the client.\<close>  \<open>rs_run\<close> and \<open>runTask\<close> take what the client's functions do as an
  argument that acts on the object that calls them.  \<open>world_code\<close> and \<open>world_tasks\<close> leave the object
  alone.  \<open>rs_client\<close>, \<open>si_client\<close> and \<open>cm_client\<close> perform actions that may call every public method, \<open>run\<close> and
  \<open>runTask\<close> included, and choose the next action by the answers.  A started task is performed in two
  parts, right after its thread exists and before it is joined or detached; the statements of
  \<open>runTask\<close> between the two are not interrupted.

  \<^bold>\<open>Loops.\<close>  Loops over a container or a counter are structural recursion.  The breadth first walk
  of \<open>clean\<close> (\<open>tree_clean_loop\<close>) is a function with a termination proof: every step takes
  a node from the stack and can put back only nodes further down.  The loop over \<open>moveUp\<close>,
  the directory walk of \<open>updateRepresentation\<close>, the retry loop of \<open>setAllTasks\<close> and the recursion
  between \<open>enqueueTask\<close> and the destructor of a task may not end for every input, so they are
  \<open>partial_function (option)\<close>, where not ending is \<open>None\<close>.  \<open>no_way_up\<close>, \<open>update_never_returns\<close>
  and \<open>tasks_start_in_order\<close> prove that the first three do not go on for ever on the objects the
  program can build (the walk by running into undefined behaviour at its first directory); \<open>enqueueTask_cases\<close> says exactly when the last one does not.  Only \<open>rs_client\<close>, \<open>si_client\<close> and \<open>cm_client\<close> are
  indexed by a number, the nested calls of the client's functions that fit on the stack; one more is
  the fault \<open>Stack_Exhausted\<close>.  \<open>deeper_stack_same_result\<close> shows that a larger number changes no
  other result, \<open>run_free_client\<close> that one level is enough for functions that do not call \<open>run\<close>, and
  that the signal handler needs no more than one level (\<open>one_level_is_enough\<close>), and
  \<open>nested_run_never_returns\<close> that no number is enough for those that do so first; a task started
  inside a task never gets to run (\<open>task_starting_tasks_aborts\<close>).

  \<^bold>\<open>What the lemmas show.\<close>  For each class an invariant and that every operation keeps it
  (\<open>file_reach\<close>, \<open>logger_reach\<close>, \<open>rs_inv\<close>, \<open>si_inv\<close>, \<open>tree_inv\<close>, \<open>internal_inv\<close>, \<open>net_inv\<close>, \<open>cm_inv\<close>), an equation
  per operation on the invariant, and then the properties.  Some show that the code does what it
  means to: the run queues and the signal queues with their table refine plain ordered queues
  (\<open>runslice_refines_queues\<close>, \<open>interrupt_refines_tables\<close>), a truncating or appending descriptor has
  put what is written on the disk when it is destroyed, the listing is exact for entries whose
  \<open>stat\<close> succeeds, a tree child can be added, found and removed, a frame is decoded if the first read does not
  overflow its buffer, one-shot tasks start in order and keep different identifiers, callbacks that register themselves
  again and joined tasks that queue themselves again are served in turn and for ever, threads never deadlock and register
  an identifier once, the search for the tag of a ciphertext finds the last delimiter.
  Many show what the code does instead of what its comments say: a log call, \<open>write_newline\<close> and
  \<open>read_file_string\<close> never return, a descriptor given a second file is dead, the result of
  \<open>changeDirectory\<close> is inverted, \<open>createFile\<close> never writes, no path of the internal file system is
  ever found, an update of the picture never returns, nothing is ever sent, the run queue never rotates, the interrupt queues call the
  newest task and drop the oldest, a common variable is never removed,
  enqueueing a recurring task while scheduled tasks may run never returns, a callback cannot call
  \<open>run\<close> and a task cannot call \<open>runTask\<close>, not even of another manager, a manager ends the program
  after some 32765 tasks, no RSA key is ever
  available, AES never returns, base64 cannot be decoded, and digests are compared up to a zero byte.

  The constructor of the interrupt scheduler asserts a flag that is always clear
  (\<open>interrupt_new_aborts\<close>).  The other properties of that class start from its members as
  initialised (\<open>interrupt_initial\<close>), that is, from the class with this one assertion corrected.

  \<^bold>\<open>Not modelled.\<close>  The methods of \<open>defs_revisioning.h\<close> are comments.  \<open>mgr.cpp\<close>, \<open>defs.h\<close> and
  \<open>CORE/\<close> hold no logic, the \<open>*_test_cases\<close> functions only print a line, and \<open>EXT_LIBS\<close> is
  third-party code.  What a detached thread does to the concurrency manager after \<open>runTask\<close> has
  returned is not modelled: the manager has no lock for its table and its queue, so that every such
  access is a data race.
\<close>

section \<open>Error reports across the components\<close>

text \<open>
  Seven classes hand an element of their error enumeration to \<open>setReturnCode\<close>, where the comments
  ask for \<open>getMinClassError\<close> to be added first.
\<close>

definition standard_report ::
  "int \<Rightarrow> string \<Rightarrow> 'a debug_status_scheme \<Rightarrow> 'a debug_status_scheme outcome" where
  "standard_report c txt s = Inr (s\<lparr>debug_class_return_code := Some c, debug_class_status := txt\<rparr>)"

text \<open>Claim C37.  No class ever reports one of its own error texts.  In each of the seven classes the
  first error is recorded as \<open>OK\<close>, the second as \<open>Allocation failed\<close>, and every other one ends the
  program: an empty run queue, an empty signal queue, a directory that cannot be opened, created or
  removed, a socket that cannot be opened, bound, accepted on or connected, a lock of an unknown
  variable, a task that cannot be run, a key that cannot be loaded, every failure of AES but two.\<close>

theorem class_errors_never_shown:
  "(\<forall>e (s :: ('f, 'v) scheduler_runslice). rs_report e s = (case e of
      Rs_identifier_not_available \<Rightarrow> standard_report 0 ''OK'' s
    | Rs_identifier_is_occupied \<Rightarrow> standard_report 1 ''Allocation failed'' s
    | _ \<Rightarrow> Inl Assertion_Failed)) \<and>
   (\<forall>e (s :: ('g, 'u) scheduler_interrupt). si_report e s = (case e of
      Si_identifier_not_available \<Rightarrow> standard_report 0 ''OK'' s
    | Si_callback_dropped_prematurely \<Rightarrow> standard_report 1 ''Allocation failed'' s
    | _ \<Rightarrow> Inl Assertion_Failed)) \<and>
   (\<forall>e s. fs_report e s = (case e of
      Fs_cannot_change_directory \<Rightarrow> standard_report 0 ''OK'' s
    | Fs_cannot_update_directory \<Rightarrow> standard_report 1 ''Allocation failed'' s
    | _ \<Rightarrow> Inl Assertion_Failed)) \<and>
   (\<forall>e s. net_report e s = (case e of
      Net_cannot_obtain_server_address \<Rightarrow> standard_report 0 ''OK'' s
    | Net_cannot_obtain_client_address \<Rightarrow> standard_report 1 ''Allocation failed'' s
    | _ \<Rightarrow> Inl Assertion_Failed)) \<and>
   (\<forall>e (s :: ('h, 'p) concurrency_manager). cm_report e s = (case e of
      Cm_cannot_enlist_common_variable \<Rightarrow> standard_report 0 ''OK'' s
    | Cm_cannot_remove_common_variable \<Rightarrow> standard_report 1 ''Allocation failed'' s
    | _ \<Rightarrow> Inl Assertion_Failed)) \<and>
   (\<forall>e (s :: ('b, 'r) encryption_networked). rsa_report e s = (case e of
      Rsa_cannot_init_private_keyBIO \<Rightarrow> standard_report 0 ''OK'' s
    | Rsa_cannot_init_private_RSA \<Rightarrow> standard_report 1 ''Allocation failed'' s
    | _ \<Rightarrow> Inl Assertion_Failed)) \<and>
   (\<forall>e s. off_report e s = (case e of
      Off_cannot_initialize_context \<Rightarrow> standard_report 0 ''OK'' s
    | Off_cannot_initialize_encryption \<Rightarrow> standard_report 1 ''Allocation failed'' s
    | _ \<Rightarrow> Inl Assertion_Failed))"
proof (intro conjI allI)
  show "rs_report e s = (case e of
      Rs_identifier_not_available \<Rightarrow> standard_report 0 ''OK'' s
    | Rs_identifier_is_occupied \<Rightarrow> standard_report 1 ''Allocation failed'' s
    | _ \<Rightarrow> Inl Assertion_Failed)" for e and s :: "('f, 'v) scheduler_runslice"
    unfolding rs_report_def rs_errors.report_cases standard_report_def by (cases e) simp_all
  show "si_report e s = (case e of
      Si_identifier_not_available \<Rightarrow> standard_report 0 ''OK'' s
    | Si_callback_dropped_prematurely \<Rightarrow> standard_report 1 ''Allocation failed'' s
    | _ \<Rightarrow> Inl Assertion_Failed)" for e and s :: "('g, 'u) scheduler_interrupt"
    unfolding si_report_def si_errors.report_cases standard_report_def by (cases e) simp_all
  show "fs_report e s = (case e of
      Fs_cannot_change_directory \<Rightarrow> standard_report 0 ''OK'' s
    | Fs_cannot_update_directory \<Rightarrow> standard_report 1 ''Allocation failed'' s
    | _ \<Rightarrow> Inl Assertion_Failed)" for e s
    unfolding fs_report_def fs_errors.report_cases standard_report_def by (cases e) simp_all
  show "net_report e s = (case e of
      Net_cannot_obtain_server_address \<Rightarrow> standard_report 0 ''OK'' s
    | Net_cannot_obtain_client_address \<Rightarrow> standard_report 1 ''Allocation failed'' s
    | _ \<Rightarrow> Inl Assertion_Failed)" for e s
    unfolding net_report_def net_errors.report_cases standard_report_def by (cases e) simp_all
  show "cm_report e s = (case e of
      Cm_cannot_enlist_common_variable \<Rightarrow> standard_report 0 ''OK'' s
    | Cm_cannot_remove_common_variable \<Rightarrow> standard_report 1 ''Allocation failed'' s
    | _ \<Rightarrow> Inl Assertion_Failed)" for e and s :: "('h, 'p) concurrency_manager"
    unfolding cm_report_def cm_errors.report_cases standard_report_def by (cases e) simp_all
  show "rsa_report e s = (case e of
      Rsa_cannot_init_private_keyBIO \<Rightarrow> standard_report 0 ''OK'' s
    | Rsa_cannot_init_private_RSA \<Rightarrow> standard_report 1 ''Allocation failed'' s
    | _ \<Rightarrow> Inl Assertion_Failed)" for e and s :: "('b, 'r) encryption_networked"
    unfolding rsa_report_def rsa_errors.report_cases standard_report_def by (cases e) simp_all
  show "off_report e s = (case e of
      Off_cannot_initialize_context \<Rightarrow> standard_report 0 ''OK'' s
    | Off_cannot_initialize_encryption \<Rightarrow> standard_report 1 ''Allocation failed'' s
    | _ \<Rightarrow> Inl Assertion_Failed)" for e s
    unfolding off_report_def off_errors.report_cases standard_report_def by (cases e) simp_all
qed

end
